(* ===== verification/Prelude.thy ===== *)
theory Prelude
  imports Main "HOL-Library.AList" "HOL-Library.Sublist"
begin

text \<open>
  Shared vocabulary of the development.

  A Go \<open>string\<close> is a byte sequence and is modelled by \<open>string\<close> (a list of 8-bit characters),
  so \<open>length\<close> counts bytes as Go's \<open>len\<close> does. A Go map is an association list with distinct
  keys: the list order is the order in which one particular \<open>range\<close> loop visits the entries.
  Go leaves that order unspecified, so a statement that holds for every list holds for every
  order the runtime may choose. \<open>AList.update\<close> and \<open>AList.delete\<close> are the assignments
  \<open>m[k] = v\<close> and \<open>delete(m, k)\<close>, and \<open>map_of\<close> is the lookup.

  The second half holds the functions of Go's package \<open>strings\<close> that the program calls, with
  the facts the components share. The collection \<open>str_simps\<close> gathers the rewrite rules about them.
\<close>

named_theorems str_simps

type_synonym ('k, 'v) go_map = "('k \<times> 'v) list"
type_synonym str_map = "(string, string) go_map"

subsection \<open>Go maps as association lists\<close>

text \<open>A sequence of assignments \<open>m[k] = v\<close>, the earliest first, applied to \<open>m\<close>.\<close>

definition assign_all :: "('k \<times> 'v) list \<Rightarrow> ('k, 'v) go_map \<Rightarrow> ('k, 'v) go_map" where
  "assign_all kvs m = foldl (\<lambda>m (k, v). AList.update k v m) m kvs"

text \<open>\<open>clone_map\<close> is the copying loop \<open>for k, v := range m { c[k] = v }\<close> into a new map.\<close>

definition clone_map :: "('k, 'v) go_map \<Rightarrow> ('k, 'v) go_map" where
  "clone_map m = assign_all m []"

text \<open>The lookup \<open>m[k]\<close> of a map to strings: the empty string for a key that is not there.\<close>

definition str_get :: "str_map \<Rightarrow> string \<Rightarrow> string" where
  "str_get m k = (case map_of m k of Some v \<Rightarrow> v | None \<Rightarrow> [])"

abbreviation distinct_keys :: "('k, 'v) go_map \<Rightarrow> bool" where
  "distinct_keys m \<equiv> distinct (map fst m)"

subsection \<open>Functions of package strings\<close>

definition has_prefix :: "string \<Rightarrow> string \<Rightarrow> bool" where
  "has_prefix s p = prefix p s"

definition trim_prefix :: "string \<Rightarrow> string \<Rightarrow> string" where
  "trim_prefix s p = (if has_prefix s p then drop (length p) s else s)"

definition contains :: "string \<Rightarrow> string \<Rightarrow> bool" where
  "contains s t = sublist t s"

fun break_at :: "char \<Rightarrow> string \<Rightarrow> string \<times> string option" where
  "break_at c [] = ([], None)"
| "break_at c (x # xs) =
     (if x = c then ([], Some xs) else (case break_at c xs of (a, r) \<Rightarrow> (x # a, r)))"

text \<open>\<open>strings.SplitN(s, sep, n)\<close> for a one-byte separator and \<open>n \<ge> 0\<close>.\<close>

fun split_n :: "nat \<Rightarrow> char \<Rightarrow> string \<Rightarrow> string list" where
  "split_n 0 c s = []"
| "split_n (Suc 0) c s = [s]"
| "split_n (Suc (Suc n)) c s =
     (case break_at c s of (a, None) \<Rightarrow> [a] | (a, Some r) \<Rightarrow> a # split_n (Suc n) c r)"

text \<open>\<open>strings.Split(s, sep)\<close> for a one-byte separator.\<close>

fun split_on :: "char \<Rightarrow> string \<Rightarrow> string list" where
  "split_on c [] = [[]]"
| "split_on c (x # xs) =
     (if x = c then [] # split_on c xs
      else (case split_on c xs of [] \<Rightarrow> [[x]] | y # ys \<Rightarrow> (x # y) # ys))"

text \<open>
  \<open>strings.ReplaceAll(s, old, new)\<close> for a nonempty \<open>old\<close> (the program never passes an empty one):
  occurrences are replaced from the left and the replacement text is not scanned again.
\<close>

function replace_all :: "string \<Rightarrow> string \<Rightarrow> string \<Rightarrow> string" where
  "replace_all [] old new = []"
| "replace_all (x # xs) old new =
     (if old \<noteq> [] \<and> prefix old (x # xs)
      then new @ replace_all (drop (length old) (x # xs)) old new
      else x # replace_all xs old new)"
  by pat_completeness auto
termination
  by (relation "measure (\<lambda>(s, old, new). length s)") (auto simp: neq_Nil_conv)

text \<open>
  \<open>strings.TrimSpace\<close>: the white space of \<open>unicode.IsSpace\<close>, as the UTF-8 encodings of its
  code points. UTF-8 is self-synchronising, so stripping these byte sequences from either end
  strips exactly the white space runes.
\<close>

definition space_seqs :: "string list" where
  "space_seqs =
     map (\<lambda>n. [char_of n]) [9, 10, 11, 12, 13, 32 :: nat] @
     map (map char_of) [[0xC2, 0x85], [0xC2, 0xA0], [0xE1, 0x9A, 0x80 :: nat]] @
     map (\<lambda>n. [char_of (0xE2 :: nat), char_of (0x80 :: nat), char_of n])
       ([0x80 ..< 0x8B] @ [0xA8, 0xA9, 0xAF :: nat]) @
     map (map char_of) [[0xE2, 0x81, 0x9F], [0xE3, 0x80, 0x80 :: nat]]"

definition space_at :: "string \<Rightarrow> string option" where
  "space_at s = find (\<lambda>w. prefix w s) space_seqs"

definition space_at_end :: "string \<Rightarrow> string option" where
  "space_at_end s = find (\<lambda>w. suffix w s) space_seqs"

lemma space_seqs_nonempty: "w \<in> set space_seqs \<Longrightarrow> w \<noteq> []"
  by (auto simp: space_seqs_def)

lemma space_at_SomeD: "space_at s = Some w \<Longrightarrow> w \<noteq> [] \<and> prefix w s"
  by (auto simp: space_at_def find_Some_iff dest!: nth_mem space_seqs_nonempty)

lemma space_at_end_SomeD: "space_at_end s = Some w \<Longrightarrow> w \<noteq> [] \<and> suffix w s"
  by (auto simp: space_at_end_def find_Some_iff dest!: nth_mem space_seqs_nonempty)

function trim_left_space :: "string \<Rightarrow> string" where
  "trim_left_space s =
     (case space_at s of None \<Rightarrow> s | Some w \<Rightarrow> trim_left_space (drop (length w) s))"
  by pat_completeness auto
termination
  by (relation "measure length") (auto dest!: space_at_SomeD simp: prefix_def)

function trim_right_space :: "string \<Rightarrow> string" where
  "trim_right_space s =
     (case space_at_end s of None \<Rightarrow> s
      | Some w \<Rightarrow> trim_right_space (take (length s - length w) s))"
  by pat_completeness auto
termination
  by (relation "measure length") (auto dest!: space_at_end_SomeD simp: suffix_def)

declare trim_left_space.simps [simp del] trim_right_space.simps [simp del]

definition trim_space :: "string \<Rightarrow> string" where
  "trim_space s = trim_right_space (trim_left_space s)"

subsection \<open>Shared facts\<close>

lemma assign_all_Nil [simp]: "assign_all [] m = m"
  by (simp add: assign_all_def)

lemma assign_all_Cons [simp]:
  "assign_all ((k, v) # kvs) m = assign_all kvs (AList.update k v m)"
  by (simp add: assign_all_def)

lemma assign_all_append [simp]: "assign_all (xs @ ys) m = assign_all ys (assign_all xs m)"
  by (simp add: assign_all_def)

lemma map_of_assign_all: "map_of (assign_all kvs m) = map_of m ++ map_of (rev kvs)"
  by (induction kvs arbitrary: m)
     (auto simp: update_conv' map_add_def fun_eq_iff split: option.splits)

lemma distinct_assign_all: "distinct_keys m \<Longrightarrow> distinct_keys (assign_all kvs m)"
  by (induction kvs arbitrary: m) (auto simp: distinct_update)

lemma keys_assign_all: "fst ` set (assign_all kvs m) = fst ` set m \<union> fst ` set kvs"
proof (induction kvs arbitrary: m)
  case (Cons kv kvs)
  then show ?case by (cases kv) (simp add: dom_update)
qed simp

lemma map_of_rev_distinct: "distinct_keys kvs \<Longrightarrow> map_of (rev kvs) = map_of kvs"
  by (rule map_of_inject_set [THEN iffD2]) (auto simp flip: rev_map)

lemma map_of_clone_map: "distinct_keys m \<Longrightarrow> map_of (clone_map m) = map_of m"
  by (simp add: clone_map_def map_of_assign_all map_of_rev_distinct)

lemma distinct_clone_map [simp, intro]: "distinct_keys (clone_map m)"
  by (simp add: clone_map_def distinct_assign_all)

lemma has_prefix_append [str_simps, simp]: "has_prefix (p @ s) p"
  by (simp add: has_prefix_def)

lemma trim_prefix_append [str_simps, simp]: "trim_prefix (p @ s) p = s"
  by (simp add: trim_prefix_def)

lemma break_at_None: "c \<notin> set s \<Longrightarrow> break_at c s = (s, None)"
  by (induction s) auto

lemma break_at_append: "c \<notin> set a \<Longrightarrow> break_at c (a @ c # r) = (a, Some r)"
  by (induction a) auto

lemma break_at_fst_notin: "break_at c s = (a, r) \<Longrightarrow> c \<notin> set a"
  by (induction s arbitrary: a r) (auto split: if_splits prod.splits)

lemma break_at_SomeD: "break_at c s = (a, Some r) \<Longrightarrow> s = a @ c # r"
  by (induction s arbitrary: a) (auto split: if_splits prod.splits)

lemma break_at_NoneD: "break_at c s = (a, None) \<Longrightarrow> s = a"
  by (induction s arbitrary: a) (auto split: if_splits prod.splits)

lemma break_at_Some_eq: "break_at c s = (a, Some r) \<longleftrightarrow> s = a @ c # r \<and> c \<notin> set a"
  using break_at_SomeD break_at_fst_notin break_at_append by metis

lemma break_at_None_eq: "break_at c s = (a, None) \<longleftrightarrow> s = a \<and> c \<notin> set a"
  using break_at_NoneD break_at_fst_notin break_at_None by metis

lemma split_n_nonempty: "0 < n \<Longrightarrow> split_n n c s \<noteq> []"
  by (cases "(n, c, s)" rule: split_n.cases) (auto split: prod.splits option.splits)

lemma split_n_head_notin: "1 < n \<Longrightarrow> c \<notin> set (hd (split_n n c s))"
  by (cases "(n, c, s)" rule: split_n.cases)
     (auto split: prod.splits option.splits dest: break_at_fst_notin)

lemma replace_all_id: "\<not> sublist old s \<Longrightarrow> replace_all s old new = s"
proof (induction s old new rule: replace_all.induct)
  case (1 old new)
  show ?case by simp
next
  case (2 x xs old new)
  then have "\<not> prefix old (x # xs)" and "\<not> sublist old xs"
    by (auto dest: prefix_imp_sublist simp: sublist_Cons_right)
  with 2 show ?case by simp
qed

lemma replace_all_self: "old \<noteq> [] \<Longrightarrow> replace_all old old new = new"
  by (cases old) auto

text \<open>The size of an association list that is deleted from and updated.\<close>

lemma delete_absent: "n \<notin> fst ` set kvs \<Longrightarrow> AList.delete n kvs = kvs"
  by (induction kvs) auto

lemma length_delete_distinct: "distinct_keys xs \<Longrightarrow> k \<in> fst ` set xs \<Longrightarrow> Suc (length (AList.delete k xs)) = length xs"
  by (induction xs) (auto simp: delete_absent)

lemma length_update_present: "map_of xs k \<noteq> None \<Longrightarrow> length (AList.update k v xs) = length xs"
  by (induction xs) auto

end
