(* ===== verification/Inline_Ref.thy ===== *)
theory Inline_Ref
  imports Prelude
begin

text \<open>
  Inline references: the pattern
  \<^verbatim>\<open>\${([>]{0,2}secrets-store:.*?#*}?)}\<close>
  of \<^verbatim>\<open>images/env-injector/injector.go\<close> (and the same text in the webhook), the Go
  \<open>regexp\<close> search with it, and the classification of environment values.

  The pattern is a value of \<open>re\<close> and is run by a matcher with the leftmost-first semantics of
  package \<open>regexp\<close>: \<open>re_match r s\<close> lists the ways \<open>r\<close> can match a prefix of \<open>s\<close>, the preferred one
  first, so a search takes the head. Bytes stand for runes here. This is exact for this pattern:
  every literal of it is ASCII, the class of \<open>.\<close> excludes only the newline, and no byte of a
  multi-byte rune is ASCII.

  \<open>inline_scan\<close> is an independent linear scanner for the same references. The lemmas show that the
  two agree, what every match looks like, and that matches are disjoint pieces of the value, which
  is the measure that makes the recursion of the injector terminate.
\<close>

subsection \<open>Regular expressions with leftmost-first matching\<close>

datatype re =
    Lit string
  | Greedy "char \<Rightarrow> bool" "nat option"
  | Lazy "char \<Rightarrow> bool"
  | Seq re re
  | Grp re

text \<open>A way to match: the bytes consumed, the rest of the input and the capture, if any.\<close>

type_synonym way = "string \<times> string \<times> string option"

definition cls_len :: "(char \<Rightarrow> bool) \<Rightarrow> nat option \<Rightarrow> string \<Rightarrow> nat" where
  "cls_len p mx s =
     (let n = length (takeWhile p s) in case mx of None \<Rightarrow> n | Some m \<Rightarrow> min m n)"

definition cls_ways :: "(char \<Rightarrow> bool) \<Rightarrow> nat option \<Rightarrow> string \<Rightarrow> way list" where
  "cls_ways p mx s = map (\<lambda>k. (take k s, drop k s, None)) [0 ..< Suc (cls_len p mx s)]"

definition seq_way :: "way \<Rightarrow> way \<Rightarrow> way" where
  "seq_way a b =
     (case (a, b) of ((u, _, c), (v, s, d)) \<Rightarrow> (u @ v, s, if d = None then c else d))"

fun re_match :: "re \<Rightarrow> string \<Rightarrow> way list" where
  "re_match (Lit l) s = (if prefix l s then [(l, drop (length l) s, None)] else [])"
| "re_match (Greedy p mx) s = rev (cls_ways p mx s)"
| "re_match (Lazy p) s = cls_ways p None s"
| "re_match (Seq r1 r2) s =
     concat (map (\<lambda>(u, s', c). map (seq_way (u, s', c)) (re_match r2 s')) (re_match r1 s))"
| "re_match (Grp r) s = map (\<lambda>(u, s', c). (u, s', Some u)) (re_match r s)"

text \<open>
  \<open>inlineMutationRegex\<close>. The group is a bounded greedy run of \<open>>\<close>, the literal scheme, a lazy run
  of anything but a newline, a greedy run of \<open>#\<close> and an optional closing brace.
\<close>

definition inline_re :: re where
  "inline_re =
     Seq (Lit ''${'')
      (Seq (Grp (Seq (Greedy (\<lambda>c. c = CHR ''>'') (Some 2))
            (Seq (Lit ''secrets-store:'')
            (Seq (Lazy (\<lambda>c. c \<noteq> CHR 0x0A))
            (Seq (Greedy (\<lambda>c. c = CHR ''#'') None)
                 (Greedy (\<lambda>c. c = CHR ''}'') (Some 1)))))))
       (Lit ''}''))"

definition match_at :: "re \<Rightarrow> string \<Rightarrow> (string \<times> string \<times> string) option" where
  "match_at r s =
     (case re_match r s of [] \<Rightarrow> None
      | (u, s', c) # _ \<Rightarrow> Some (u, (case c of None \<Rightarrow> [] | Some g \<Rightarrow> g), s'))"

text \<open>
  \<open>FindAllStringSubmatch(value, -1)\<close>: the successive leftmost matches with their first group, for a
  pattern whose matches are nonempty (as those of \<open>inline_re\<close> are, \<open>match_at_inline\<close> below).
\<close>

function find_all :: "re \<Rightarrow> string \<Rightarrow> (string \<times> string) list" where
  "find_all r [] = (case match_at r [] of None \<Rightarrow> [] | Some (u, g, s') \<Rightarrow> [(u, g)])"
| "find_all r (x # xs) =
     (case match_at r (x # xs) of
        None \<Rightarrow> find_all r xs
      | Some (u, g, s') \<Rightarrow>
          (u, g) # (if length s' < length (x # xs) then find_all r s' else find_all r xs))"
  by pat_completeness auto
termination
  by (relation "measure (\<lambda>(r, s). length s)") auto

definition find_inline_vault_delimiters :: "string \<Rightarrow> (string \<times> string) list" where
  "find_inline_vault_delimiters value = find_all inline_re value"

definition has_inline_vault_delimiters :: "string \<Rightarrow> bool" where
  "has_inline_vault_delimiters value = (0 < length (find_inline_vault_delimiters value))"

definition is_valid_prefix :: "string \<Rightarrow> bool" where
  "is_valid_prefix value =
     (has_prefix value ''secrets-store:'' \<or> has_prefix value ''>>secrets-store:'')"

text \<open>\<open>isUpdateReference\<close>: does resolving the value write to Vault?\<close>

definition is_update_reference :: "string \<Rightarrow> bool" where
  "is_update_reference value =
     (if has_prefix value ''>>secrets-store:'' then True
      else list_ex (\<lambda>(m0, m1). has_prefix m1 ''>>'') (find_inline_vault_delimiters value))"

subsection \<open>The linear scanner\<close>

text \<open>
  \<open>inline_scan s\<close> looks for a reference at the front of \<open>s\<close>: the opening, at most two \<open>>\<close>, the
  scheme, then everything up to the first closing brace of the line, and one more if there is one.
\<close>

definition inline_scan :: "string \<Rightarrow> (string \<times> string \<times> string) option" where
  "inline_scan s =
     (if \<not> prefix ''${'' s then None
      else let b = drop 2 s;
               n = cls_len (\<lambda>c. c = CHR ''>'') (Some 2) b;
               t = drop n b
           in if \<not> prefix ''secrets-store:'' t then None
              else let w = drop 14 t;
                       body = takeWhile (\<lambda>c. c \<noteq> CHR ''}'' \<and> c \<noteq> CHR 0x0A) w;
                       rest = drop (length body) w
                   in (case rest of
                         [] \<Rightarrow> None
                       | c # cs \<Rightarrow>
                           if c \<noteq> CHR ''}'' then None
                           else if prefix ''}'' cs then
                             (let g = take n b @ ''secrets-store:'' @ body @ ''}''
                              in Some (''${'' @ g @ ''}'', g, tl cs))
                           else
                             (let g = take n b @ ''secrets-store:'' @ body
                              in Some (''${'' @ g @ ''}'', g, cs))))"

subsection \<open>Agreement of the matcher and the scanner\<close>

lemma prefix_imp_append_drop: "prefix p s \<Longrightarrow> p @ drop (length p) s = s"
  by (auto simp: prefix_def)

lemma cls_len_le: "cls_len p mx s \<le> length (takeWhile p s)"
  by (simp add: cls_len_def Let_def split: option.splits)

text \<open>Every way splits the input: what is consumed, then the rest.\<close>

lemma re_match_append: "(u, s', c) \<in> set (re_match r s) \<Longrightarrow> u @ s' = s"
proof (induction r arbitrary: s u s' c)
  case (Lit l)
  then show ?case by (auto simp: prefix_imp_append_drop split: if_splits)
next
  case (Seq r1 r2)
  then show ?case by (fastforce simp: seq_way_def)
qed (auto simp: cls_ways_def)

lemma find_append:
  "List.find P (xs @ ys) = (case List.find P xs of None \<Rightarrow> List.find P ys | Some x \<Rightarrow> Some x)"
  by (induction xs) auto

lemma find_map_opt: "List.find P (map f xs) = map_option f (List.find (\<lambda>x. P (f x)) xs)"
  by (induction xs) auto

definition closes :: "way \<Rightarrow> bool" where
  "closes w = prefix ''}'' (fst (snd w))"

lemma closes_seq_way [simp]: "closes (seq_way a b) = closes b"
  by (simp add: closes_def seq_way_def split: prod.splits)

text \<open>The parts of \<open>inline_re\<close>: the tail after the lazy run, the lazy run, the group.\<close>

definition tail_re :: re where
  "tail_re = Seq (Greedy (\<lambda>c. c = CHR ''#'') None) (Greedy (\<lambda>c. c = CHR ''}'') (Some 1))"

definition lazy_re :: re where
  "lazy_re = Seq (Lazy (\<lambda>c. c \<noteq> CHR 0x0A)) tail_re"

definition group_re :: re where
  "group_re = Seq (Greedy (\<lambda>c. c = CHR ''>'') (Some 2)) (Seq (Lit ''secrets-store:'') lazy_re)"

definition tail_scan :: "string \<Rightarrow> way option" where
  "tail_scan v =
     (let h = takeWhile (\<lambda>c. c = CHR ''#'') v; r = drop (length h) v
      in if prefix ''}}'' r then Some (h @ ''}'', tl r, None)
         else if prefix ''}'' r then Some (h, r, None) else None)"

definition brace_ways :: "string \<Rightarrow> way list" where
  "brace_ways r = (case r of [] \<Rightarrow> [([], [], None)]
     | c # cs \<Rightarrow> if c = CHR ''}'' then [([c], cs, None), ([], r, None)] else [([], r, None)])"

lemma re_match_brace: "re_match (Greedy (\<lambda>c. c = CHR ''}'') (Some 1)) r = brace_ways r"
  by (cases r) (auto simp: cls_ways_def cls_len_def brace_ways_def)

lemma find_brace_ways: "List.find closes (brace_ways r) =
   (if prefix ''}}'' r then Some (''}'', tl r, None)
    else if prefix ''}'' r then Some ([], r, None) else None)"
  by (cases r; cases "tl r") (auto simp: brace_ways_def closes_def)

lemma find_concat_None:
  "(\<And>x. x \<in> set xs \<Longrightarrow> List.find P x = None) \<Longrightarrow> List.find P (concat xs) = None"
  by (induction xs) (auto simp: find_append)

lemma find_brace_ways_hash: "List.find closes (brace_ways (CHR ''#'' # r)) = None"
  by (simp add: find_brace_ways)

lemma drop_hash: "k < length (takeWhile (\<lambda>c. c = d) v) \<Longrightarrow> \<exists>r. drop k v = d # r"
proof (induction v arbitrary: k)
  case (Cons x v)
  then show ?case by (cases k) (auto split: if_splits)
qed simp

lemma take_takeWhile: "take (length (takeWhile P xs)) xs = takeWhile P xs"
  by (metis takeWhile_eq_take length_takeWhile_le)

lemma re_match_Seq_Greedy: "re_match (Seq (Greedy p mx) r) v =
   concat (map (\<lambda>k. map (seq_way (take k v, drop k v, None)) (re_match r (drop k v)))
     (rev [0 ..< Suc (cls_len p mx v)]))"
  by (simp add: cls_ways_def rev_map comp_def)

lemma find_tail: "List.find closes (re_match tail_re v) = tail_scan v"
proof -
  let ?h = "takeWhile (\<lambda>c. c = CHR ''#'') v"
  let ?f = "\<lambda>k. map (seq_way (take k v, drop k v, None)) (brace_ways (drop k v))"
  have "re_match tail_re v = concat (map ?f (rev [0 ..< Suc (length ?h)]))"
    unfolding tail_re_def re_match_Seq_Greedy re_match_brace by (simp add: cls_len_def)
  also have "\<dots> = ?f (length ?h) @ concat (map ?f (rev [0 ..< length ?h]))"
    by simp
  finally have "re_match tail_re v = ?f (length ?h) @ concat (map ?f (rev [0 ..< length ?h]))" .
  moreover have "List.find closes (concat (map ?f (rev [0 ..< length ?h]))) = None"
  proof (rule find_concat_None)
    fix x assume "x \<in> set (map ?f (rev [0 ..< length ?h]))"
    then obtain k where k: "k < length ?h" and x: "x = ?f k" by auto
    from drop_hash [OF k] obtain r where "drop k v = CHR ''#'' # r" ..
    then show "List.find closes x = None"
      by (simp add: x find_map_opt find_brace_ways_hash)
  qed
  ultimately have "List.find closes (re_match tail_re v) =
      map_option (seq_way (?h, drop (length ?h) v, None)) (List.find closes (brace_ways (drop (length ?h) v)))"
    by (simp add: find_append find_map_opt take_takeWhile split: option.splits)
  then show ?thesis
    by (simp add: find_brace_ways tail_scan_def Let_def seq_way_def)
qed

lemma lazy_ways_Cons: "cls_ways p None (c # w) =
   ([], c # w, None) # (if p c then map (\<lambda>(u, s', d). (c # u, s', d)) (cls_ways p None w) else [])"
proof (cases "p c")
  case True
  let ?n = "length (takeWhile p w)"
  have "[0 ..< Suc (Suc ?n)] = 0 # map Suc [0 ..< Suc ?n]"
    by (metis map_Suc_upt upt_conv_Cons zero_less_Suc)
  with True show ?thesis
    by (simp add: cls_ways_def cls_len_def comp_def del: upt_Suc)
qed (simp add: cls_ways_def cls_len_def)

lemma lazy_ways_Nil: "cls_ways p None [] = [([], [], None)]"
  by (simp add: cls_ways_def cls_len_def)

definition cons_way :: "char \<Rightarrow> way \<Rightarrow> way" where
  "cons_way c w = (case w of (u, s', d) \<Rightarrow> (c # u, s', d))"

lemma closes_cons_way [simp]: "closes (cons_way c w) = closes w"
  by (simp add: closes_def cons_way_def split: prod.splits)

lemma seq_way_Nil [simp]: "seq_way ([], s, None) = (\<lambda>b. b)"
  by (auto simp: seq_way_def fun_eq_iff)

lemma seq_way_Cons: "seq_way (c # u, s, d) b = cons_way c (seq_way (u, s, d) b)"
  by (cases b) (auto simp: seq_way_def cons_way_def)

lemma lazy_Nil: "re_match lazy_re [] = re_match tail_re []"
  by (simp add: lazy_re_def lazy_ways_Nil)

lemma lazy_Cons: "re_match lazy_re (c # w) = re_match tail_re (c # w) @
   (if c \<noteq> CHR 0x0A then map (cons_way c) (re_match lazy_re w) else [])"
proof -
  have "re_match (Seq (Lazy p) r) (c # w) = re_match r (c # w) @
     (if p c then map (cons_way c) (re_match (Seq (Lazy p) r) w) else [])" for p r
    by (auto simp: lazy_ways_Cons map_concat comp_def case_prod_beta seq_way_Cons
        intro!: arg_cong [where f = concat] map_cong)
  then show ?thesis unfolding lazy_re_def .
qed

definition lazy_scan :: "string \<Rightarrow> way option" where
  "lazy_scan w =
     (let body = takeWhile (\<lambda>c. c \<noteq> CHR ''}'' \<and> c \<noteq> CHR 0x0A) w; r = drop (length body) w
      in if prefix ''}}'' r then Some (body @ ''}'', tl r, None)
         else if prefix ''}'' r then Some (body, r, None) else None)"

lemma tail_scan_hash: "tail_scan (CHR ''#'' # w) = map_option (cons_way (CHR ''#'')) (tail_scan w)"
  by (simp add: tail_scan_def cons_way_def Let_def)

lemma tail_scan_brace: "tail_scan (CHR ''}'' # w) = lazy_scan (CHR ''}'' # w)"
  by (simp add: tail_scan_def lazy_scan_def)

lemma tail_scan_brace_Some: "tail_scan (CHR ''}'' # w) \<noteq> None"
  by (simp add: tail_scan_def Let_def)

lemma tail_scan_other: "c \<noteq> CHR ''#'' \<Longrightarrow> c \<noteq> CHR ''}'' \<Longrightarrow> tail_scan (c # w) = None"
  by (simp add: tail_scan_def)

lemma lazy_scan_Cons: "c \<noteq> CHR ''}'' \<Longrightarrow> c \<noteq> CHR 0x0A \<Longrightarrow>
   lazy_scan (c # w) = map_option (cons_way c) (lazy_scan w)"
  by (simp add: lazy_scan_def cons_way_def Let_def)

lemma tail_scan_lazy: "tail_scan w = Some x \<Longrightarrow> lazy_scan w = Some x"
proof (induction w arbitrary: x)
  case Nil
  then show ?case by (simp add: tail_scan_def)
next
  case (Cons c w)
  then show ?case
    by (cases "c = CHR ''#''"; cases "c = CHR ''}''")
       (auto simp: tail_scan_hash tail_scan_brace tail_scan_other lazy_scan_Cons)
qed

lemma find_lazy: "List.find closes (re_match lazy_re w) = lazy_scan w"
proof (induction w)
  case Nil
  show ?case unfolding lazy_Nil find_tail by (simp add: tail_scan_def lazy_scan_def)
next
  case (Cons c w)
  have *: "List.find closes (re_match lazy_re (c # w)) =
     (case tail_scan (c # w) of
        None \<Rightarrow> if c \<noteq> CHR 0x0A then map_option (cons_way c) (lazy_scan w) else None
      | Some x \<Rightarrow> Some x)"
    unfolding lazy_Cons by (simp add: find_append find_tail find_map_opt Cons.IH
        split: option.splits)
  show ?case
  proof (cases "tail_scan (c # w)")
    case None
    then have "c \<noteq> CHR ''}''" using tail_scan_brace_Some by blast
    then show ?thesis unfolding * using None
      by (cases "c = CHR 0x0A") (simp_all add: lazy_scan_Cons, simp add: lazy_scan_def)
  next
    case (Some x)
    then show ?thesis unfolding * by (simp add: tail_scan_lazy)
  qed
qed

lemma lazy_way_None: "(u, s', c) \<in> set (re_match lazy_re w) \<Longrightarrow> c = None"
  by (auto simp: lazy_re_def tail_re_def cls_ways_def seq_way_def split: if_splits)

lemma find_group: "List.find closes (re_match group_re b) =
   (let n = cls_len (\<lambda>c. c = CHR ''>'') (Some 2) b; t = drop n b
    in if prefix ''secrets-store:'' t
       then map_option (\<lambda>(u, s', d). (take n b @ ''secrets-store:'' @ u, s', d)) (lazy_scan (drop 14 t))
       else None)"
proof -
  let ?p = "\<lambda>c. c = CHR ''>''"
  let ?n = "cls_len ?p (Some 2) b"
  let ?r = "Seq (Lit ''secrets-store:'') lazy_re"
  let ?f = "\<lambda>k. map (seq_way (take k b, drop k b, None)) (re_match ?r (drop k b))"
  have "re_match group_re b = ?f ?n @ concat (map ?f (rev [0 ..< ?n]))"
    unfolding group_re_def re_match_Seq_Greedy by simp
  moreover have "List.find closes (concat (map ?f (rev [0 ..< ?n]))) = None"
  proof (rule find_concat_None)
    fix x assume "x \<in> set (map ?f (rev [0 ..< ?n]))"
    then obtain k where k: "k < ?n" and x: "x = ?f k" by auto
    from k cls_len_le have "k < length (takeWhile ?p b)" by (rule less_le_trans)
    from drop_hash [OF this] obtain r where "drop k b = CHR ''>'' # r" ..
    then show "List.find closes x = None" by (simp add: x)
  qed
  ultimately have "List.find closes (re_match group_re b) =
      map_option (seq_way (take ?n b, drop ?n b, None)) (List.find closes (re_match ?r (drop ?n b)))"
    by (simp add: find_append find_map_opt del: re_match.simps split: option.splits)
  moreover have "List.find closes (re_match ?r t) =
      (if prefix ''secrets-store:'' t
       then map_option (seq_way (''secrets-store:'', drop 14 t, None)) (lazy_scan (drop 14 t))
       else None)" for t
    by (simp add: find_map_opt find_lazy eval_nat_numeral)
  ultimately show ?thesis
    by (simp add: Let_def option.map_comp comp_def seq_way_def case_prod_beta
        lazy_scan_def)
qed

lemma head_concat_find:
  "(case concat (map (\<lambda>x. if P x then [f x] else []) xs) of [] \<Rightarrow> None | y # _ \<Rightarrow> Some (g y)) =
   map_option (\<lambda>x. g (f x)) (List.find P xs)"
  by (induction xs) auto

lemma inline_re_eq: "inline_re = Seq (Lit ''${'') (Seq (Grp group_re) (Lit ''}''))"
  by (simp add: inline_re_def group_re_def lazy_re_def tail_re_def)

lemma match_at_inline_find: "match_at inline_re s =
   (if prefix ''${'' s
    then map_option (\<lambda>(u, s', d). (''${'' @ u @ ''}'', u, tl s')) (List.find closes (re_match group_re (drop 2 s)))
    else None)"
proof (cases "prefix ''${'' s")
  case True
  have "re_match inline_re s =
     concat (map (\<lambda>w. if closes w then [(''${'' @ fst w @ ''}'', tl (fst (snd w)), Some (fst w))] else [])
       (re_match group_re (drop 2 s)))"
    using True
    by (auto simp: inline_re_eq map_concat comp_def case_prod_beta closes_def seq_way_def drop_Suc numeral_2_eq_2
        intro!: arg_cong [where f = concat] map_cong)
  then show ?thesis
    using True head_concat_find
      [where P = closes and xs = "re_match group_re (drop 2 s)"
        and f = "\<lambda>w. (''${'' @ fst w @ ''}'', tl (fst (snd w)), Some (fst w))"
        and g = "\<lambda>w. (fst w, (case snd (snd w) of None \<Rightarrow> [] | Some g \<Rightarrow> g), fst (snd w))"]
    by (simp add: match_at_def split_def cong: list.case_cong)
qed (simp add: match_at_def inline_re_eq)

text \<open>The matcher of the pattern computes what the linear scanner computes.\<close>

lemma match_at_inline: "match_at inline_re s = inline_scan s"
  unfolding match_at_inline_find inline_scan_def find_group
  by (auto simp: Let_def lazy_scan_def neq_Nil_conv split: list.splits option.splits if_splits)


subsection \<open>The shape of a reference\<close>

text \<open>\<open>scan_refs\<close> collects the references of a value with the linear scanner.\<close>

function scan_refs :: "string \<Rightarrow> (string \<times> string) list" where
  "scan_refs [] = []"
| "scan_refs (x # xs) =
     (case inline_scan (x # xs) of
        None \<Rightarrow> scan_refs xs
      | Some (m, g, r) \<Rightarrow> (m, g) # scan_refs (if length r < length (x # xs) then r else xs))"
  by pat_completeness auto
termination
  by (relation "measure length") auto

definition is_ref_text :: "string \<Rightarrow> bool" where
  "is_ref_text g =
     (has_prefix g ''secrets-store:'' \<or> has_prefix g ''>secrets-store:'' \<or>
      has_prefix g ''>>secrets-store:'')"

lemma prefix_single: "prefix [c] cs \<longleftrightarrow> (\<exists>t. cs = c # t)"
  by (cases cs) auto

lemma cls_len_le_max: "cls_len p (Some m) s \<le> m"
  by (simp add: cls_len_def)

lemma take_cls_len: "take (cls_len p (Some 2) s) s \<in> {[], [c], [c, c]}"
  if "p = (\<lambda>x. x = c)" for c :: char
proof -
  let ?n = "cls_len p (Some 2) s"
  have "take ?n s = take ?n (takeWhile p s)"
    by (metis cls_len_le min.absorb1 take_takeWhile take_take)
  moreover have "set (takeWhile p s) \<subseteq> {c}"
    using that by (auto dest: set_takeWhileD)
  ultimately have "set (take ?n s) \<subseteq> {c}" and "length (take ?n s) \<le> 2"
    using cls_len_le_max [of p 2 s] by (auto dest: in_set_takeD)
  then show ?thesis
    by (cases "take ?n s"; cases "tl (take ?n s)"; cases "tl (tl (take ?n s))") auto
qed

lemma inline_scan_Some:
  assumes "inline_scan s = Some (m, g, r)"
  shows "s = m @ r" "m = ''${'' @ g @ ''}''" "is_ref_text g"
proof -
  let ?b = "drop 2 s"
  let ?k = "cls_len (\<lambda>c. c = CHR ''>'') (Some 2) ?b"
  let ?t = "drop ?k ?b"
  let ?w = "drop 14 ?t"
  let ?body = "takeWhile (\<lambda>c. c \<noteq> CHR ''}'' \<and> c \<noteq> CHR 0x0A) ?w"
  from assms have p: "prefix ''${'' s" "prefix ''secrets-store:'' ?t"
    by (auto simp: inline_scan_def Let_def split: if_splits)
  from p(1) have s: "s = ''${'' @ ?b" by (auto simp: prefix_def)
  have b: "?b = take ?k ?b @ ?t" by (rule append_take_drop_id [symmetric])
  have "length ''secrets-store:'' = 14" by simp
  from prefix_imp_append_drop [OF p(2), unfolded this] have t: "?t = ''secrets-store:'' @ ?w"
    by (rule sym)
  have w: "?w = ?body @ drop (length ?body) ?w"
    using append_take_drop_id [of "length ?body" ?w] by (simp only: take_takeWhile)
  from assms p obtain cs where cs: "drop (length ?body) ?w = CHR ''}'' # cs"
    by (auto simp: inline_scan_def Let_def split: list.splits if_splits)
  define e where "e = (if prefix ''}'' cs then ''}'' else [])"
  have m: "m = ''${'' @ g @ ''}''" and g: "g = take ?k ?b @ ''secrets-store:'' @ ?body @ e"
    and r: "cs = e @ r"
    using assms p cs by (auto simp: inline_scan_def Let_def e_def prefix_single split: if_splits)
  from w cs r have e: "?w = ?body @ CHR ''}'' # e @ r" by simp
  have comm: "CHR ''}'' # e = e @ ''}''" by (simp add: e_def)
  show "m = ''${'' @ g @ ''}''" by (rule m)
  have "s = ''${'' @ take ?k ?b @ ''secrets-store:'' @ ?body @ (CHR ''}'' # e) @ r"
    using s b t e by (metis append_Cons append.assoc)
  then show "s = m @ r" unfolding m g comm by (simp only: append.assoc)
  from take_cls_len [where s = ?b and c = "CHR ''>''", OF refl] show "is_ref_text g"
    by (auto simp: is_ref_text_def g has_prefix_def)
qed

lemma inline_scan_shorter: "inline_scan s = Some (m, g, r) \<Longrightarrow> length r < length s"
proof -
  assume a: "inline_scan s = Some (m, g, r)"
  from inline_scan_Some(2) [OF a] have "m \<noteq> []" by simp
  with inline_scan_Some(1) [OF a] show ?thesis by simp
qed

lemma find_all_inline: "find_all inline_re s = scan_refs s"
proof (induction s rule: scan_refs.induct)
  case 1
  show ?case by (simp add: match_at_inline inline_scan_def)
next
  case (2 x xs)
  then show ?case
    by (auto simp: match_at_inline inline_scan_shorter split: option.splits)
qed

lemma scan_refs_Cons: "scan_refs (x # xs) =
   (case inline_scan (x # xs) of None \<Rightarrow> scan_refs xs | Some (m, g, r) \<Rightarrow> (m, g) # scan_refs r)"
  by (auto dest: inline_scan_shorter split: option.splits)

declare scan_refs.simps(2) [simp del]

lemma scan_refs_Some: "inline_scan s = Some (m, g, r) \<Longrightarrow> scan_refs s = (m, g) # scan_refs r"
  by (cases s) (auto simp: scan_refs_Cons inline_scan_def)

lemma inline_scan_None: "hd s \<noteq> CHR ''$'' \<Longrightarrow> inline_scan s = None"
  by (cases s) (auto simp: inline_scan_def)

text \<open>The bytes between the references, woven with the references, give the value back.\<close>

fun weave :: "string list \<Rightarrow> string list \<Rightarrow> string" where
  "weave (g # gs) (m # ms) = g @ m @ weave gs ms"
| "weave gs ms = concat gs @ concat ms"

lemma weave_push: "gs \<noteq> [] \<Longrightarrow> weave ((x # hd gs) # tl gs) ms = x # weave gs ms"
  by (cases gs; cases ms) auto

lemma scan_refs_induct [case_names Nil skip ref]:
  assumes "P []"
    and "\<And>x xs. inline_scan (x # xs) = None \<Longrightarrow> P xs \<Longrightarrow> P (x # xs)"
    and "\<And>x xs m g r. inline_scan (x # xs) = Some (m, g, r) \<Longrightarrow> P r \<Longrightarrow> P (x # xs)"
  shows "P s"
proof (induction s rule: length_induct)
  case (1 s)
  show ?case
  proof (cases s)
    case (Cons x xs)
    with 1 have IH: "P t" if "length t < length (x # xs)" for t
      using that by blast
    show ?thesis
    proof (cases "inline_scan (x # xs)")
      case None
      with IH show ?thesis unfolding Cons by (intro assms(2)) auto
    next
      case (Some v)
      then obtain m g r where v: "inline_scan (x # xs) = Some (m, g, r)" by (cases v) auto
      with IH show ?thesis unfolding Cons by (intro assms(3) [OF v] IH inline_scan_shorter)
    qed
  qed (simp add: assms(1))
qed

lemma scan_refs_weave:
  "\<exists>gs. length gs = Suc (length (scan_refs s)) \<and> s = weave gs (map fst (scan_refs s))"
proof (induction s rule: scan_refs_induct)
  case Nil
  show ?case by (intro exI [of _ "[[]]"]) simp
next
  case (skip x xs)
  then obtain gs where gs: "length gs = Suc (length (scan_refs xs))"
    and xs: "xs = weave gs (map fst (scan_refs xs))" by auto
  have "gs \<noteq> []" using gs by auto
  with xs have "x # xs = weave ((x # hd gs) # tl gs) (map fst (scan_refs xs))"
    by (metis weave_push)
  moreover have "length ((x # hd gs) # tl gs) = Suc (length (scan_refs xs))"
    using gs by simp
  moreover have "scan_refs (x # xs) = scan_refs xs" using skip(1) by (simp add: scan_refs_Cons)
  ultimately show ?case by metis
next
  case (ref x xs m g r)
  then obtain gs where gs: "length gs = Suc (length (scan_refs r))"
    and r: "r = weave gs (map fst (scan_refs r))" by auto
  have "x # xs = weave ([] # gs) (m # map fst (scan_refs r))"
    using r inline_scan_Some(1) [OF ref(1)] by (metis append_Nil weave.simps(1))
  moreover have "scan_refs (x # xs) = (m, g) # scan_refs r" using ref(1) by (simp add: scan_refs_Cons)
  moreover have "length ([] # gs) = Suc (length ((m, g) # scan_refs r))" using gs by simp
  ultimately show ?case by (metis list.simps(9) fst_conv)
qed

lemma scan_refs_shape: "(m, g) \<in> set (scan_refs s) \<Longrightarrow> m = ''${'' @ g @ ''}'' \<and> is_ref_text g"
proof (induction s rule: scan_refs_induct)
  case (ref x xs m' g' r)
  with inline_scan_Some(2,3) [OF ref(1)] show ?case by (auto simp: scan_refs_Cons)
qed (auto simp: scan_refs_Cons)

text \<open>The references are disjoint: with three bytes of delimiters each they fit into the value.\<close>

lemma scan_refs_length: "(\<Sum>(m, g) \<leftarrow> scan_refs s. length g + 3) \<le> length s"
proof (induction s rule: scan_refs_induct)
  case (ref x xs m g r)
  from inline_scan_Some(2) [OF ref(1)] have "length m = length g + 3" by simp
  with inline_scan_Some(1) [OF ref(1)] have "length (x # xs) = length g + 3 + length r"
    by (metis length_append)
  with ref show ?case by (simp add: scan_refs_Cons)
qed (auto simp: scan_refs_Cons)

lemma find_inline_scan: "find_inline_vault_delimiters value = scan_refs value"
  by (simp add: find_inline_vault_delimiters_def find_all_inline)

text \<open>Recognition: a reference without braces or line breaks is found where it stands.\<close>

lemma inline_scan_found:
  assumes "CHR ''}'' \<notin> set ref" "CHR 0x0A \<notin> set ref" "hd post \<noteq> CHR ''}''"
  shows "inline_scan (''${secrets-store:'' @ ref @ ''}'' @ post) =
    Some (''${secrets-store:'' @ ref @ ''}'', ''secrets-store:'' @ ref, post)"
proof -
  have "takeWhile (\<lambda>c. c \<noteq> CHR ''}'' \<and> c \<noteq> CHR 0x0A) (ref @ CHR ''}'' # post) = ref"
    using assms by (induction ref) auto
  moreover have "\<not> prefix ''}'' post" using assms(3) by (cases post) auto
  ultimately show ?thesis
    by (simp add: inline_scan_def cls_len_def Let_def eval_nat_numeral)
qed

lemma scan_refs_skip: "CHR ''$'' \<notin> set pre \<Longrightarrow> scan_refs (pre @ s) = scan_refs s"
  by (induction pre) (auto simp: scan_refs_Cons inline_scan_None)

subsection \<open>Properties\<close>

text \<open>C21: the search with the pattern returns exactly the references a linear scan of the value
  finds, in the same order.\<close>

theorem find_inline_equals_scan:
  "find_inline_vault_delimiters value = scan_refs value"
  by (rule find_inline_scan)

text \<open>The matches are disjoint pieces of the value in order, each of them the group in
  \<open>${\<close> and \<open>}\<close>, and the group begins with the scheme after at most two \<open>>\<close>.\<close>

theorem find_inline_matches:
  "(\<exists>gaps. length gaps = Suc (length (find_inline_vault_delimiters value)) \<and>
      value = weave gaps (map fst (find_inline_vault_delimiters value))) \<and>
   list_all (\<lambda>(m, g). m = ''${'' @ g @ ''}'' \<and> is_ref_text g) (find_inline_vault_delimiters value)"
  unfolding find_inline_scan using scan_refs_weave scan_refs_shape
  by (auto simp: list_all_iff)

text \<open>A reference \<open>${secrets-store:...}\<close> without braces or line breaks inside is found
  with exactly its text, whatever stands around it, and the search goes on behind it.\<close>

theorem find_inline_recognises:
  assumes "CHR ''$'' \<notin> set pre" "CHR ''}'' \<notin> set ref" "CHR 0x0A \<notin> set ref" "hd post \<noteq> CHR ''}''"
  shows "find_inline_vault_delimiters (pre @ ''${secrets-store:'' @ ref @ ''}'' @ post) =
    (''${secrets-store:'' @ ref @ ''}'', ''secrets-store:'' @ ref) # find_inline_vault_delimiters post"
  unfolding find_inline_scan scan_refs_skip [OF assms(1)]
  using assms by (intro scan_refs_Some inline_scan_found)

theorem find_inline_recognises_witness:
  "find_inline_vault_delimiters ''x-${secrets-store:p#k}-y'' =
     (''${secrets-store:p#k}'', ''secrets-store:p#k'') # find_inline_vault_delimiters ''-y''"
  using find_inline_recognises [of "''x-''" "''p#k''" "''-y''"] by simp

end
