(* ===== verification/Templater.thy ===== *)
theory Templater
  imports Prelude
begin

text \<open>
  \<^verbatim>\<open>images/env-injector/templater.go\<close>: recognising a Go template in the key part of a reference,
  and the two functions the templater adds to the template language. Parsing and executing a
  template is the work of \<open>text/template\<close> with the function table of the package sprig, the parameter
  \<open>template_engine\<close>; the injector sees \<open>Template\<close> as the function \<open>run_template\<close> of \<open>libs\<close> in
  \<open>Vault_Iface\<close>.
\<close>

record templater =
  left_delimiter :: string
  right_delimiter :: string

definition default_left_delimiter :: string where
  "default_left_delimiter = ''${''"

definition default_right_delimiter :: string where
  "default_right_delimiter = ''}''"

definition new_templater :: "string \<Rightarrow> string \<Rightarrow> templater" where
  "new_templater l r = \<lparr>left_delimiter = l, right_delimiter = r\<rparr>"

definition is_go_template :: "templater \<Rightarrow> string \<Rightarrow> bool" where
  "is_go_template t text =
     (contains text (left_delimiter t) \<and> contains text (right_delimiter t))"

text \<open>\<open>strings.TrimRight(path, "/")\<close> drops every trailing slash.\<close>

definition trim_right_slash :: "string \<Rightarrow> string" where
  "trim_right_slash s = rev (dropWhile (\<lambda>c. c = CHR ''/'') (rev s))"

definition accessor_placeholder :: "string \<Rightarrow> string" where
  "accessor_placeholder path = ''__accessor__'' @ trim_right_slash path"

text \<open>\<open>fileContent\<close>: \<open>read_file\<close> is \<open>os.ReadFile\<close>; line breaks become the two bytes \<open>\n\<close>.\<close>

definition file_content :: "(string \<Rightarrow> string + string) \<Rightarrow> string \<Rightarrow> string + string" where
  "file_content read_file path =
     (case read_file path of
        Inl e \<Rightarrow> Inl e
      | Inr r \<Rightarrow> Inr (replace_all r [CHR 0x0A] [CHR 0x5C, CHR ''n'']))"

subsection \<open>Template\<close>

text \<open>
  The library parses a text with delimiters and a table of functions, a later entry of a name replacing an
  earlier one, and executes the parsed template of a name on data.
\<close>

type_synonym template_func = "string \<Rightarrow> string + string"

record ('t, 'd) template_engine =
  sprig_funcs :: "(string \<times> template_func) list"
  parse_template :: "string \<times> string \<Rightarrow> (string \<times> template_func) list \<Rightarrow> string \<Rightarrow> string + 't"
  execute_template :: "'t \<Rightarrow> string \<Rightarrow> 'd \<Rightarrow> string + string"

datatype template_error = TemplateParseFailed string | TemplateExecuteFailed string

definition template_funcs :: "(string \<Rightarrow> string + string) \<Rightarrow> (string \<times> template_func) list" where
  "template_funcs read_file = [(''file'', file_content read_file), (''accessor'', \<lambda>p. Inr (accessor_placeholder p))]"

definition templater_template ::
  "('t, 'd) template_engine \<Rightarrow> (string \<Rightarrow> string + string) \<Rightarrow> templater \<Rightarrow> string \<Rightarrow> 'd \<Rightarrow> template_error + string" where
  "templater_template E read_file t text data =
     (case parse_template E (left_delimiter t, right_delimiter t) (sprig_funcs E @ template_funcs read_file) text of
        Inl e \<Rightarrow> Inl (TemplateParseFailed e)
      | Inr parsed \<Rightarrow>
          (case execute_template E parsed ''config'' data of
             Inl e \<Rightarrow> Inl (TemplateExecuteFailed e)
           | Inr b \<Rightarrow> Inr b))"

subsection \<open>Facts\<close>

lemma replace_all_char:
  "replace_all s [c] t = concat (map (\<lambda>x. if x = c then t else [x]) s)"
  by (induction s) auto

lemma file_content_single_line:
  "file_content rd p = Inr t \<Longrightarrow> CHR 0x0A \<notin> set t"
  by (auto simp: file_content_def replace_all_char split: sum.splits if_splits)

end
