(* ===== verification/Vault_Iface.thy ===== *)
theory Vault_Iface
  imports Prelude
begin

text \<open>
  What the injector sees of its surroundings: dynamically typed values, secrets, the errors of the
  Vault client, and the operations of code that is not in the repository.

  \<^item> \<open>'w\<close> is the state of everything outside the process (the Vault server, running renewals). The
    record \<open>vault\<close> holds the client calls \<open>Logical().ReadWithDataWithContext\<close> with the parameter
    \<open>version\<close>, \<open>Logical().WriteWithContext\<close> and \<open>RawClient().Token\<close>; \<open>renewer\<close> is the value of
    the Go interface \<open>SecretRenewer\<close>, \<open>None\<close> for nil.
  \<^item> \<open>libs\<close> holds the pure library functions: \<open>json.Unmarshal\<close> into a map, \<open>cast.ToStringE\<close>,
    \<open>cast.ToStringMap\<close> and template execution. A string on the left is the library's error text.
\<close>

text \<open>Values of type \<open>interface{}\<close> as the Vault client builds them. A map may be a typed nil.\<close>

datatype gval =
    VNil
  | VBool bool
  | VNum string
  | VStr string
  | VList "gval list"
  | VMap "(string \<times> gval) list option"

type_synonym data = "(string, gval) go_map"

record secret =
  lease_duration :: int
  renewable :: bool
  sec_data :: "data option"
  sec_warnings :: "string list"

datatype api_error = ResponseError int string | OtherError string

record 'w vault =
  v_read :: "string \<Rightarrow> string \<Rightarrow> 'w \<Rightarrow> (api_error + secret option) \<times> 'w"
  v_write :: "string \<Rightarrow> data option \<Rightarrow> 'w \<Rightarrow> (api_error + secret option) \<times> 'w"
  v_token :: "'w \<Rightarrow> string"
  renewer :: "(string \<Rightarrow> secret \<Rightarrow> 'w \<Rightarrow> api_error option \<times> 'w) option"

record libs =
  json_object :: "string \<Rightarrow> string + data option"
  to_string_e :: "gval \<Rightarrow> string + string"
  to_string_map :: "gval \<Rightarrow> data option"
  run_template :: "string \<Rightarrow> data \<Rightarrow> string + string"

text \<open>A lookup in a Go map that may be nil: \<open>v, ok := m[k]\<close>.\<close>

definition nil_lookup :: "data option \<Rightarrow> string \<Rightarrow> gval option" where
  "nil_lookup m k = (case m of None \<Rightarrow> None | Some kvs \<Rightarrow> map_of kvs k)"

end
