(* ===== verification/Injector.thy ===== *)
theory Injector
  imports Inline_Ref Templater Vault_Iface
begin

text \<open>
  \<^verbatim>\<open>images/env-injector/injector.go\<close>: the secret injector.

  The receiver's mutable state and the outside world are the record \<open>inj_st\<close>: the world, the secret
  cache and the log. A call of the callback \<open>inject(key, value)\<close> is an entry of the list of emitted
  pairs, in the order of the calls; what was emitted before an error stays emitted. An error return
  is \<open>Some e\<close> (or \<open>Inl e\<close> where there is also a result). The references are a Go map in one order of
  iteration.

  The locks of the source protect the cache between goroutines; the model runs one call at a time.
\<close>

record config =
  ignore_missing_secrets :: bool
  daemon_mode :: bool

datatype inj_error =
    KeyNotDefined
  | PathNotFound string
  | KeyNotFound string string
  | TemplateFailed string string
  | CastFailed string
  | CastFailedKey string string
  | UnmarshalFailed string
  | WriteFailed string api_error
  | ReadFailed string api_error
  | RenewFailed api_error
  | MetadataMissing
  | MetadataType
  | NilRenewer

datatype log_entry =
    PathNotFoundWarn string
  | LeaseInfo string int
  | SecretWarning string string
  | DestroyedWarn string string
  | DeletedWarn string string string

record 'w inj_st =
  world :: 'w
  secret_cache :: "string \<rightharpoonup> data"
  messages :: "log_entry list"

definition new_secret_injector :: "'w \<Rightarrow> 'w inj_st" where
  "new_secret_injector w = \<lparr>world = w, secret_cache = Map.empty, messages = []\<rparr>"

definition add_log :: "log_entry list \<Rightarrow> 'w inj_st \<Rightarrow> 'w inj_st" where
  "add_log es st = st\<lparr>messages := messages st @ es\<rparr>"

subsection \<open>readVaultPath\<close>

text \<open>The Vault request: a write of the decoded data for an update, a read of a version otherwise.\<close>

definition fetch_secret ::
  "libs \<Rightarrow> 'w vault \<Rightarrow> string \<Rightarrow> string \<Rightarrow> bool \<Rightarrow> 'w inj_st \<Rightarrow>
   (inj_error + secret option) \<times> 'w inj_st" where
  "fetch_secret L V path version_or_data update st =
     (if update then
        (case json_object L version_or_data of
           Inl e \<Rightarrow> (Inl (UnmarshalFailed e), st)
         | Inr d \<Rightarrow>
             (case v_write V path d (world st) of
                (Inl e, w) \<Rightarrow> (Inl (WriteFailed path e), st\<lparr>world := w\<rparr>)
              | (Inr s, w) \<Rightarrow> (Inr s, st\<lparr>world := w\<rparr>)))
      else
        (case v_read V path version_or_data (world st) of
           (Inl e, w) \<Rightarrow> (Inl (ReadFailed path e), st\<lparr>world := w\<rparr>)
         | (Inr s, w) \<Rightarrow> (Inr s, st\<lparr>world := w\<rparr>)))"

text \<open>
  In daemon mode a leased secret is handed to the renewer. Calling a method of the nil interface
  panics, which is the value \<open>NilRenewer\<close>.
\<close>

definition start_renewal ::
  "'w vault \<Rightarrow> config \<Rightarrow> string \<Rightarrow> secret option \<Rightarrow> 'w inj_st \<Rightarrow> inj_error option \<times> 'w inj_st" where
  "start_renewal V C path s st =
     (case s of
        None \<Rightarrow> (None, st)
      | Some sec \<Rightarrow>
          if daemon_mode C \<and> 0 < lease_duration sec then
            (let st1 = add_log [LeaseInfo path (lease_duration sec)] st
             in case renewer V of
                  None \<Rightarrow> (Some NilRenewer, st1)
                | Some f \<Rightarrow>
                    (case f path sec (world st1) of
                       (Some e, w) \<Rightarrow> (Some (RenewFailed e), st1\<lparr>world := w\<rparr>)
                     | (None, w) \<Rightarrow> (None, st1\<lparr>world := w\<rparr>)))
          else (None, st))"

text \<open>The KV version 2 layout: \<open>data\<close> beside \<open>metadata\<close>; anything else is the data itself.\<close>

definition metadata_log :: "string \<Rightarrow> string \<Rightarrow> data option \<Rightarrow> log_entry list" where
  "metadata_log path version m =
     (if nil_lookup m ''destroyed'' = Some (VBool True) then [DestroyedWarn path version] else []) @
     (case nil_lookup m ''deletion_time'' of
        Some (VStr t) \<Rightarrow> if t \<noteq> [] then [DeletedWarn path version t] else []
      | _ \<Rightarrow> [])"

definition decode_secret ::
  "libs \<Rightarrow> string \<Rightarrow> string \<Rightarrow> secret \<Rightarrow> (inj_error + data option) \<times> log_entry list" where
  "decode_secret L path version sec =
     (case nil_lookup (sec_data sec) ''data'' of
        None \<Rightarrow> (Inr (to_string_map L (VMap (sec_data sec))), [])
      | Some v2 \<Rightarrow>
          (case nil_lookup (sec_data sec) ''metadata'' of
             None \<Rightarrow> (Inl MetadataMissing, [])
           | Some VNil \<Rightarrow> (Inl MetadataMissing, [])
           | Some (VMap m) \<Rightarrow> (Inr (to_string_map L v2), metadata_log path version m)
           | Some _ \<Rightarrow> (Inl MetadataType, [])))"

definition read_vault_path ::
  "libs \<Rightarrow> 'w vault \<Rightarrow> config \<Rightarrow> string \<Rightarrow> string \<Rightarrow> bool \<Rightarrow> 'w inj_st \<Rightarrow>
   (inj_error + data option) \<times> 'w inj_st" where
  "read_vault_path L V C path version_or_data update st =
     (case fetch_secret L V path version_or_data update st of
        (Inl e, st1) \<Rightarrow> (Inl e, st1)
      | (Inr s, st1) \<Rightarrow>
          (case start_renewal V C path s st1 of
             (Some e, st2) \<Rightarrow> (Inl e, st2)
           | (None, st2) \<Rightarrow>
               (case s of
                  None \<Rightarrow> (Inr None, st2)
                | Some sec \<Rightarrow>
                    (let st3 = add_log (map (\<lambda>w. SecretWarning w path) (sec_warnings sec)) st2
                     in case decode_secret L path version_or_data sec of
                          (r, l) \<Rightarrow> (r, add_log l st3)))))"

subsection \<open>InjectSecretsFromVaultWithContext\<close>

text \<open>The value of one key, or of a template over the data, once the data is there.\<close>

definition pick_value :: "libs \<Rightarrow> string \<Rightarrow> string \<Rightarrow> data \<Rightarrow> inj_error + string" where
  "pick_value L path key d =
     (if is_go_template (new_templater default_left_delimiter default_right_delimiter) key then
        (case run_template L key d of Inl e \<Rightarrow> Inl (TemplateFailed key e) | Inr v \<Rightarrow> Inr v)
      else
        (case map_of d key of
           Some v \<Rightarrow> (case to_string_e L v of Inl e \<Rightarrow> Inl (CastFailed e) | Inr s \<Rightarrow> Inr s)
         | None \<Rightarrow> Inl (KeyNotFound key path)))"

text \<open>The cached data of path and version, or a fresh read (a write, for an update).\<close>

definition cached_read ::
  "libs \<Rightarrow> 'w vault \<Rightarrow> config \<Rightarrow> string \<Rightarrow> string \<Rightarrow> bool \<Rightarrow> 'w inj_st \<Rightarrow>
   (inj_error + data option) \<times> 'w inj_st" where
  "cached_read L V C path version_or_data update st =
     (case secret_cache st (path @ ''#'' @ version_or_data) of
        Some d \<Rightarrow> (Inr (Some d), st)
      | None \<Rightarrow> read_vault_path L V C path version_or_data update st)"

text \<open>
  The data of a reference, cached, and the value picked from it. \<open>Some v\<close> is the call
  \<open>inject(name, v)\<close>, \<open>None\<close> the \<open>continue\<close> for a missing secret that may be ignored.
\<close>

definition resolve_ref ::
  "libs \<Rightarrow> 'w vault \<Rightarrow> config \<Rightarrow> string \<Rightarrow> string \<Rightarrow> string \<Rightarrow> bool \<Rightarrow> 'w inj_st \<Rightarrow>
   (inj_error + string option) \<times> 'w inj_st" where
  "resolve_ref L V C path key version_or_data update st =
     (case cached_read L V C path version_or_data update st of
        (Inl e, st1) \<Rightarrow> (Inl e, st1)
      | (Inr None, st1) \<Rightarrow>
          if \<not> ignore_missing_secrets C then (Inl (PathNotFound path), st1)
          else (Inr None, add_log [PathNotFoundWarn path] st1)
      | (Inr (Some d), st1) \<Rightarrow>
          (case pick_value L path key d of Inl e \<Rightarrow> Inl e | Inr v \<Rightarrow> Inr (Some v),
           st1\<lparr>secret_cache := (secret_cache st1)(path @ ''#'' @ version_or_data \<mapsto> d)\<rparr>))"

text \<open>The body of the loop for a value without inline references.\<close>

definition resolve_plain ::
  "libs \<Rightarrow> 'w vault \<Rightarrow> config \<Rightarrow> string \<Rightarrow> string \<Rightarrow> 'w inj_st \<Rightarrow>
   (inj_error + string option) \<times> 'w inj_st" where
  "resolve_plain L V C name value0 st =
     (let update = has_prefix value0 ''>>secrets-store:'';
          value = (if update then trim_prefix value0 ''>>'' else value0)
      in if \<not> has_prefix value ''secrets-store:'' then (Inr (Some value), st)
         else let value_path = trim_prefix value ''secrets-store:''
              in if name = ''VAULT_TOKEN'' \<and> value_path = ''login''
                 then (Inr (Some (v_token V (world st))), st)
                 else (case split_n 3 (CHR ''#'') value_path of
                         path # key # rest \<Rightarrow>
                           resolve_ref L V C path key
                             (case rest of v # _ \<Rightarrow> v | [] \<Rightarrow> if update then ''{}'' else ''-1'')
                             update st
                       | _ \<Rightarrow> (Inl KeyNotDefined, st)))"

lemma find_inline_length:
  "(\<Sum>(m, g) \<leftarrow> find_inline_vault_delimiters value. length g + 3) \<le> length value"
  by (simp add: find_inline_scan scan_refs_length)

lemma find_inline_measure:
  "2 * (\<Sum>(m, g) \<leftarrow> find_inline_vault_delimiters value. length g + 3) \<le> Suc (2 * length value + n)"
  using find_inline_length [of "value"] by linarith

text \<open>
  The loop, the substitution of inline references and \<open>GetDataFromVaultWithContext\<close>, which calls the
  loop again for one reference. \<open>subst_refs\<close> is the inner loop over \<open>FindInlineVaultDelimiters(value)\<close>.
  The recursion ends because an inline reference is three bytes shorter than its place in the value.
\<close>

function (sequential)
  inject_refs :: "libs \<Rightarrow> 'w vault \<Rightarrow> config \<Rightarrow> str_map \<Rightarrow> 'w inj_st \<Rightarrow>
    inj_error option \<times> (string \<times> string) list \<times> 'w inj_st"
and
  get_data_from_vault :: "libs \<Rightarrow> 'w vault \<Rightarrow> config \<Rightarrow> str_map \<Rightarrow> 'w inj_st \<Rightarrow>
    inj_error option \<times> str_map \<times> 'w inj_st"
and
  subst_refs :: "libs \<Rightarrow> 'w vault \<Rightarrow> config \<Rightarrow> string \<Rightarrow> (string \<times> string) list \<Rightarrow> string \<Rightarrow> 'w inj_st \<Rightarrow>
    (inj_error + string) \<times> 'w inj_st"
where
  "inject_refs L V C [] st = (None, [], st)"
| "inject_refs L V C ((name, value) # refs) st =
     (if has_inline_vault_delimiters value then
        (case subst_refs L V C name (find_inline_vault_delimiters value) value st of
           (Inl e, st1) \<Rightarrow> (Some e, [], st1)
         | (Inr v, st1) \<Rightarrow>
             (case inject_refs L V C refs st1 of (r, em, st2) \<Rightarrow> (r, (name, v) # em, st2)))
      else
        (case resolve_plain L V C name value st of
           (Inl e, st1) \<Rightarrow> (Some e, [], st1)
         | (Inr None, st1) \<Rightarrow> inject_refs L V C refs st1
         | (Inr (Some v), st1) \<Rightarrow>
             (case inject_refs L V C refs st1 of (r, em, st2) \<Rightarrow> (r, (name, v) # em, st2))))"
| "get_data_from_vault L V C refs st =
     (case inject_refs L V C refs st of (r, em, st1) \<Rightarrow> (r, assign_all em [], st1))"
| "subst_refs L V C name [] value st = (Inr value, st)"
| "subst_refs L V C name ((m0, m1) # ms) value st =
     (case get_data_from_vault L V C [(name, m1)] st of
        (Some e, _, st1) \<Rightarrow> (Inl e, st1)
      | (None, map_data, st1) \<Rightarrow>
          subst_refs L V C name ms (foldl (\<lambda>s (k, v). replace_all s m0 v) value map_data) st1)"
  by pat_completeness auto

termination
  by (relation "measure (\<lambda>x. case x of
        Inl (L, V, C, refs, st) \<Rightarrow> 2 * (\<Sum>(n, v) \<leftarrow> refs. length v + 1)
      | Inr (Inl (L, V, C, refs, st)) \<Rightarrow> 2 * (\<Sum>(n, v) \<leftarrow> refs. length v + 1) + 1
      | Inr (Inr (L, V, C, name, ms, value, st)) \<Rightarrow> 2 * (\<Sum>(m, g) \<leftarrow> ms. length g + 3))")
     (auto simp: less_Suc_eq_le find_inline_measure)

subsection \<open>InjectSecretsFromVaultPathWithContext\<close>

text \<open>\<open>for key, value := range data\<close>: every key is cast and injected, the first failure stops.\<close>

fun inject_data :: "libs \<Rightarrow> data \<Rightarrow> inj_error option \<times> (string \<times> string) list" where
  "inject_data L [] = (None, [])"
| "inject_data L ((key, value) # d) =
     (case to_string_e L value of
        Inl e \<Rightarrow> (Some (CastFailedKey key e), [])
      | Inr s \<Rightarrow> (case inject_data L d of (r, em) \<Rightarrow> (r, (key, s) # em)))"

definition path_version :: "string \<Rightarrow> string \<times> string" where
  "path_version path =
     (case split_n 2 (CHR ''#'') path of
        value_path # version # _ \<Rightarrow> (value_path, version)
      | [value_path] \<Rightarrow> (value_path, ''-1'')
      | [] \<Rightarrow> (path, ''-1''))"

fun inject_path_list ::
  "libs \<Rightarrow> 'w vault \<Rightarrow> config \<Rightarrow> string list \<Rightarrow> 'w inj_st \<Rightarrow>
   inj_error option \<times> (string \<times> string) list \<times> 'w inj_st" where
  "inject_path_list L V C [] st = (None, [], st)"
| "inject_path_list L V C (path # paths) st =
     (case path_version path of
        (value_path, version) \<Rightarrow>
          (case read_vault_path L V C value_path version False st of
             (Inl e, st1) \<Rightarrow> (Some e, [], st1)
           | (Inr None, st1) \<Rightarrow>
               if \<not> ignore_missing_secrets C then (Some (PathNotFound value_path), [], st1)
               else inject_path_list L V C paths (add_log [PathNotFoundWarn value_path] st1)
           | (Inr (Some d), st1) \<Rightarrow>
               (case inject_data L d of
                  (Some e, em) \<Rightarrow> (Some e, em, st1)
                | (None, em) \<Rightarrow>
                    (case inject_path_list L V C paths st1 of (r, em', st2) \<Rightarrow> (r, em @ em', st2)))))"

definition inject_secrets_from_vault_path ::
  "libs \<Rightarrow> 'w vault \<Rightarrow> config \<Rightarrow> string \<Rightarrow> 'w inj_st \<Rightarrow>
   inj_error option \<times> (string \<times> string) list \<times> 'w inj_st" where
  "inject_secrets_from_vault_path L V C paths st =
     inject_path_list L V C (split_on (CHR '','') paths) st"

text \<open>\<open>InjectSecretsFromVault\<close> with a fresh background context.\<close>

definition inject_secrets_from_vault ::
  "libs \<Rightarrow> 'w vault \<Rightarrow> config \<Rightarrow> str_map \<Rightarrow> 'w inj_st \<Rightarrow>
   inj_error option \<times> (string \<times> string) list \<times> 'w inj_st" where
  "inject_secrets_from_vault L V C references st = inject_refs L V C references st"

text \<open>\<open>isPermissionDeniedError\<close> walks the chain of wrapped errors for a response with status 403.\<close>

fun wrapped_api_error :: "inj_error \<Rightarrow> api_error option" where
  "wrapped_api_error (WriteFailed _ e) = Some e"
| "wrapped_api_error (ReadFailed _ e) = Some e"
| "wrapped_api_error (RenewFailed e) = Some e"
| "wrapped_api_error _ = None"

definition is_permission_denied_error :: "inj_error \<Rightarrow> bool" where
  "is_permission_denied_error e =
     (case wrapped_api_error e of Some (ResponseError code _) \<Rightarrow> code = 403 | _ \<Rightarrow> False)"

end
