(* ===== verification/Injector_Spec.thy ===== *)
theory Injector_Spec
  imports Injector "HOL-Library.Multiset"
begin

text \<open>
  What the injector promises, and that it keeps the promise.

  The specification resolves each environment value by itself, without a cache, a log or a world:
  \<open>spec_value\<close> takes a function \<open>fetch path version\<close> for the secrets and says what the value becomes,
  \<open>collect_refs\<close> does it for a whole environment. The injector refines it as long as Vault answers
  the same request in the same way (\<open>stable_vault\<close>) and the references perform no Vault write
  (\<open>performs_update\<close>): the cache is invisible because every entry is what a fresh read would give
  (\<open>coherent\<close>). The properties of the injector then are facts about \<open>spec_value\<close>.
\<close>

subsection \<open>Specification\<close>

definition spec_plain ::
  "libs \<Rightarrow> bool \<Rightarrow> string \<Rightarrow> (string \<Rightarrow> string \<Rightarrow> inj_error + data option) \<Rightarrow> string \<Rightarrow> string \<Rightarrow>
   inj_error + string option" where
  "spec_plain L ign tok fetch name value =
     (if \<not> has_prefix value ''secrets-store:'' then Inr (Some value)
      else let ref = trim_prefix value ''secrets-store:''
           in if name = ''VAULT_TOKEN'' \<and> ref = ''login'' then Inr (Some tok)
              else (case split_n 3 (CHR ''#'') ref of
                      path # key # rest \<Rightarrow>
                        (case fetch path (case rest of v # _ \<Rightarrow> v | [] \<Rightarrow> ''-1'') of
                           Inl e \<Rightarrow> Inl e
                         | Inr None \<Rightarrow> if ign then Inr None else Inl (PathNotFound path)
                         | Inr (Some d) \<Rightarrow>
                             (case pick_value L path key d of Inl e \<Rightarrow> Inl e | Inr v \<Rightarrow> Inr (Some v)))
                    | _ \<Rightarrow> Inl KeyNotDefined))"

function (sequential)
  spec_value :: "libs \<Rightarrow> bool \<Rightarrow> string \<Rightarrow> (string \<Rightarrow> string \<Rightarrow> inj_error + data option) \<Rightarrow> string \<Rightarrow>
    string \<Rightarrow> inj_error + string option"
and
  spec_subst :: "libs \<Rightarrow> bool \<Rightarrow> string \<Rightarrow> (string \<Rightarrow> string \<Rightarrow> inj_error + data option) \<Rightarrow> string \<Rightarrow>
    (string \<times> string) list \<Rightarrow> string \<Rightarrow> inj_error + string"
where
  "spec_value L ign tok fetch name value =
     (if has_inline_vault_delimiters value
      then (case spec_subst L ign tok fetch name (find_inline_vault_delimiters value) value of
              Inl e \<Rightarrow> Inl e | Inr v \<Rightarrow> Inr (Some v))
      else spec_plain L ign tok fetch name value)"
| "spec_subst L ign tok fetch name [] value = Inr value"
| "spec_subst L ign tok fetch name ((m0, m1) # ms) value =
     (case spec_value L ign tok fetch name m1 of
        Inl e \<Rightarrow> Inl e
      | Inr None \<Rightarrow> spec_subst L ign tok fetch name ms value
      | Inr (Some v) \<Rightarrow> spec_subst L ign tok fetch name ms (replace_all value m0 v))"
  by pat_completeness auto

termination
  by (relation "measure (\<lambda>x. case x of
        Inl (L, ign, tok, fetch, name, value) \<Rightarrow> 2 * length value + 1
      | Inr (L, ign, tok, fetch, name, ms, value) \<Rightarrow> 2 * (\<Sum>(m, g) \<leftarrow> ms. length g + 3))")
     (auto simp: less_Suc_eq_le find_inline_length)

declare spec_value.simps [simp del]

text \<open>A whole environment, for any way of resolving one entry: stop at the first error.\<close>

fun collect_refs ::
  "(string \<Rightarrow> string \<Rightarrow> inj_error + string option) \<Rightarrow> str_map \<Rightarrow>
   inj_error option \<times> (string \<times> string) list" where
  "collect_refs res [] = (None, [])"
| "collect_refs res ((name, value) # refs) =
     (case res name value of
        Inl e \<Rightarrow> (Some e, [])
      | Inr None \<Rightarrow> collect_refs res refs
      | Inr (Some v) \<Rightarrow> (fst (collect_refs res refs), (name, v) # snd (collect_refs res refs)))"

text \<open>The paths of \<open>VAULT_ENV_FROM_PATH\<close>: the pairs they deliver, up to the first error.\<close>

fun spec_paths ::
  "libs \<Rightarrow> bool \<Rightarrow> (string \<Rightarrow> string \<Rightarrow> inj_error + data option) \<Rightarrow> string list \<Rightarrow>
   inj_error option \<times> (string \<times> string) list" where
  "spec_paths L ign fetch [] = (None, [])"
| "spec_paths L ign fetch (path # paths) =
     (case fetch (fst (path_version path)) (snd (path_version path)) of
        Inl e \<Rightarrow> (Some e, [])
      | Inr None \<Rightarrow> if ign then spec_paths L ign fetch paths else (Some (PathNotFound (fst (path_version path))), [])
      | Inr (Some d) \<Rightarrow>
          (case inject_data L d of
             (Some e, em) \<Rightarrow> (Some e, em)
           | (None, em) \<Rightarrow> (fst (spec_paths L ign fetch paths), em @ snd (spec_paths L ign fetch paths))))"

text \<open>Does resolving a value write to Vault, at any depth of inline references?\<close>

lemma find_inline_shorter: "(m, g) \<in> set (find_inline_vault_delimiters v) \<Longrightarrow> length g < length v"
proof -
  assume "(m, g) \<in> set (find_inline_vault_delimiters v)"
  then have "length g + 3 \<in> set (map (\<lambda>(m, g). length g + 3) (find_inline_vault_delimiters v))"
    by force
  from member_le_sum_list [OF this] find_inline_length [of v] show ?thesis by linarith
qed

function performs_update :: "string \<Rightarrow> bool" where
  "performs_update value =
     (if has_inline_vault_delimiters value
      then list_ex (\<lambda>mg. performs_update (snd mg)) (find_inline_vault_delimiters value)
      else has_prefix value ''>>secrets-store:'')"
  by pat_completeness auto
termination
  by (relation "measure length") (auto simp: find_inline_shorter)

declare performs_update.simps [simp del]

text \<open>Vault answers a request always in the same way, whatever happened before.\<close>

definition stable_vault ::
  "'w vault \<Rightarrow> (string \<Rightarrow> string \<Rightarrow> api_error + secret option) \<Rightarrow>
   (string \<Rightarrow> secret \<Rightarrow> api_error option) option \<Rightarrow> string \<Rightarrow> bool" where
  "stable_vault V rd rn tok \<longleftrightarrow>
     (\<forall>p v w. fst (v_read V p v w) = rd p v) \<and> (\<forall>w. v_token V w = tok) \<and>
     (case renewer V of
        None \<Rightarrow> rn = None
      | Some f \<Rightarrow> (\<exists>g. rn = Some g \<and> (\<forall>p s w. fst (f p s w) = g p s)))"

definition spec_renewal ::
  "config \<Rightarrow> (string \<Rightarrow> secret \<Rightarrow> api_error option) option \<Rightarrow> string \<Rightarrow> secret option \<Rightarrow>
   inj_error option" where
  "spec_renewal C rn path s =
     (case s of
        None \<Rightarrow> None
      | Some sec \<Rightarrow>
          if daemon_mode C \<and> 0 < lease_duration sec
          then (case rn of None \<Rightarrow> Some NilRenewer | Some g \<Rightarrow> map_option RenewFailed (g path sec))
          else None)"

definition spec_fetch ::
  "libs \<Rightarrow> config \<Rightarrow> (string \<Rightarrow> string \<Rightarrow> api_error + secret option) \<Rightarrow>
   (string \<Rightarrow> secret \<Rightarrow> api_error option) option \<Rightarrow> string \<Rightarrow> string \<Rightarrow> inj_error + data option" where
  "spec_fetch L C rd rn path version =
     (case rd path version of
        Inl e \<Rightarrow> Inl (ReadFailed path e)
      | Inr s \<Rightarrow>
          (case spec_renewal C rn path s of
             Some e \<Rightarrow> Inl e
           | None \<Rightarrow>
               (case s of None \<Rightarrow> Inr None | Some sec \<Rightarrow> fst (decode_secret L path version sec))))"

text \<open>Every cache entry is what a fresh read of its path and version would give.\<close>

definition coherent ::
  "(string \<Rightarrow> string \<Rightarrow> inj_error + data option) \<Rightarrow> 'w inj_st \<Rightarrow> bool" where
  "coherent fetch st \<longleftrightarrow>
     (\<forall>p v d. CHR ''#'' \<notin> set p \<longrightarrow> secret_cache st (p @ ''#'' @ v) = Some d \<longrightarrow>
        fetch p v = Inr (Some d))"

subsection \<open>One reference\<close>

text \<open>The cache key determines path and version, because a path holds no \<open>#\<close>.\<close>

lemma cache_key_inj:
  assumes "CHR ''#'' \<notin> set p" "CHR ''#'' \<notin> set p'" "p @ ''#'' @ v = p' @ ''#'' @ v'"
  shows "p = p' \<and> v = v'"
proof -
  have "break_at (CHR ''#'') (p @ CHR ''#'' # v) = break_at (CHR ''#'') (p' @ CHR ''#'' # v')"
    using assms(3) by simp
  with assms(1,2) show ?thesis by (simp add: break_at_append)
qed

lemma coherent_cache [simp]:
  "coherent fetch (st\<lparr>world := w\<rparr>) = coherent fetch st"
  "coherent fetch (add_log l st) = coherent fetch st"
  by (simp_all add: coherent_def add_log_def)

lemma coherent_new: "coherent fetch (new_secret_injector w)"
  by (simp add: coherent_def new_secret_injector_def)

lemma coherent_insert:
  assumes "coherent fetch st" "CHR ''#'' \<notin> set p" "fetch p v = Inr (Some d)"
  shows "coherent fetch (st\<lparr>secret_cache := (secret_cache st)(p @ ''#'' @ v \<mapsto> d)\<rparr>)"
  unfolding coherent_def
proof (intro allI impI)
  fix p' v' d'
  assume p': "CHR ''#'' \<notin> set p'"
    and c: "secret_cache (st\<lparr>secret_cache := (secret_cache st)(p @ ''#'' @ v \<mapsto> d)\<rparr>) (p' @ ''#'' @ v') = Some d'"
  show "fetch p' v' = Inr (Some d')"
  proof (cases "p' @ ''#'' @ v' = p @ ''#'' @ v")
    case True
    with c assms(3) cache_key_inj [OF p' assms(2) True] show ?thesis by simp
  next
    case False
    with c assms(1) p' show ?thesis by (simp add: coherent_def)
  qed
qed

lemma fetch_secret_read:
  assumes "stable_vault V rd rn tok"
  shows "fetch_secret L V p v False st =
    ((case rd p v of Inl e \<Rightarrow> Inl (ReadFailed p e) | Inr s \<Rightarrow> Inr s),
     st\<lparr>world := snd (v_read V p v (world st))\<rparr>)"
proof -
  have "fst (v_read V p v (world st)) = rd p v" using assms by (simp add: stable_vault_def)
  then show ?thesis by (auto simp: fetch_secret_def split_def split: sum.splits)
qed

lemma start_renewal_spec:
  assumes "stable_vault V rd rn tok"
  shows "fst (start_renewal V C p s st) = spec_renewal C rn p s \<and>
    secret_cache (snd (start_renewal V C p s st)) = secret_cache st"
proof (cases "renewer V")
  case None
  with assms show ?thesis
    by (simp add: stable_vault_def start_renewal_def spec_renewal_def add_log_def Let_def
        split: option.splits)
next
  case (Some f)
  with assms obtain g where "rn = Some g" and g: "\<And>p s w. fst (f p s w) = g p s"
    by (auto simp: stable_vault_def)
  moreover have "f p s w = (g p s, snd (f p s w))" for p s w by (rule prod_eqI) (simp_all add: g)
  ultimately show ?thesis using Some
    by (auto simp: start_renewal_def spec_renewal_def add_log_def Let_def split_def
        split: option.splits)
qed

lemma read_vault_path_spec:
  assumes "stable_vault V rd rn tok"
  shows "fst (read_vault_path L V C p v False st) = spec_fetch L C rd rn p v \<and>
    secret_cache (snd (read_vault_path L V C p v False st)) = secret_cache st"
  using start_renewal_spec [OF assms]
  by (auto simp: read_vault_path_def fetch_secret_read [OF assms] spec_fetch_def Let_def
      add_log_def split_def split: sum.splits option.splits)

text \<open>A reference that is no update keeps its value when the prefix \<open>>>\<close> is looked for.\<close>

lemma split_n_3_head: "split_n 3 c s = p # k # r \<Longrightarrow> c \<notin> set p"
  using split_n_head_notin [of 3 c s] by simp

lemma resolve_ref_spec:
  assumes st: "stable_vault V rd rn tok" and co: "coherent (spec_fetch L C rd rn) st"
    and p: "CHR ''#'' \<notin> set p"
  shows "fst (resolve_ref L V C p k v False st) =
      (case spec_fetch L C rd rn p v of
         Inl e \<Rightarrow> Inl e
       | Inr None \<Rightarrow> if ignore_missing_secrets C then Inr None else Inl (PathNotFound p)
       | Inr (Some d) \<Rightarrow> (case pick_value L p k d of Inl e \<Rightarrow> Inl e | Inr v \<Rightarrow> Inr (Some v))) \<and>
    coherent (spec_fetch L C rd rn) (snd (resolve_ref L V C p k v False st))"
proof -
  let ?f = "spec_fetch L C rd rn"
  have "fst (cached_read L V C p v False st) = ?f p v \<and> coherent ?f (snd (cached_read L V C p v False st))"
    using co p read_vault_path_spec [OF st, of L C p v st]
    by (auto simp: cached_read_def coherent_def split: option.splits)
  moreover obtain x st1 where "cached_read L V C p v False st = (x, st1)"
    by (cases "cached_read L V C p v False st")
  ultimately show ?thesis using coherent_insert [of ?f st1 p v, OF _ p]
    by (auto simp: resolve_ref_def split: sum.splits option.splits)
qed

lemma resolve_plain_spec:
  assumes st: "stable_vault V rd rn tok" and co: "coherent (spec_fetch L C rd rn) st"
    and nu: "\<not> has_prefix s ''>>secrets-store:''"
  shows "fst (resolve_plain L V C name s st) =
      spec_plain L (ignore_missing_secrets C) tok (spec_fetch L C rd rn) name s \<and>
    coherent (spec_fetch L C rd rn) (snd (resolve_plain L V C name s st))"
proof -
  have tok: "v_token V (world st) = tok" using st by (simp add: stable_vault_def)
  show ?thesis
  proof (cases "\<exists>p k r. split_n 3 (CHR ''#'') (trim_prefix s ''secrets-store:'') = p # k # r")
    case False
    with co nu tok show ?thesis
      by (auto simp: resolve_plain_def spec_plain_def Let_def split: list.splits)
  next
    case True
    then obtain p k r where sp: "split_n 3 (CHR ''#'') (trim_prefix s ''secrets-store:'') = p # k # r"
      by blast
    with co nu tok resolve_ref_spec [OF st co split_n_3_head [OF sp]] show ?thesis
      by (simp add: resolve_plain_def spec_plain_def Let_def)
  qed
qed

subsection \<open>The refinement\<close>

lemma performs_update_plain:
  "\<not> performs_update v \<Longrightarrow> \<not> has_inline_vault_delimiters v \<Longrightarrow> \<not> has_prefix v ''>>secrets-store:''"
  by (simp add: performs_update.simps [of v])

lemma performs_update_inline:
  "\<not> performs_update v \<Longrightarrow> has_inline_vault_delimiters v \<Longrightarrow>
   list_all (\<lambda>mg. \<not> performs_update (snd mg)) (find_inline_vault_delimiters v)"
  by (simp add: performs_update.simps [of v] list_all_iff list_ex_iff)

abbreviation spec_of ::
  "libs \<Rightarrow> config \<Rightarrow> (string \<Rightarrow> string \<Rightarrow> api_error + secret option) \<Rightarrow>
   (string \<Rightarrow> secret \<Rightarrow> api_error option) option \<Rightarrow> string \<Rightarrow> string \<Rightarrow> string \<Rightarrow>
   inj_error + string option" where
  "spec_of L C rd rn tok \<equiv> spec_value L (ignore_missing_secrets C) tok (spec_fetch L C rd rn)"

lemma inject_refs_spec:
  shows "stable_vault V rd rn tok \<Longrightarrow> coherent (spec_fetch L C rd rn) st \<Longrightarrow> list_all (\<lambda>nv. \<not> performs_update (snd nv)) refs \<Longrightarrow>
      \<exists>st'. inject_refs L V C refs st =
          (fst (collect_refs (spec_of L C rd rn tok) refs),
           snd (collect_refs (spec_of L C rd rn tok) refs), st') \<and>
        coherent (spec_fetch L C rd rn) st'"
    and "stable_vault V rd rn tok \<Longrightarrow> coherent (spec_fetch L C rd rn) st \<Longrightarrow> list_all (\<lambda>nv. \<not> performs_update (snd nv)) refs \<Longrightarrow>
      \<exists>st'. get_data_from_vault L V C refs st =
          (fst (collect_refs (spec_of L C rd rn tok) refs),
           assign_all (snd (collect_refs (spec_of L C rd rn tok) refs)) [], st') \<and>
        coherent (spec_fetch L C rd rn) st'"
    and "stable_vault V rd rn tok \<Longrightarrow> coherent (spec_fetch L C rd rn) st \<Longrightarrow> list_all (\<lambda>mg. \<not> performs_update (snd mg)) ms \<Longrightarrow>
      \<exists>st'. subst_refs L V C name ms value st =
          (spec_subst L (ignore_missing_secrets C) tok (spec_fetch L C rd rn) name ms value, st') \<and>
        coherent (spec_fetch L C rd rn) st'"
proof (induction L V C refs st and L V C refs st and L V C name ms "value" st
    rule: inject_refs_get_data_from_vault_subst_refs.induct)
  case (2 L V C name s refs st)
  note prems = 2
  let ?res = "spec_of L C rd rn tok"
  let ?co = "coherent (spec_fetch L C rd rn)"
  have co: "?co st" and u: "\<not> performs_update s"
    and us: "list_all (\<lambda>nv. \<not> performs_update (snd nv)) refs" using prems(5-7) by auto
  show ?case
  proof (cases "has_inline_vault_delimiters s")
    case True
    from prems(1) [OF True prems(5) co performs_update_inline [OF u True]] obtain st1 where
      sub: "subst_refs L V C name (find_inline_vault_delimiters s) s st =
        (spec_subst L (ignore_missing_secrets C) tok (spec_fetch L C rd rn) name
          (find_inline_vault_delimiters s) s, st1)" and co1: "?co st1" by blast
    have sv: "?res name s = (case spec_subst L (ignore_missing_secrets C) tok (spec_fetch L C rd rn) name
          (find_inline_vault_delimiters s) s of Inl e \<Rightarrow> Inl e | Inr v \<Rightarrow> Inr (Some v))"
      using True by (simp add: spec_value.simps)
    show ?thesis
      using True sub co1 prems(2) [OF True sub [symmetric] _ prems(5) co1 us]
      by (fastforce simp: sv split: sum.splits prod.splits)
  next
    case False
    obtain x st1 where rp: "resolve_plain L V C name s st = (x, st1)"
      by (cases "resolve_plain L V C name s st")
    from resolve_plain_spec [OF prems(5) co performs_update_plain [OF u False], of name] rp
    have x: "x = ?res name s" and co1: "?co st1"
      using False by (simp_all add: spec_value.simps)
    show ?thesis
      using False rp co1 prems(3) [OF False rp [symmetric] _ _ prems(5) co1 us]
        prems(4) [OF False rp [symmetric] _ _ prems(5) co1 us]
      by (fastforce simp: x split: sum.splits prod.splits option.splits)
  qed
next
  case (5 L V C name m0 m1 ms s st)
  note prems = 5
  let ?res = "spec_of L C rd rn tok"
  let ?co = "coherent (spec_fetch L C rd rn)"
  have co: "?co st" and u: "\<not> performs_update m1"
    and us: "list_all (\<lambda>mg. \<not> performs_update (snd mg)) ms" using prems(4,5) by auto
  from prems(1) [OF prems(3) co] u obtain st1 where
    gd: "get_data_from_vault L V C [(name, m1)] st =
      (fst (collect_refs ?res [(name, m1)]), assign_all (snd (collect_refs ?res [(name, m1)])) [], st1)"
    and co1: "?co st1" by auto
  show ?case
  proof (cases "?res name m1")
    case (Inl e)
    with gd co1 show ?thesis by simp
  next
    case (Inr v)
    with prems(2) [OF gd [symmetric] _ refl prems(3) co1 us] gd show ?thesis
      by (cases v) simp_all
  qed
qed auto

subsection \<open>Environments resolved entry by entry\<close>

lemma collect_refs_None_iff:
  "fst (collect_refs res refs) = None \<longleftrightarrow> list_all (\<lambda>nv. \<exists>x. res (fst nv) (snd nv) = Inr x) refs"
  by (induction res refs rule: collect_refs.induct) (simp_all split: sum.splits option.splits)

lemma collect_refs_keys: "set (map fst (snd (collect_refs res refs))) \<subseteq> set (map fst refs)"
proof (induction res refs rule: collect_refs.induct)
  case (2 res name s refs)
  show ?case
  proof (cases "res name s")
    case (Inr x)
    with 2 show ?thesis by (cases x) (simp_all add: subset_insertI2)
  qed simp
qed simp

lemma collect_refs_distinct: "distinct_keys refs \<Longrightarrow> distinct_keys (snd (collect_refs res refs))"
proof (induction res refs rule: collect_refs.induct)
  case (2 res name s refs)
  then have "name \<notin> set (map fst (snd (collect_refs res refs)))"
    using collect_refs_keys [of res refs] by auto
  with 2 show ?case by (simp split: sum.splits option.splits)
qed simp

lemma collect_refs_lookup:
  assumes "fst (collect_refs res refs) = None" "distinct_keys refs"
  shows "map_of (snd (collect_refs res refs)) k =
    Option.bind (map_of refs k) (\<lambda>v. case res k v of Inl _ \<Rightarrow> None | Inr x \<Rightarrow> x)"
  using assms
proof (induction res refs rule: collect_refs.induct)
  case (2 res name s refs)
  then have "name \<notin> set (map fst (snd (collect_refs res refs)))"
    using collect_refs_keys [of res refs] by auto
  then have "map_of (snd (collect_refs res refs)) name = None"
    by (simp add: map_of_eq_None_iff)
  with 2 show ?case by (auto split: sum.splits option.splits)
qed simp

text \<open>
  The interface between the injector and its callers. A caller sees a function that injects an
  environment in some order, succeeds or stops at an error, and keeps its own invariant; the
  contract is that the outcome is that of resolving each entry by itself.
\<close>

locale env_injector =
  fixes inject :: "str_map \<Rightarrow> 's \<Rightarrow> inj_error option \<times> (string \<times> string) list \<times> 's"
    and resolve :: "string \<Rightarrow> string \<Rightarrow> inj_error + string option"
    and inv :: "'s \<Rightarrow> bool"
    and ok :: "string \<Rightarrow> bool"
  assumes inject_collects: "inv s \<Longrightarrow> list_all (\<lambda>nv. ok (snd nv)) refs \<Longrightarrow>
    \<exists>s'. inject refs s = (fst (collect_refs resolve refs), snd (collect_refs resolve refs), s') \<and> inv s'"
begin

lemma outcome:
  assumes "inv s" "list_all (\<lambda>nv. ok (snd nv)) refs" "inject refs s = (r, em, s')"
  shows "r = fst (collect_refs resolve refs)" "em = snd (collect_refs resolve refs)" "inv s'"
  using inject_collects [OF assms(1,2)] assms(3) by auto

lemma repeatable:
  assumes "inv s1" "inv s2" "list_all (\<lambda>nv. ok (snd nv)) refs"
    "inject refs s1 = (r1, em1, t1)" "inject refs s2 = (r2, em2, t2)"
  shows "r1 = r2 \<and> em1 = em2"
  using outcome assms by metis

lemma lookup:
  assumes "inv s" "list_all (\<lambda>nv. ok (snd nv)) refs" "distinct_keys refs"
    and "inject refs s = (None, em, s')"
  shows "map_of (assign_all em []) k =
    Option.bind (map_of refs k) (\<lambda>v. case resolve k v of Inl _ \<Rightarrow> None | Inr x \<Rightarrow> x)"
  using outcome [OF assms(1,2,4)] assms(3)
  by (simp add: map_of_assign_all map_of_rev_distinct collect_refs_distinct
      collect_refs_lookup [OF sym [OF outcome(1) [OF assms(1,2,4)]]])

lemma order_independent:
  assumes inv: "inv s1" "inv s2" and ok: "list_all (\<lambda>nv. ok (snd nv)) refs"
    and d: "distinct_keys refs" and perm: "mset refs = mset refs'"
    and run1: "inject refs s1 = (r1, em1, t1)" and run2: "inject refs' s2 = (r2, em2, t2)"
  shows "r1 = None \<longleftrightarrow> r2 = None"
    "r1 = None \<Longrightarrow> map_of (assign_all em1 []) = map_of (assign_all em2 [])"
proof -
  have set: "set refs = set refs'" using perm by (rule mset_eq_setD)
  with ok have ok': "list_all (\<lambda>nv. ok (snd nv)) refs'" by (simp add: list_all_iff)
  have d': "distinct_keys refs'"
    using d perm by (metis mset_map mset_eq_imp_distinct_iff)
  have mo: "map_of refs = map_of refs'" using d d' set by (metis map_of_inject_set)
  note o1 = outcome [OF inv(1) ok run1] and o2 = outcome [OF inv(2) ok' run2]
  show iff: "r1 = None \<longleftrightarrow> r2 = None"
    by (simp add: o1(1) o2(1) collect_refs_None_iff list_all_iff set)
  assume r: "r1 = None"
  with iff have "inject refs s1 = (None, em1, t1)" "inject refs' s2 = (None, em2, t2)"
    using run1 run2 by auto
  then show "map_of (assign_all em1 []) = map_of (assign_all em2 [])"
    using lookup [OF inv(1) ok d] lookup [OF inv(2) ok' d'] by (simp add: fun_eq_iff mo)
qed

end

interpretation injector: env_injector "inject_secrets_from_vault L V C" "spec_of L C rd rn tok"
    "\<lambda>st. stable_vault V rd rn tok \<and> coherent (spec_fetch L C rd rn) st"
    "\<lambda>v. \<not> performs_update v"
  for L and V :: "'w vault" and C rd rn tok
  by unfold_locales (use inject_refs_spec(1) in \<open>fastforce simp: inject_secrets_from_vault_def\<close>)

text \<open>The paths do not look at the cache, so they refine their specification in any state.\<close>

lemma inject_path_list_spec:
  assumes "stable_vault V rd rn tok"
  shows "\<exists>st'. inject_path_list L V C ps st =
    (fst (spec_paths L (ignore_missing_secrets C) (spec_fetch L C rd rn) ps),
     snd (spec_paths L (ignore_missing_secrets C) (spec_fetch L C rd rn) ps), st')"
proof (induction ps arbitrary: st)
  case (Cons p ps)
  obtain q v where pv: "path_version p = (q, v)" by (cases "path_version p")
  obtain st1 where "read_vault_path L V C q v False st = (spec_fetch L C rd rn q v, st1)"
    using read_vault_path_spec [OF assms, of L C q v st] by (metis prod.collapse)
  with pv Cons [of st1] Cons [of "add_log [PathNotFoundWarn q] st1"] show ?case
    by (auto split: sum.splits option.splits prod.splits)
qed simp

subsection \<open>More secrets\<close>

text \<open>A specification over a function that gives at least the same secrets gives at least the same values.\<close>

lemma spec_plain_mono:
  assumes "\<And>p v x. f p v = Inr x \<Longrightarrow> g p v = Inr x" "spec_plain L ign tok f name value = Inr r"
  shows "spec_plain L ign tok g name value = Inr r"
  using assms by (auto simp: spec_plain_def Let_def split: if_splits list.splits sum.splits option.splits)

lemma spec_mono:
  shows "(\<And>p v x. f p v = Inr x \<Longrightarrow> g p v = Inr x) \<Longrightarrow> spec_value L ign tok f name s = Inr r \<Longrightarrow>
      spec_value L ign tok g name s = Inr r"
    and "(\<And>p v x. f p v = Inr x \<Longrightarrow> g p v = Inr x) \<Longrightarrow> spec_subst L ign tok f name ms s = Inr t \<Longrightarrow>
      spec_subst L ign tok g name ms s = Inr t"
proof (induction L ign tok f name s and L ign tok f name ms s arbitrary: r and t rule: spec_value_spec_subst.induct)
  case (1 L ign tok f name s)
  then show ?case
    using spec_plain_mono [of f g L ign tok name s r]
    by (auto simp: spec_value.simps [of L ign tok _ name s] split: if_splits sum.splits)
next
  case (3 L ign tok f name m0 m1 ms s)
  then show ?case by (auto split: sum.splits option.splits)
qed simp

lemma collect_refs_mono:
  assumes "\<And>n v x. res n v = Inr x \<Longrightarrow> res' n v = Inr x" "fst (collect_refs res refs) = None"
  shows "collect_refs res' refs = collect_refs res refs"
  using assms(2)
proof (induction refs)
  case (Cons nv refs)
  obtain n v where nv: "nv = (n, v)" by (cases nv)
  with Cons.prems obtain x where "res n v = Inr x" by (cases "res n v") auto
  with Cons nv assms(1) [of n v x] show ?case by (cases x) auto
qed simp

lemma spec_paths_mono:
  assumes "\<And>p v x. f p v = Inr x \<Longrightarrow> g p v = Inr x" "fst (spec_paths L ign f ps) = None"
  shows "spec_paths L ign g ps = spec_paths L ign f ps"
  using assms(2)
proof (induction ps)
  case (Cons p ps)
  then obtain x where "f (fst (path_version p)) (snd (path_version p)) = Inr x"
    by (cases "f (fst (path_version p)) (snd (path_version p))") auto
  with Cons assms(1) [of "fst (path_version p)" "snd (path_version p)" x] show ?case
    by (cases x) (auto split: option.splits prod.splits if_splits)
qed simp

subsection \<open>A concrete store for the witnesses\<close>

text \<open>
  A store that is a table of secrets by path and version, with the library functions on the values
  the table holds. The world counts the writes, so that an update is visible.
\<close>

definition kv_vault :: "(string \<times> secret) list \<Rightarrow> nat vault" where
  "kv_vault tab =
     \<lparr>v_read = (\<lambda>p v w. (Inr (map_of tab p), w)), v_write = (\<lambda>p d w. (Inr (map_of tab p), Suc w)),
      v_token = (\<lambda>w. ''tok''), renewer = None\<rparr>"

definition kv_libs :: libs where
  "kv_libs =
     \<lparr>json_object = (\<lambda>s. Inr (Some [])),
      to_string_e = (\<lambda>v. case v of VStr s \<Rightarrow> Inr s | _ \<Rightarrow> Inl ''cast''),
      to_string_map = (\<lambda>v. case v of VMap (Some d) \<Rightarrow> Some d | _ \<Rightarrow> Some []),
      run_template = (\<lambda>t d. Inr t)\<rparr>"

definition kv_secret :: "data \<Rightarrow> secret" where
  "kv_secret d = \<lparr>lease_duration = 0, renewable = False, sec_data = Some d, sec_warnings = []\<rparr>"

definition kv_store :: "nat vault" where
  "kv_store = kv_vault [(''p'', kv_secret [(''k'', VStr ''v'')])]"

definition kv_config :: config where
  "kv_config = \<lparr>ignore_missing_secrets = False, daemon_mode = False\<rparr>"

lemmas kv_defs = kv_store_def kv_vault_def kv_libs_def kv_secret_def kv_config_def

lemma kv_stable: "stable_vault (kv_vault tab) (\<lambda>p v. Inr (map_of tab p)) None ''tok''"
  by (simp add: stable_vault_def kv_vault_def)

subsection \<open>Lemmas for the properties\<close>

text \<open>Without an update reference the write function of the client is never consulted.\<close>

lemma v_write_update [simp]:
  "v_read (V\<lparr>v_write := f\<rparr>) = v_read V" "v_token (V\<lparr>v_write := f\<rparr>) = v_token V"
  "renewer (V\<lparr>v_write := f\<rparr>) = renewer V"
  by simp_all

lemma read_vault_path_no_write:
  "read_vault_path L (V\<lparr>v_write := f\<rparr>) C p v False st = read_vault_path L V C p v False st"
proof -
  have a: "fetch_secret L (V\<lparr>v_write := f\<rparr>) p v False st = fetch_secret L V p v False st"
    by (simp add: fetch_secret_def)
  have b: "start_renewal (V\<lparr>v_write := f\<rparr>) C p = start_renewal V C p"
    by (intro ext) (simp add: start_renewal_def Let_def split: option.split)
  show ?thesis unfolding read_vault_path_def a b ..
qed

lemma resolve_ref_no_write:
  "resolve_ref L (V\<lparr>v_write := f\<rparr>) C p k v False st = resolve_ref L V C p k v False st"
proof -
  have "cached_read L (V\<lparr>v_write := f\<rparr>) C p v False st = cached_read L V C p v False st"
    by (simp add: cached_read_def read_vault_path_no_write split: option.split)
  then show ?thesis by (simp add: resolve_ref_def)
qed

lemma resolve_plain_no_write:
  "\<not> has_prefix s ''>>secrets-store:'' \<Longrightarrow>
   resolve_plain L (V\<lparr>v_write := f\<rparr>) C name s st = resolve_plain L V C name s st"
  by (simp add: resolve_plain_def resolve_ref_no_write Let_def split: list.split)

lemma inject_no_write:
  shows "list_all (\<lambda>nv. \<not> performs_update (snd nv)) refs \<Longrightarrow>
      inject_refs L (V\<lparr>v_write := f\<rparr>) C refs st = inject_refs L V C refs st"
    and "list_all (\<lambda>nv. \<not> performs_update (snd nv)) refs \<Longrightarrow>
      get_data_from_vault L (V\<lparr>v_write := f\<rparr>) C refs st = get_data_from_vault L V C refs st"
    and "list_all (\<lambda>mg. \<not> performs_update (snd mg)) ms \<Longrightarrow>
      subst_refs L (V\<lparr>v_write := f\<rparr>) C name ms s st = subst_refs L V C name ms s st"
proof (induction L V C refs st and L V C refs st and L V C name ms s st
    rule: inject_refs_get_data_from_vault_subst_refs.induct)
  case (2 L V C name s refs st)
  note IH = 2
  have u: "\<not> performs_update s" and us: "list_all (\<lambda>nv. \<not> performs_update (snd nv)) refs"
    using IH(5) by auto
  show ?case
  proof (cases "has_inline_vault_delimiters s")
    case True
    obtain x st1 where x: "subst_refs L V C name (find_inline_vault_delimiters s) s st = (x, st1)"
      by (cases "subst_refs L V C name (find_inline_vault_delimiters s) s st")
    show ?thesis
      using True x IH(1) [OF True performs_update_inline [OF u True]]
        IH(2) [OF True x [symmetric] _ us] by (cases x) simp_all
  next
    case False
    obtain x st1 where x: "resolve_plain L V C name s st = (x, st1)"
      by (cases "resolve_plain L V C name s st")
    have "resolve_plain L (V\<lparr>v_write := f\<rparr>) C name s st = (x, st1)"
      unfolding resolve_plain_no_write [OF performs_update_plain [OF u False]] by (rule x)
    with False x IH(3) [OF False x [symmetric] _ _ us] IH(4) [OF False x [symmetric] _ _ us]
    show ?thesis by (auto split: sum.splits option.splits)
  qed
next
  case (5 L V C name m0 m1 ms s st)
  then show ?case by (auto split: sum.splits prod.splits option.splits)
qed auto

text \<open>Outside daemon mode the renewer is never called, so a nil renewer does no harm.\<close>

lemma read_vault_path_no_nil:
  assumes "\<not> daemon_mode C"
  shows "fst (read_vault_path L V C p v u st) \<noteq> Inl NilRenewer"
proof -
  have "fst (fetch_secret L V p v u st) \<noteq> Inl NilRenewer"
    by (simp add: fetch_secret_def split: sum.splits prod.splits)
  moreover have "start_renewal V C p x st' = (None, st')" for x st'
    using assms by (simp add: start_renewal_def split: option.splits)
  moreover have "decode_secret L p v sec \<noteq> (Inl NilRenewer, l)" for sec l
    by (simp add: decode_secret_def split: option.splits gval.splits)
  ultimately show ?thesis
    by (auto simp: read_vault_path_def Let_def split: sum.splits prod.splits option.splits)
qed

lemma resolve_ref_no_nil:
  assumes "\<not> daemon_mode C"
  shows "fst (resolve_ref L V C p k v u st) \<noteq> Inl NilRenewer"
proof -
  have "fst (cached_read L V C p v u st) \<noteq> Inl NilRenewer"
    using read_vault_path_no_nil [OF assms, of L V p v u st] by (simp add: cached_read_def split: option.splits)
  moreover have "pick_value L p k d \<noteq> Inl NilRenewer" for d
    by (simp add: pick_value_def split: sum.splits option.splits)
  ultimately show ?thesis
    by (auto simp: resolve_ref_def split: sum.splits prod.splits option.splits)
qed

lemma resolve_plain_no_nil:
  "\<not> daemon_mode C \<Longrightarrow> fst (resolve_plain L V C n s st) \<noteq> Inl NilRenewer"
  using resolve_ref_no_nil [of C L V _ _ _ _ st] by (simp add: resolve_plain_def Let_def split: list.splits)

text \<open>An error that no single value gives is not the result of injecting either.\<close>

lemma inject_avoids:
  shows "\<forall>n s st. fst (resolve_plain L V C n s st) \<noteq> Inl e \<Longrightarrow> fst (inject_refs L V C refs st) \<noteq> Some e"
    and "\<forall>n s st. fst (resolve_plain L V C n s st) \<noteq> Inl e \<Longrightarrow> fst (get_data_from_vault L V C refs st) \<noteq> Some e"
    and "\<forall>n s st. fst (resolve_plain L V C n s st) \<noteq> Inl e \<Longrightarrow> fst (subst_refs L V C name ms s st) \<noteq> Inl e"
proof (induction L V C refs st and L V C refs st and L V C name ms s st
    rule: inject_refs_get_data_from_vault_subst_refs.induct)
  case (2 L V C name s refs st)
  note IH = 2
  show ?case
  proof (cases "has_inline_vault_delimiters s")
    case True
    obtain x st1 where x: "subst_refs L V C name (find_inline_vault_delimiters s) s st = (x, st1)"
      by (cases "subst_refs L V C name (find_inline_vault_delimiters s) s st")
    show ?thesis
      using True x IH(1) [OF True IH(5)] IH(2) [OF True x [symmetric] _ IH(5)]
      by (cases x) (auto simp: split_def)
  next
    case False
    obtain x st1 where x: "resolve_plain L V C name s st = (x, st1)"
      by (cases "resolve_plain L V C name s st")
    with IH(5) have "x \<noteq> Inl e" by (metis fst_conv)
    with x False IH(3) [OF False x [symmetric] _ _ IH(5)] IH(4) [OF False x [symmetric] _ _ IH(5)]
    show ?thesis by (auto simp: split_def split: sum.splits option.splits)
  qed
next
  case (5 L V C name m0 m1 ms s st)
  note IH = 5
  obtain r m st1 where g: "get_data_from_vault L V C [(name, m1)] st = (r, m, st1)"
    by (cases "get_data_from_vault L V C [(name, m1)] st") auto
  show ?case
    using g IH(1) [OF IH(3)] IH(2) [OF g [symmetric] _ refl IH(3)] by (cases r) auto
qed (auto split: prod.splits)

lemma inject_path_list_avoids:
  assumes read: "\<And>p v st. fst (read_vault_path L V C p v False st) \<noteq> Inl e" and data: "\<And>d. fst (inject_data L d) \<noteq> Some e"
    and missing: "ignore_missing_secrets C \<or> (\<forall>p. e \<noteq> PathNotFound p)"
  shows "fst (inject_path_list L V C ps st) \<noteq> Some e"
proof (induction ps arbitrary: st)
  case (Cons p ps)
  obtain q v where pv: "path_version p = (q, v)" by (cases "path_version p")
  obtain x st1 where x: "read_vault_path L V C q v False st = (x, st1)"
    by (cases "read_vault_path L V C q v False st")
  with read [of q v st] have ne: "x \<noteq> Inl e" by auto
  show ?case
  proof (cases x)
    case (Inr b)
    show ?thesis
    proof (cases b)
      case None
      with Cons x pv Inr missing show ?thesis by (auto simp: split_def)
    next
      case (Some d)
      obtain r em where "inject_data L d = (r, em)" by (cases "inject_data L d")
      with data [of d] Cons x pv Inr Some show ?thesis by (cases r) (auto simp: split_def)
    qed
  qed (use ne x pv in simp)
qed simp

lemma inject_data_error: "fst (inject_data L d) = Some e \<Longrightarrow> \<exists>k f. e = CastFailedKey k f"
  by (induction L d rule: inject_data.induct) (auto split: sum.splits prod.splits)

lemma inject_no_nil: "\<not> daemon_mode C \<Longrightarrow> fst (inject_refs L V C refs st) \<noteq> Some NilRenewer"
  by (rule inject_avoids(1)) (simp add: resolve_plain_no_nil)

lemma inject_path_list_no_nil: "\<not> daemon_mode C \<Longrightarrow> fst (inject_path_list L V C ps st) \<noteq> Some NilRenewer"
  by (rule inject_path_list_avoids) (auto simp: read_vault_path_no_nil dest: inject_data_error)

subsection \<open>Ignoring missing secrets\<close>

lemma read_vault_path_ignore [simp]:
  "read_vault_path L V (C\<lparr>ignore_missing_secrets := b\<rparr>) p v u st = read_vault_path L V C p v u st"
  by (simp add: read_vault_path_def start_renewal_def cong: sum.case_cong option.case_cong)

lemma cached_read_ignore [simp]:
  "cached_read L V (C\<lparr>ignore_missing_secrets := b\<rparr>) p v u st = cached_read L V C p v u st"
  by (simp add: cached_read_def split: option.split)

lemma resolve_plain_ignore:
  assumes "resolve_plain L V C n s st = (Inr x, st')"
  shows "resolve_plain L V (C\<lparr>ignore_missing_secrets := True\<rparr>) n s st = (Inr x, st')"
proof -
  have "resolve_ref L V (C\<lparr>ignore_missing_secrets := True\<rparr>) p k v u st = (Inr x, st')"
    if "resolve_ref L V C p k v u st = (Inr x, st')" for p k v u
    using that by (auto simp: resolve_ref_def split: prod.splits sum.splits option.splits if_splits)
  with assms show ?thesis by (auto simp: resolve_plain_def Let_def split: list.splits if_splits)
qed

text \<open>What succeeds without the setting gives the same with it.\<close>

lemma inject_ignore:
  shows "inject_refs L V C refs st = (None, em, st') \<Longrightarrow>
      inject_refs L V (C\<lparr>ignore_missing_secrets := True\<rparr>) refs st = (None, em, st')"
    and "get_data_from_vault L V C refs st = (None, m, st') \<Longrightarrow>
      get_data_from_vault L V (C\<lparr>ignore_missing_secrets := True\<rparr>) refs st = (None, m, st')"
    and "subst_refs L V C name ms s st = (Inr v, st') \<Longrightarrow>
      subst_refs L V (C\<lparr>ignore_missing_secrets := True\<rparr>) name ms s st = (Inr v, st')"
proof (induction L V C refs st and L V C refs st and L V C name ms s st
    arbitrary: em st' and m st' and v st' rule: inject_refs_get_data_from_vault_subst_refs.induct)
  case (2 L V C name s refs st)
  note IH = 2
  show ?case
  proof (cases "has_inline_vault_delimiters s")
    case True
    obtain x st1 where x: "subst_refs L V C name (find_inline_vault_delimiters s) s st = (x, st1)"
      by (cases "subst_refs L V C name (find_inline_vault_delimiters s) s st")
    with IH(5) True obtain v em1 where "x = Inr v" "inject_refs L V C refs st1 = (None, em1, st')" "em = (name, v) # em1"
      by (auto split: sum.splits prod.splits)
    with True x IH(1) [OF True, of v st1] IH(2) [OF True x [symmetric], of v em1 st'] show ?thesis by simp
  next
    case False
    obtain x st1 where x: "resolve_plain L V C name s st = (x, st1)"
      by (cases "resolve_plain L V C name s st")
    with IH(5) False obtain y where y: "x = Inr y" by (cases x) auto
    with resolve_plain_ignore [of L V C name s st y st1] x False IH(5)
      IH(3) [OF False x [symmetric] y] IH(4) [OF False x [symmetric] y]
    show ?thesis by (cases y) (auto split: prod.splits)
  qed
next
  case (5 L V C name m0 m1 ms s st)
  note IH = 5
  obtain r m st1 where g: "get_data_from_vault L V C [(name, m1)] st = (r, m, st1)"
    by (cases "get_data_from_vault L V C [(name, m1)] st") auto
  with IH(3) have r: "r = None" by (cases r) auto
  show ?case
    using g r IH(1) [of m st1] IH(2) [OF g [symmetric] r refl] IH(3) by simp
qed (auto split: prod.splits)

lemma inject_path_list_ignore:
  "inject_path_list L V C ps st = (None, em, st') \<Longrightarrow>
   inject_path_list L V (C\<lparr>ignore_missing_secrets := True\<rparr>) ps st = (None, em, st')"
proof (induction ps arbitrary: st em)
  case (Cons p ps)
  obtain q v where pv: "path_version p = (q, v)" by (cases "path_version p")
  obtain x st1 where x: "read_vault_path L V C q v False st = (x, st1)"
    by (cases "read_vault_path L V C q v False st")
  with Cons.prems pv obtain d where d: "x = Inr d" by (cases x) auto
  show ?case
  proof (cases d)
    case None
    with Cons pv x d show ?thesis by (auto split: if_splits)
  next
    case (Some kvs)
    obtain r em1 where "inject_data L kvs = (r, em1)" by (cases "inject_data L kvs")
    with Cons pv x d Some show ?thesis by (cases r) (fastforce split: prod.splits)+
  qed
qed simp

text \<open>With the setting a missing path is no error.\<close>

lemma read_vault_path_not_missing: "fst (read_vault_path L V C p v u st) \<noteq> Inl (PathNotFound q)"
proof -
  have "fst (fetch_secret L V p v u st) \<noteq> Inl (PathNotFound q)"
    by (simp add: fetch_secret_def split: sum.splits prod.splits)
  moreover have "start_renewal V C p x st' \<noteq> (Some (PathNotFound q), st'')" for x st' st''
    by (auto simp: start_renewal_def Let_def split: option.splits prod.splits if_splits)
  moreover have "decode_secret L p v sec \<noteq> (Inl (PathNotFound q), l)" for sec l
    by (simp add: decode_secret_def split: option.splits gval.splits)
  ultimately show ?thesis
    by (auto simp: read_vault_path_def Let_def split: sum.splits prod.splits option.splits)
qed

lemma resolve_ref_not_missing:
  assumes "ignore_missing_secrets C"
  shows "fst (resolve_ref L V C p k v u st) \<noteq> Inl (PathNotFound q)"
proof -
  obtain x st1 where c: "cached_read L V C p v u st = (x, st1)" by (cases "cached_read L V C p v u st")
  have "fst (cached_read L V C p v u st) \<noteq> Inl (PathNotFound q)"
    using read_vault_path_not_missing [of L V C p v u st q] by (simp add: cached_read_def split: option.splits)
  with c have x: "x \<noteq> Inl (PathNotFound q)" by simp
  have "pick_value L p k d \<noteq> Inl (PathNotFound q)" for d
    by (simp add: pick_value_def split: sum.splits option.splits)
  with assms c x show ?thesis by (auto simp: resolve_ref_def split: sum.splits option.splits)
qed

lemma resolve_plain_not_missing:
  "ignore_missing_secrets C \<Longrightarrow> fst (resolve_plain L V C n s st) \<noteq> Inl (PathNotFound q)"
  by (simp add: resolve_plain_def resolve_ref_not_missing Let_def split: list.splits)

text \<open>A reference that was resolved is resolved from the cache the next time.\<close>

lemma resolve_plain_again:
  assumes "resolve_plain L V C n s st = (Inr (Some x), st1)"
  shows "resolve_plain L V C n s st1 = (Inr (Some x), st1)"
proof -
  have ref: "resolve_ref L V C p k v u st1 = (Inr (Some x), st1)"
    if "resolve_ref L V C p k v u st = (Inr (Some x), st1)" for p k v u
    using that
    by (auto simp: resolve_ref_def cached_read_def split: sum.splits prod.splits option.splits if_splits)
  with assms show ?thesis
    by (auto simp: resolve_plain_def Let_def split: list.splits if_splits)
qed

text \<open>A run emits at most one pair per reference, in their order, and a plain value as it is.\<close>

lemma resolve_plain_value:
  "\<not> is_valid_prefix s \<Longrightarrow> resolve_plain L V C name s st = (Inr (Some s), st)"
  by (simp add: resolve_plain_def is_valid_prefix_def Let_def)

lemma inject_refs_step:
  assumes "inject_refs L V C ((name, v) # refs) st = (r, em, st')"
  shows "(em = [] \<and> r \<noteq> None) \<or>
    (\<exists>x em1 st1. inject_refs L V C refs st1 = (r, em1, st') \<and> em = (name, x) # em1 \<and>
       (\<not> is_valid_prefix v \<and> \<not> has_inline_vault_delimiters v \<longrightarrow> x = v)) \<or>
    (\<exists>st1. inject_refs L V C refs st1 = (r, em, st') \<and> (is_valid_prefix v \<or> has_inline_vault_delimiters v))"
proof (cases "has_inline_vault_delimiters v")
  case True
  with assms show ?thesis by (auto split: prod.splits sum.splits)
next
  case False
  with assms show ?thesis
    by (cases "is_valid_prefix v")
       (auto simp: resolve_plain_value split: prod.splits sum.splits option.splits)
qed

lemma inject_refs_emits:
  assumes "inject_refs L V C refs st = (r, em, st')"
  shows "set (map fst em) \<subseteq> set (map fst refs)" "distinct_keys refs \<Longrightarrow> distinct_keys em"
    "r = None \<Longrightarrow> (n, s) \<in> set refs \<Longrightarrow> \<not> is_valid_prefix s \<Longrightarrow> \<not> has_inline_vault_delimiters s \<Longrightarrow>
     (n, s) \<in> set em"
proof -
  have "set (map fst em) \<subseteq> set (map fst refs) \<and> (distinct_keys refs \<longrightarrow> distinct_keys em) \<and>
    (r = None \<and> (n, s) \<in> set refs \<and> \<not> is_valid_prefix s \<and> \<not> has_inline_vault_delimiters s \<longrightarrow> (n, s) \<in> set em)"
    using assms
  proof (induction refs arbitrary: st em)
    case (Cons nv refs)
    obtain name v where nv: "nv = (name, v)" by (cases nv)
    from inject_refs_step [OF Cons.prems [unfolded nv]] show ?case
    proof (elim disjE exE conjE)
      fix x em1 st1
      assume "inject_refs L V C refs st1 = (r, em1, st')" "em = (name, x) # em1"
        "\<not> is_valid_prefix v \<and> \<not> has_inline_vault_delimiters v \<longrightarrow> x = v"
      with Cons.IH [of st1 em1] nv show ?thesis by auto
    next
      fix st1
      assume "inject_refs L V C refs st1 = (r, em, st')"
      with Cons.IH [of st1 em] nv show "is_valid_prefix v \<Longrightarrow> ?thesis" "has_inline_vault_delimiters v \<Longrightarrow> ?thesis"
        by auto
    qed simp
  qed simp
  then show "set (map fst em) \<subseteq> set (map fst refs)" "distinct_keys refs \<Longrightarrow> distinct_keys em"
    "r = None \<Longrightarrow> (n, s) \<in> set refs \<Longrightarrow> \<not> is_valid_prefix s \<Longrightarrow> \<not> has_inline_vault_delimiters s \<Longrightarrow>
     (n, s) \<in> set em" by simp_all
qed

text \<open>The filter \<open>isUpdateReference\<close> finds every update, apart from one inside an inline reference.\<close>

lemma update_filter_complete:
  assumes "\<not> is_update_reference s"
    and "list_all (\<lambda>mg. \<not> has_inline_vault_delimiters (snd mg)) (find_inline_vault_delimiters s)"
  shows "\<not> performs_update s"
proof -
  have "\<not> performs_update g" if g: "(m, g) \<in> set (find_inline_vault_delimiters s)" for m g
    using that assms
    by (auto simp: performs_update.simps [of g] is_update_reference_def list_all_iff list_ex_iff
        has_prefix_def prefix_def split: if_splits)
  then show ?thesis using assms(1)
    by (auto simp: performs_update.simps [of s] list_ex_iff is_update_reference_def split: if_splits)
qed

end
