(* ===== verification/Injector_Props.thy ===== *)
theory Injector_Props
  imports Injector_Spec
begin

text \<open>
  The properties of the secret injector (\<^verbatim>\<open>images/env-injector/injector.go\<close>), over the model in
  \<open>Injector\<close>, by the refinement and the lemmas of \<open>Injector_Spec\<close>. The witnesses run the injector on a
  small store, \<open>kv_store\<close>, that holds the secret \<open>k = v\<close> at the path \<open>p\<close>.
\<close>

subsection \<open>Secrets injected from paths\<close>

abbreviation path_data ::
  "libs \<Rightarrow> config \<Rightarrow> (string \<Rightarrow> string \<Rightarrow> api_error + secret option) \<Rightarrow>
   (string \<Rightarrow> secret \<Rightarrow> api_error option) option \<Rightarrow> string \<Rightarrow> inj_error + data option" where
  "path_data L C rd rn path \<equiv> spec_fetch L C rd rn (fst (path_version path)) (snd (path_version path))"

lemma inject_data_lookup:
  "inject_data L d = (None, em) \<Longrightarrow> map_of d k = Some v \<Longrightarrow> to_string_e L v = Inr s \<Longrightarrow> map_of em k = Some s"
  by (induction L d arbitrary: em rule: inject_data.induct)
     (auto split: sum.splits prod.splits if_splits)

lemma inject_data_keys: "inject_data L d = (None, em) \<Longrightarrow> map fst em = map fst d"
  by (induction L d arbitrary: em rule: inject_data.induct) (auto split: sum.splits prod.splits)

lemma inject_path_list_append:
  "inject_path_list L V C (xs @ ys) st = (None, em, st') \<Longrightarrow>
   \<exists>em1 st1 em2. inject_path_list L V C xs st = (None, em1, st1) \<and>
     inject_path_list L V C ys st1 = (None, em2, st') \<and> em = em1 @ em2"
proof (induction xs arbitrary: st em)
  case (Cons p xs)
  obtain q v where pv: "path_version p = (q, v)" by (cases "path_version p")
  obtain x st1 where x: "read_vault_path L V C q v False st = (x, st1)"
    by (cases "read_vault_path L V C q v False st")
  show ?case
  proof (cases x)
    case (Inl e)
    with Cons.prems pv x show ?thesis by simp
  next
    case (Inr d)
    show ?thesis
    proof (cases d)
      case None
      with Cons.prems pv x Inr have "ignore_missing_secrets C"
        "inject_path_list L V C (xs @ ys) (add_log [PathNotFoundWarn q] st1) = (None, em, st')"
        by (simp_all split: if_splits)
      with Cons.IH [of "add_log [PathNotFoundWarn q] st1" em] pv x Inr None show ?thesis by simp
    next
      case (Some kvs)
      obtain r emd where d: "inject_data L kvs = (r, emd)" by (cases "inject_data L kvs")
      obtain r' emr st2 where rest: "inject_path_list L V C (xs @ ys) st1 = (r', emr, st2)"
        by (cases "inject_path_list L V C (xs @ ys) st1")
      from Cons.prems pv x Inr Some d rest have "r = None" "r' = None" "em = emd @ emr" "st2 = st'"
        by (simp_all split: option.splits)
      with Cons.IH [of st1 emr] rest pv x Inr Some d show ?thesis by force
    qed
  qed
qed simp

lemma inject_path_list_Cons:
  assumes "stable_vault V rd rn tok" "inject_path_list L V C (p # ps) st = (None, em, st')"
  shows "\<exists>st1 em1 em2. inject_path_list L V C ps st1 = (None, em2, st') \<and> em = em1 @ em2 \<and>
    (case path_data L C rd rn p of
       Inr (Some d) \<Rightarrow> inject_data L d = (None, em1) | Inr None \<Rightarrow> em1 = [] | Inl _ \<Rightarrow> False)"
proof -
  obtain q v where pv: "path_version p = (q, v)" by (cases "path_version p")
  obtain x st1 where x: "read_vault_path L V C q v False st = (x, st1)"
    by (cases "read_vault_path L V C q v False st")
  with read_vault_path_spec [OF assms(1), of L C q v st] have "x = spec_fetch L C rd rn q v" by simp
  with assms(2) pv x show ?thesis
    by (auto split: prod.splits sum.splits option.splits if_splits)
qed

lemma inject_path_list_keys:
  assumes "stable_vault V rd rn tok" "inject_path_list L V C ps st = (None, em, st')" "k \<in> set (map fst em)"
  shows "\<exists>q \<in> set ps. \<exists>d. path_data L C rd rn q = Inr (Some d) \<and> k \<in> set (map fst d)"
  using assms(2,3)
proof (induction ps arbitrary: st em)
  case (Cons p ps)
  from inject_path_list_Cons [OF assms(1) Cons.prems(1)] obtain st1 em1 em2 where
    *: "inject_path_list L V C ps st1 = (None, em2, st')" "em = em1 @ em2"
      "case path_data L C rd rn p of
         Inr (Some d) \<Rightarrow> inject_data L d = (None, em1) | Inr None \<Rightarrow> em1 = [] | Inl _ \<Rightarrow> False" by blast
  show ?case
  proof (cases "k \<in> set (map fst em2)")
    case True
    with Cons.IH [OF *(1)] show ?thesis by auto
  next
    case False
    with * Cons.prems(2) have "k \<in> set (map fst em1)" by auto
    with *(3) obtain d where "path_data L C rd rn p = Inr (Some d)" "inject_data L d = (None, em1)"
      by (simp split: sum.splits option.splits)
    with inject_data_keys [of L d em1] \<open>k \<in> set (map fst em1)\<close> show ?thesis by (metis list.set_intros(1))
  qed
qed simp

subsection \<open>Properties\<close>

text \<open>C1: the injector refines its specification. From any state whose cache is coherent, with a
  Vault that answers the same request in the same way, injecting an environment without update
  references fails with the error, and emits the pairs, that resolving each entry by itself gives;
  and the cache is coherent again afterwards.\<close>

theorem inject_refines_spec:
  assumes "stable_vault V rd rn tok" "coherent (spec_fetch L C rd rn) st"
    and "list_all (\<lambda>nv. \<not> performs_update (snd nv)) refs"
    and "inject_secrets_from_vault L V C refs st = (r, em, st')"
  shows "r = fst (collect_refs (spec_of L C rd rn tok) refs) \<and>
    em = snd (collect_refs (spec_of L C rd rn tok) refs) \<and> coherent (spec_fetch L C rd rn) st'"
  using injector.outcome [of V rd rn tok L C st refs r em st'] assms by blast

theorem inject_refines_spec_witness:
  "\<exists>em st'. inject_secrets_from_vault kv_libs kv_store kv_config
      [(''A'', ''secrets-store:p#k''), (''B'', ''x${secrets-store:p#k}y'')] (new_secret_injector 0) =
        (None, em, st') \<and>
    em = snd (collect_refs (spec_of kv_libs kv_config (\<lambda>p v. Inr (map_of
      [(''p'', kv_secret [(''k'', VStr ''v'')])] p)) None ''tok'')
      [(''A'', ''secrets-store:p#k''), (''B'', ''x${secrets-store:p#k}y'')])"
proof -
  let ?refs = "[(''A'', ''secrets-store:p#k''), (''B'', ''x${secrets-store:p#k}y'')]"
  let ?run = "inject_secrets_from_vault kv_libs kv_store kv_config ?refs (new_secret_injector 0)"
  obtain r em st' where run: "?run = (r, em, st')" by (cases ?run)
  have "list_all (\<lambda>nv. \<not> performs_update (snd nv)) ?refs" by code_simp
  note inject_refines_spec [OF kv_stable coherent_new this run [unfolded kv_store_def]]
  moreover have "fst ?run = None" by code_simp
  ultimately show ?thesis using run by auto
qed

text \<open>C24: Go visits the environment in an arbitrary order, and without update references the result
  does not depend on it. Let no variable contain an update reference (\<open>>>secrets-store:\<close>, also not inside
  an inline reference) and let Vault answer the same request in the same way in both runs. Then two
  runs over the same variables in different orders, each from any coherent cache, both fail or both succeed, and
  when they succeed they inject the same value for every name. (An update reference writes to
  Vault, so with one the order can matter; the theorem says nothing of such an environment.)\<close>

theorem inject_order_independent:
  assumes "stable_vault V rd rn tok" "coherent (spec_fetch L C rd rn) s1" "coherent (spec_fetch L C rd rn) s2"
    and "list_all (\<lambda>nv. \<not> performs_update (snd nv)) refs" "distinct_keys refs" "mset refs = mset refs'"
    and "inject_secrets_from_vault L V C refs s1 = (r1, em1, t1)"
    and "inject_secrets_from_vault L V C refs' s2 = (r2, em2, t2)"
  shows "(r1 = None \<longleftrightarrow> r2 = None) \<and>
    (r1 = None \<longrightarrow> map_of (assign_all em1 []) = map_of (assign_all em2 []))"
  using injector.order_independent [of V rd rn tok L C s1 s2 refs refs' r1 em1 t1 r2 em2 t2] assms
  by blast

theorem inject_order_independent_witness:
  "\<exists>em1 em2 t1 t2.
     inject_secrets_from_vault kv_libs kv_store kv_config [(''A'', ''secrets-store:p#k''), (''B'', ''b'')]
       (new_secret_injector 0) = (None, em1, t1) \<and>
     inject_secrets_from_vault kv_libs kv_store kv_config [(''B'', ''b''), (''A'', ''secrets-store:p#k'')]
       (new_secret_injector 0) = (None, em2, t2) \<and>
     map_of (assign_all em1 []) = map_of (assign_all em2 [])"
proof -
  let ?a = "[(''A'', ''secrets-store:p#k''), (''B'', ''b'')]"
  let ?b = "[(''B'', ''b''), (''A'', ''secrets-store:p#k'')]"
  let ?run = "\<lambda>refs. inject_secrets_from_vault kv_libs kv_store kv_config refs (new_secret_injector 0)"
  obtain r1 em1 t1 where r1: "?run ?a = (r1, em1, t1)" by (cases "?run ?a")
  obtain r2 em2 t2 where r2: "?run ?b = (r2, em2, t2)" by (cases "?run ?b")
  have u: "list_all (\<lambda>nv. \<not> performs_update (snd nv)) ?a" by code_simp
  have d: "distinct_keys ?a" and m: "mset ?a = mset ?b" by simp_all
  have "fst (?run ?a) = None" by code_simp
  with r1 r2 inject_order_independent [OF kv_stable coherent_new coherent_new u d m
      r1 [unfolded kv_store_def] r2 [unfolded kv_store_def]]
  show ?thesis by auto
qed

text \<open>A value that is no reference reaches the process unchanged: after a successful run, the
  injected value of a variable whose value has neither prefix nor inline reference is that value,
  whatever Vault answers and whatever the other variables are.\<close>

theorem inject_passes_plain_values:
  assumes "distinct_keys refs" "inject_secrets_from_vault L V C refs st = (None, em, st')"
    and "map_of refs name = Some s" "\<not> is_valid_prefix s" "\<not> has_inline_vault_delimiters s"
  shows "map_of (assign_all em []) name = Some s"
proof -
  note run = assms(2) [unfolded inject_secrets_from_vault_def]
  from inject_refs_emits(3) [OF run refl map_of_SomeD [OF assms(3)] assms(4,5)]
    inject_refs_emits(2) [OF run assms(1)]
  show ?thesis by (simp add: map_of_assign_all map_of_rev_distinct)
qed

theorem inject_passes_plain_values_witness:
  "map_of (assign_all (fst (snd (inject_secrets_from_vault kv_libs kv_store kv_config
     [(''A'', ''>>secrets-store:p#k''), (''B'', ''b'')] (new_secret_injector 0)))) []) ''B'' = Some ''b''"
proof -
  let ?refs = "[(''A'', ''>>secrets-store:p#k''), (''B'', ''b'')]"
  let ?run = "inject_secrets_from_vault kv_libs kv_store kv_config ?refs (new_secret_injector 0)"
  obtain r em st' where run: "?run = (r, em, st')" by (cases ?run)
  moreover have "fst ?run = None" by code_simp
  ultimately have run': "?run = (None, em, st')" by simp
  have p: "\<not> is_valid_prefix ''b''" "\<not> has_inline_vault_delimiters ''b''" by code_simp+
  have "map_of (assign_all em []) ''B'' = Some ''b''"
    by (rule inject_passes_plain_values [OF _ run' _ p]) simp_all
  with run' show ?thesis by simp
qed

text \<open>Only update references write. For an environment without them the injector never consults
  the write call of the Vault client: replacing it by any other function changes nothing.\<close>

theorem inject_without_updates_never_writes:
  assumes "list_all (\<lambda>nv. \<not> performs_update (snd nv)) refs"
  shows "inject_secrets_from_vault L (V\<lparr>v_write := f\<rparr>) C refs st = inject_secrets_from_vault L V C refs st"
  unfolding inject_secrets_from_vault_def using assms by (rule inject_no_write)

theorem inject_without_updates_never_writes_witness:
  "inject_secrets_from_vault kv_libs (kv_store\<lparr>v_write := (\<lambda>p d w. (Inl (OtherError ''x''), w))\<rparr>) kv_config
     [(''A'', ''${secrets-store:p#k}'')] (new_secret_injector 0) =
   inject_secrets_from_vault kv_libs kv_store kv_config [(''A'', ''${secrets-store:p#k}'')] (new_secret_injector 0)"
proof (rule inject_without_updates_never_writes)
  show "list_all (\<lambda>nv. \<not> performs_update (snd nv)) [(''A'', ''${secrets-store:p#k}'')]" by code_simp
qed

text \<open>The filter of the secret watcher. A value that \<open>isUpdateReference\<close> rejects performs no
  Vault write when it is resolved, provided that no inline reference has another one inside.\<close>

theorem is_update_reference_complete:
  assumes "\<not> is_update_reference s"
    and "list_all (\<lambda>mg. \<not> has_inline_vault_delimiters (snd mg)) (find_inline_vault_delimiters s)"
  shows "\<not> performs_update s"
  using assms by (rule update_filter_complete)

theorem is_update_reference_complete_witness: "\<not> performs_update ''x${secrets-store:p#k}y''"
proof (rule is_update_reference_complete)
  show "\<not> is_update_reference ''x${secrets-store:p#k}y''" by code_simp
  show "list_all (\<lambda>mg. \<not> has_inline_vault_delimiters (snd mg))
     (find_inline_vault_delimiters ''x${secrets-store:p#k}y'')" by code_simp
qed

text \<open>The cache makes resolution idempotent. A reference that was resolved is resolved again to
  the same value, and the second time neither Vault nor the state of the injector changes; in
  particular an update reference writes once.\<close>

theorem resolved_reference_is_cached:
  assumes "resolve_plain L V C name s st = (Inr (Some x), st1)"
  shows "resolve_plain L V C name s st1 = (Inr (Some x), st1)"
  using assms by (rule resolve_plain_again)

theorem resolved_reference_is_cached_witness:
  "\<exists>st1. resolve_plain kv_libs kv_store kv_config ''A'' ''>>secrets-store:p#k'' (new_secret_injector 0) =
       (Inr (Some ''v''), st1) \<and>
     resolve_plain kv_libs kv_store kv_config ''A'' ''>>secrets-store:p#k'' st1 = (Inr (Some ''v''), st1)"
proof -
  let ?run = "resolve_plain kv_libs kv_store kv_config ''A'' ''>>secrets-store:p#k'' (new_secret_injector 0)"
  obtain r st1 where run: "?run = (r, st1)" by (cases ?run)
  moreover have "fst ?run = Inr (Some ''v'')" by code_simp
  ultimately have "?run = (Inr (Some ''v''), st1)" by simp
  with resolved_reference_is_cached [OF this] show ?thesis by blast
qed

text \<open>C38: among the paths of \<open>VAULT_ENV_FROM_PATH\<close> the later one takes precedence, as documented. Suppose that Vault answers
  the same request always in the same way and that all paths were injected. If the secret at a path of the list
  has a key (each key once, as in every Go map) and no path behind it has that key, then the value injected for the key is
  the one of that path, whatever the paths before it hold.\<close>

theorem later_path_wins:
  assumes "stable_vault V rd rn tok"
    and "inject_secrets_from_vault_path L V C paths st = (None, em, st')"
    and "split_on (CHR '','') paths = ps1 @ p # ps2"
    and "path_data L C rd rn p = Inr (Some d)" "distinct_keys d"
    and "map_of d k = Some v" "to_string_e L v = Inr s"
    and "\<And>q d'. q \<in> set ps2 \<Longrightarrow> path_data L C rd rn q = Inr (Some d') \<Longrightarrow> map_of d' k = None"
  shows "map_of (assign_all em []) k = Some s"
proof -
  from inject_path_list_append [of L V C ps1 "p # ps2" st em st'] assms(2,3)
  obtain em1 st1 emr where em: "em = em1 @ emr"
    and run: "inject_path_list L V C (p # ps2) st1 = (None, emr, st')"
    by (auto simp: inject_secrets_from_vault_path_def)
  from inject_path_list_Cons [OF assms(1) run] assms(4) obtain st2 emd em2 where
    run2: "inject_path_list L V C ps2 st2 = (None, em2, st')"
    and emr: "emr = emd @ em2" and dat: "inject_data L d = (None, emd)" by auto
  have "map_of (rev em2) k = None"
    using inject_path_list_keys [OF assms(1) run2, of k] assms(8)
    by (fastforce simp: map_of_eq_None_iff)
  moreover have "map_of (rev emd) k = Some s"
    using inject_data_lookup [OF dat assms(6,7)] inject_data_keys [OF dat] assms(5)
    by (simp add: map_of_rev_distinct)
  ultimately show ?thesis
    by (simp add: em emr map_of_assign_all map_add_def)
qed

theorem later_path_wins_witness:
  "map_of (assign_all (fst (snd (inject_secrets_from_vault_path kv_libs
      (kv_vault [(''p'', kv_secret [(''k'', VStr ''1'')]), (''q'', kv_secret [(''k'', VStr ''2'')])])
      kv_config ''p,q'' (new_secret_injector 0)))) []) ''k'' = Some ''2''"
proof -
  let ?tab = "[(''p'', kv_secret [(''k'', VStr ''1'')]), (''q'', kv_secret [(''k'', VStr ''2'')])]"
  let ?run = "inject_secrets_from_vault_path kv_libs (kv_vault ?tab) kv_config ''p,q'' (new_secret_injector 0)"
  obtain r em st' where run: "?run = (r, em, st')" by (cases ?run)
  moreover have "fst ?run = None" by code_simp
  ultimately have run': "?run = (None, em, st')" by simp
  have "split_on (CHR '','') ''p,q'' = [''p''] @ ''q'' # []" by simp
  moreover have "path_data kv_libs kv_config (\<lambda>p v. Inr (map_of ?tab p)) None ''q'' = Inr (Some [(''k'', VStr ''2'')])"
    by code_simp
  ultimately have "map_of (assign_all em []) ''k'' = Some ''2''"
    by (rule later_path_wins [OF kv_stable run', where v = "VStr ''2''"]) (simp_all add: kv_libs_def)
  with run' show ?thesis by simp
qed

end
