(* ===== verification/Go_Env.thy ===== *)
theory Go_Env
  imports Prelude
begin

text \<open>
  The process environment as package \<^verbatim>\<open>os\<close> keeps it: a list of \<open>name=value\<close> entries, in which the
  first entry of a name counts (the Go runtime drops the later ones when it starts).
\<close>

type_synonym environ = "string list"

definition env_entry :: "string \<Rightarrow> string \<Rightarrow> string" where
  "env_entry name v = name @ ''='' @ v"

fun env_lookup :: "environ \<Rightarrow> string \<Rightarrow> string option" where
  "env_lookup [] name = None"
| "env_lookup (e # es) name =
     (case break_at (CHR ''='') e of
        (n, Some v) \<Rightarrow> if n = name then Some v else env_lookup es name
      | (_, None) \<Rightarrow> env_lookup es name)"

text \<open>\<open>os.Getenv\<close>: the empty string for a name that is not set.\<close>

definition getenv :: "environ \<Rightarrow> string \<Rightarrow> string" where
  "getenv es name = (case env_lookup es name of Some v \<Rightarrow> v | None \<Rightarrow> [])"

text \<open>\<open>os.Unsetenv\<close> and \<open>os.Setenv\<close>: an entry is replaced in its place, a new one goes to the end.\<close>

fun unsetenv :: "string \<Rightarrow> environ \<Rightarrow> environ" where
  "unsetenv name [] = []"
| "unsetenv name (e # es) =
     (case break_at (CHR ''='') e of
        (n, Some _) \<Rightarrow> if n = name then es else e # unsetenv name es
      | (_, None) \<Rightarrow> e # unsetenv name es)"

fun setenv :: "string \<Rightarrow> string \<Rightarrow> environ \<Rightarrow> environ" where
  "setenv name v [] = [env_entry name v]"
| "setenv name v (e # es) =
     (case break_at (CHR ''='') e of
        (n, Some _) \<Rightarrow> if n = name then env_entry name v # es else e # setenv name v es
      | (_, None) \<Rightarrow> e # setenv name v es)"

lemma break_at_env_entry [simp]: "CHR ''='' \<notin> set name \<Longrightarrow> break_at (CHR ''='') (env_entry name v) = (name, Some v)"
  by (simp add: env_entry_def break_at_append)

lemma env_lookup_setenv:
  "CHR ''='' \<notin> set name \<Longrightarrow> env_lookup (setenv name v es) name' = (if name' = name then Some v else env_lookup es name')"
  by (induction es) (auto split: prod.splits option.splits)

lemma getenv_setenv:
  "CHR ''='' \<notin> set name \<Longrightarrow> getenv (setenv name v es) name' = (if name' = name then v else getenv es name')"
  by (simp add: getenv_def env_lookup_setenv)

lemma env_lookup_unsetenv_other: "name' \<noteq> name \<Longrightarrow> env_lookup (unsetenv name es) name' = env_lookup es name'"
  by (induction es) (auto split: prod.splits option.splits)

lemma env_lookup_entries:
  "\<forall>n \<in> fst ` set kvs. CHR ''='' \<notin> set n \<Longrightarrow> env_lookup (map (\<lambda>(n, v). env_entry n v) kvs) n = map_of kvs n"
  by (induction kvs) auto

end
