(* ===== verification/Client.thy ===== *)
theory Client
  imports Go_Env Vault_Iface
begin

text \<open>
  \<^verbatim>\<open>images/env-injector/client.go\<close>: the Vault client of the env-injector, its login and re-login.

  What the client calls outside of the repository is the record \<open>'w sys\<close>: the Vault API and the
  reading of files. The client keeps the token in the raw API client, that is, in the world \<open>'w\<close>.
  Every call that starts or stops the renewal of a token is recorded in \<open>watch_calls\<close>; the number of
  a watcher is its position among the watchers the client created, which stands for the identity of
  the pointer.
\<close>

datatype watch_call = WatcherStarted nat | WatcherStopped nat

datatype client_error =
    RawClientFailed string
  | TokenFileFailed string string
  | AuthConfigFailed string
  | LoginFailed api_error
  | ReloginFailed client_error
  | TokenWatcherFailed string
  | ClientClosed
  | StaticToken

record 'w sys =
  new_raw_client :: "'w \<Rightarrow> string option \<times> 'w"
  read_file :: "string \<Rightarrow> 'w \<Rightarrow> (string + string) \<times> 'w"
  set_token :: "string \<Rightarrow> 'w \<Rightarrow> 'w"
  new_kubernetes_auth :: "string \<Rightarrow> string option \<Rightarrow> string option \<Rightarrow> 'w \<Rightarrow> (string + nat) \<times> 'w"
  auth_login :: "nat \<Rightarrow> 'w \<Rightarrow> (api_error + secret option) \<times> 'w"
  new_lifetime_watcher :: "secret \<Rightarrow> 'w \<Rightarrow> string option \<times> 'w"
  to_bool :: "string \<Rightarrow> bool"

record client =
  token_watcher :: "nat option"
  closed :: bool
  long_running :: bool
  token_file :: string
  used_login :: bool
  watchers :: nat
  watch_calls :: "watch_call list"

definition vault_login :: string where "vault_login = ''vault:login''"

definition init_client :: client where
  "init_client = \<lparr>token_watcher = None, closed = False, long_running = False, token_file = '''',
     used_login = False, watchers = 0, watch_calls = []\<rparr>"

text \<open>\<open>Close\<close> stops the renewal; a stopped watcher may be stopped again.\<close>

definition close_client :: "client \<Rightarrow> client" where
  "close_client c =
     (let c1 = c\<lparr>closed := True\<rparr>
      in case token_watcher c1 of
           None \<Rightarrow> c1
         | Some n \<Rightarrow> c1\<lparr>watch_calls := watch_calls c1 @ [WatcherStopped n]\<rparr>)"

definition kubernetes_login ::
  "'w sys \<Rightarrow> environ \<Rightarrow> 'w \<Rightarrow> (client_error + secret option) \<times> 'w" where
  "kubernetes_login S env w =
     (let role = (if getenv env ''VAULT_ROLE'' = '''' then ''default'' else getenv env ''VAULT_ROLE'');
          path = (if getenv env ''VAULT_PATH'' = '''' then None else Some (getenv env ''VAULT_PATH''));
          jwt = (if getenv env ''VAULT_JWT_FILE'' = '''' then None else Some (getenv env ''VAULT_JWT_FILE''))
      in case new_kubernetes_auth S role path jwt w of
           (Inl e, w1) \<Rightarrow> (Inl (AuthConfigFailed e), w1)
         | (Inr auth, w1) \<Rightarrow>
             (case auth_login S auth w1 of
                (Inl e, w2) \<Rightarrow> (Inl (LoginFailed e), w2)
              | (Inr s, w2) \<Rightarrow> (Inr s, w2)))"

definition start_token_renewal ::
  "'w sys \<Rightarrow> secret \<Rightarrow> client \<Rightarrow> 'w \<Rightarrow> client_error option \<times> client \<times> 'w" where
  "start_token_renewal S sec c w =
     (case new_lifetime_watcher S sec w of
        (Some e, w1) \<Rightarrow> (Some (TokenWatcherFailed e), c, w1)
      | (None, w1) \<Rightarrow>
          (None, c\<lparr>token_watcher := Some (watchers c), watchers := watchers c + 1,
                   watch_calls := watch_calls c @ [WatcherStarted (watchers c)]\<rparr>, w1))"

text \<open>The renewal of the token a login returned, for a long-running client.\<close>

definition renew_login_token ::
  "'w sys \<Rightarrow> secret option \<Rightarrow> client \<Rightarrow> 'w \<Rightarrow> client_error option \<times> client \<times> 'w" where
  "renew_login_token S s c w =
     (case s of
        Some sec \<Rightarrow> if long_running c then start_token_renewal S sec c w else (None, c, w)
      | None \<Rightarrow> (None, c, w))"

text \<open>The last branch of \<open>newVaultClient\<close>: the Kubernetes login, without the marker in \<open>VAULT_TOKEN\<close>.\<close>

definition login_client ::
  "'w sys \<Rightarrow> environ \<Rightarrow> client \<Rightarrow> 'w \<Rightarrow> (client_error + client) \<times> environ \<times> 'w" where
  "login_client S env c w =
     (let env1 = (if getenv env ''VAULT_TOKEN'' = vault_login then unsetenv ''VAULT_TOKEN'' env else env)
      in case kubernetes_login S env1 w of
           (Inl e, w1) \<Rightarrow> (Inl e, env1, w1)
         | (Inr s, w1) \<Rightarrow>
             (case renew_login_token S s (c\<lparr>used_login := True\<rparr>) w1 of
                (Some e, _, w2) \<Rightarrow> (Inl e, env1, w2)
              | (None, c1, w2) \<Rightarrow> (Inr c1, env1, w2)))"

definition new_vault_client ::
  "'w sys \<Rightarrow> environ \<Rightarrow> 'w \<Rightarrow> (client_error + client) \<times> environ \<times> 'w" where
  "new_vault_client S env w =
     (case new_raw_client S w of
        (Some e, w1) \<Rightarrow> (Inl (RawClientFailed e), env, w1)
      | (None, w1) \<Rightarrow>
          (let restart_mode = getenv env ''VAULT_ENV_RESTART_ON_SECRET_CHANGE'';
               c = init_client\<lparr>long_running := to_bool S (getenv env ''VAULT_ENV_DAEMON'') \<or>
                 restart_mode = ''watch-for-data'' \<or> restart_mode = ''watch-for-lease''\<rparr>;
               token = getenv env ''VAULT_TOKEN'';
               is_login = (token = vault_login);
               tf = getenv env ''VAULT_TOKEN_FILE''
           in if tf \<noteq> '''' then
                (case read_file S tf w1 of
                   (Inl e, w2) \<Rightarrow> (Inl (TokenFileFailed tf e), env, w2)
                 | (Inr b, w2) \<Rightarrow> (Inr (c\<lparr>token_file := tf\<rparr>), env, set_token S (trim_space b) w2))
              else if token \<noteq> '''' \<and> \<not> is_login then (Inr c, env, set_token S token w1)
              else login_client S env c w1))"

definition stop_token_watcher :: "client \<Rightarrow> client" where
  "stop_token_watcher c =
     (case token_watcher c of
        None \<Rightarrow> c
      | Some n \<Rightarrow> c\<lparr>token_watcher := None, watch_calls := watch_calls c @ [WatcherStopped n]\<rparr>)"

definition relogin ::
  "'w sys \<Rightarrow> environ \<Rightarrow> client \<Rightarrow> 'w \<Rightarrow> client_error option \<times> client \<times> 'w" where
  "relogin S env c w =
     (if closed c then (Some ClientClosed, c, w)
      else if token_file c \<noteq> '''' then
        (case read_file S (token_file c) w of
           (Inl e, w1) \<Rightarrow> (Some (TokenFileFailed (token_file c) e), c, w1)
         | (Inr b, w1) \<Rightarrow> (None, c, set_token S (trim_space b) w1))
      else if used_login c then
        (case kubernetes_login S env w of
           (Inl e, w1) \<Rightarrow> (Some (ReloginFailed e), stop_token_watcher c, w1)
         | (Inr s, w1) \<Rightarrow> renew_login_token S s (stop_token_watcher c) w1)
      else (Some StaticToken, c, w))"

text \<open>
  \<open>runTokenRenewChecker\<close> reads the two channels of a watcher until it is done. A run is the list of
  what it receives; the result is what it logs.
\<close>

datatype renew_event = RenewDone "string option" | RenewOutput "int option"

datatype renew_log = RenewalError string | RenewedToken int

fun run_token_renew_checker :: "renew_event list \<Rightarrow> renew_log list" where
  "run_token_renew_checker [] = []"
| "run_token_renew_checker (RenewDone (Some e) # _) = [RenewalError e]"
| "run_token_renew_checker (RenewDone None # _) = []"
| "run_token_renew_checker (RenewOutput None # es) = run_token_renew_checker es"
| "run_token_renew_checker (RenewOutput (Some ttl) # es) = RenewedToken ttl # run_token_renew_checker es"

subsection \<open>At most one token is renewed\<close>

text \<open>The watchers that were started and not yet stopped.\<close>

fun active_after :: "nat set \<Rightarrow> watch_call \<Rightarrow> nat set" where
  "active_after A (WatcherStarted n) = insert n A"
| "active_after A (WatcherStopped n) = A - {n}"

definition active_watchers :: "client \<Rightarrow> nat set" where
  "active_watchers c = foldl active_after {} (watch_calls c)"

definition client_inv :: "client \<Rightarrow> bool" where
  "client_inv c \<longleftrightarrow>
     active_watchers c = (if closed c then {} else set_option (token_watcher c)) \<and>
     (\<forall>n. token_watcher c = Some n \<longrightarrow> n < watchers c) \<and>
     (token_watcher c \<noteq> None \<longrightarrow> used_login c \<and> long_running c)"

lemma active_watchers_snoc:
  "active_watchers (c\<lparr>watch_calls := watch_calls c @ [e]\<rparr>) = active_after (active_watchers c) e"
  by (simp add: active_watchers_def)

text \<open>A client exists from \<open>newVaultClient\<close> on and is used by \<open>Relogin\<close> and \<open>Close\<close>, under a process
  environment that may be changed in between.\<close>

inductive client_run :: "'w sys \<Rightarrow> client \<Rightarrow> 'w \<Rightarrow> bool" for S where
  created: "new_vault_client S env w = (Inr c, env', w') \<Longrightarrow> client_run S c w'"
| relogged: "client_run S c w \<Longrightarrow> relogin S env c w = (r, c', w') \<Longrightarrow> client_run S c' w'"
| closing: "client_run S c w \<Longrightarrow> client_run S (close_client c) w"
| world: "client_run S c w \<Longrightarrow> client_run S c w'"

lemma init_client_inv: "client_inv (init_client\<lparr>long_running := l, token_file := f, used_login := u\<rparr>)"
  by (simp add: client_inv_def init_client_def active_watchers_def)

lemma start_token_renewal_inv:
  assumes "client_inv c" "token_watcher c = None" "\<not> closed c" "used_login c" "long_running c"
    "start_token_renewal S sec c w = (r, c', w')"
  shows "client_inv c' \<and> \<not> closed c' \<and> used_login c' = used_login c"
  using assms
  by (auto simp: start_token_renewal_def client_inv_def active_watchers_def split: prod.splits option.splits)

lemma renew_login_token_inv:
  assumes "client_inv c" "token_watcher c = None" "\<not> closed c" "used_login c"
    "renew_login_token S s c w = (r, c', w')"
  shows "client_inv c' \<and> \<not> closed c' \<and> used_login c' = used_login c"
  using assms start_token_renewal_inv [of c S _ w r c' w']
  by (auto simp: renew_login_token_def split: option.splits if_splits)

lemma stop_token_watcher_inv:
  assumes "client_inv c" "\<not> closed c"
  shows "client_inv (stop_token_watcher c) \<and> token_watcher (stop_token_watcher c) = None \<and>
    closed (stop_token_watcher c) = closed c \<and> used_login (stop_token_watcher c) = used_login c"
  using assms
  by (auto simp: stop_token_watcher_def client_inv_def active_watchers_def split: option.splits)

lemma close_client_inv: "client_inv c \<Longrightarrow> client_inv (close_client c)"
  by (auto simp: close_client_def client_inv_def active_watchers_def Let_def split: option.splits if_splits)

lemma login_client_inv:
  assumes "client_inv (c\<lparr>used_login := True\<rparr>)" "token_watcher c = None" "\<not> closed c"
    "login_client S env c w = (Inr c1, env', w')"
  shows "client_inv c1 \<and> \<not> closed c1"
proof -
  from assms(4) obtain s w1 w2 where "renew_login_token S s (c\<lparr>used_login := True\<rparr>) w1 = (None, c1, w2)"
    unfolding login_client_def Let_def by (auto split: prod.splits option.splits sum.splits)
  from renew_login_token_inv [OF assms(1) _ _ _ this] assms(2,3) show ?thesis by simp
qed

lemma new_vault_client_inv:
  assumes "new_vault_client S env w = (Inr c, env', w')"
  shows "client_inv c \<and> \<not> closed c"
proof -
  have base: "client_inv (init_client\<lparr>long_running := l\<rparr>)"
    "client_inv (init_client\<lparr>long_running := l, token_file := f\<rparr>)"
    "client_inv (init_client\<lparr>long_running := l, used_login := True\<rparr>)" for l f
    by (simp_all add: client_inv_def init_client_def active_watchers_def)
  from assms obtain l f w1 where
    "c = init_client\<lparr>long_running := l, token_file := f\<rparr> \<or> c = init_client\<lparr>long_running := l\<rparr> \<or>
     login_client S env (init_client\<lparr>long_running := l\<rparr>) w1 = (Inr c, env', w')"
    unfolding new_vault_client_def Let_def
    by (auto split: prod.splits option.splits sum.splits if_splits)
  with base login_client_inv [of "init_client\<lparr>long_running := l\<rparr>" S env w1 c env' w'] show ?thesis
    by (auto simp: init_client_def)
qed

lemma relogin_inv:
  assumes "client_inv c" "relogin S env c w = (r, c', w')"
  shows "client_inv c'"
proof (cases "closed c")
  case True
  with assms show ?thesis by (simp add: relogin_def)
next
  case False
  with stop_token_watcher_inv [OF assms(1)] have st: "client_inv (stop_token_watcher c)"
    "token_watcher (stop_token_watcher c) = None" "\<not> closed (stop_token_watcher c)"
    "used_login (stop_token_watcher c) = used_login c" by simp_all
  from assms(2) False have "c' = c \<or> c' = stop_token_watcher c \<or>
      used_login c \<and> (\<exists>s w1. renew_login_token S s (stop_token_watcher c) w1 = (r, c', w'))"
    by (auto simp: relogin_def split: prod.splits sum.splits if_splits)
  then show ?thesis
  proof (elim disjE conjE exE)
    fix s w1
    assume "used_login c" "renew_login_token S s (stop_token_watcher c) w1 = (r, c', w')"
    with st renew_login_token_inv [of "stop_token_watcher c" S s w1 r c' w'] show ?thesis by simp
  qed (use assms(1) st in simp_all)
qed

lemma client_run_inv: "client_run S c w \<Longrightarrow> client_inv c"
  by (induction rule: client_run.induct) (auto dest: new_vault_client_inv relogin_inv intro: close_client_inv)

subsection \<open>Properties\<close>

text \<open>A Vault whose answer to a login depends on the number of logins before it.\<close>

definition login_sys :: "(nat \<Rightarrow> api_error + secret option) \<Rightarrow> nat sys" where
  "login_sys answer =
     \<lparr>new_raw_client = (\<lambda>w. (None, w)), read_file = (\<lambda>p w. (Inr '' t1 '', w)), set_token = (\<lambda>t w. w),
      new_kubernetes_auth = (\<lambda>r p j w. (Inr 0, w)), auth_login = (\<lambda>a w. (answer w, w + 1)),
      new_lifetime_watcher = (\<lambda>s w. (None, w)), to_bool = (\<lambda>s. s = ''true'')\<rparr>"

definition login_answer :: "nat \<Rightarrow> api_error + secret option" where
  "login_answer n = Inr (Some \<lparr>lease_duration = 60, renewable = True, sec_data = None, sec_warnings = []\<rparr>)"

definition one_login :: "nat \<Rightarrow> api_error + secret option" where
  "one_login n = (if n = 0 then login_answer n else Inl (OtherError ''down''))"

definition logged_in :: client where
  "logged_in = init_client\<lparr>long_running := True, used_login := True, token_watcher := Some 0,
     watchers := 1, watch_calls := [WatcherStarted 0]\<rparr>"

lemma logged_in_run:
  "client_run (login_sys login_answer) logged_in 1" "client_run (login_sys one_login) logged_in 1"
proof -
  have "new_vault_client (login_sys login_answer) [''VAULT_ENV_DAEMON=true''] 0 =
    (Inr logged_in, [''VAULT_ENV_DAEMON=true''], 1)" by code_simp
  then show "client_run (login_sys login_answer) logged_in 1" by (rule created)
  have "new_vault_client (login_sys one_login) [''VAULT_ENV_DAEMON=true''] 0 =
    (Inr logged_in, [''VAULT_ENV_DAEMON=true''], 1)" by code_simp
  then show "client_run (login_sys one_login) logged_in 1" by (rule created)
qed

text \<open>C22: the client never renews two tokens at once. Whatever the sequence of logins, re-logins and
  closes, at most one token watcher is running: the one the client holds, and none once the client
  is closed.\<close>

theorem one_token_watcher:
  assumes "client_run S c w"
  shows "active_watchers c = (if closed c then {} else set_option (token_watcher c))"
  using client_run_inv [OF assms] by (simp add: client_inv_def)

theorem one_token_watcher_witness:
  "\<exists>c. relogin (login_sys login_answer) [] logged_in 1 = (None, c, 2) \<and> active_watchers c = {1}"
proof -
  let ?c = "logged_in\<lparr>token_watcher := Some 1, watchers := 2,
    watch_calls := [WatcherStarted 0, WatcherStopped 0, WatcherStarted 1]\<rparr>"
  have run: "relogin (login_sys login_answer) [] logged_in 1 = (None, ?c, 2)" by code_simp
  with one_token_watcher [OF relogged [OF logged_in_run(1) run]] show ?thesis
    by (auto simp: logged_in_def init_client_def)
qed

text \<open>Re-login follows the way the client was authenticated. A closed client refuses; a client with
  a token file sets the trimmed contents of the file as its token and keeps its state; a client with
  a static token refuses; only the Kubernetes login changes which watchers run.\<close>

theorem relogin_by_configuration:
  "relogin S env (c\<lparr>closed := True\<rparr>) w = (Some ClientClosed, c\<lparr>closed := True\<rparr>, w) \<and>
   relogin S env (c\<lparr>closed := False, token_file := x # f\<rparr>) w =
     (case read_file S (x # f) w of
        (Inl e, w1) \<Rightarrow> (Some (TokenFileFailed (x # f) e), c\<lparr>closed := False, token_file := x # f\<rparr>, w1)
      | (Inr b, w1) \<Rightarrow> (None, c\<lparr>closed := False, token_file := x # f\<rparr>, set_token S (trim_space b) w1)) \<and>
   relogin S env (c\<lparr>closed := False, token_file := '''', used_login := False\<rparr>) w =
     (Some StaticToken, c\<lparr>closed := False, token_file := '''', used_login := False\<rparr>, w)"
  by (simp add: relogin_def split: prod.split sum.split)

text \<open>A failed Kubernetes re-login leaves no renewal running, and it can be retried: the client is
  still open and still a login client, so the next \<open>Relogin\<close> logs in again.\<close>

theorem failed_relogin_can_be_retried:
  assumes "client_run S c w0" "\<not> closed c" "token_file c = ''''" "used_login c"
    and "kubernetes_login S env w = (Inl e, w1)"
  shows "\<exists>c'. relogin S env c w = (Some (ReloginFailed e), c', w1) \<and> \<not> closed c' \<and> used_login c' \<and>
    token_file c' = '''' \<and> active_watchers c' = {} \<and> watchers c' = watchers c"
  using assms stop_token_watcher_inv [OF client_run_inv [OF assms(1)] assms(2)]
  by (auto simp: relogin_def client_inv_def stop_token_watcher_def split: option.splits)

theorem failed_relogin_can_be_retried_witness:
  "\<exists>c'. relogin (login_sys one_login) [] logged_in 1 =
       (Some (ReloginFailed (LoginFailed (OtherError ''down''))), c', 2) \<and> active_watchers c' = {}"
proof -
  have "kubernetes_login (login_sys one_login) [] 1 = (Inl (LoginFailed (OtherError ''down'')), 2)"
    by code_simp
  from failed_relogin_can_be_retried [OF logged_in_run(2) _ _ _ this]
  show ?thesis by (auto simp: logged_in_def init_client_def)
qed

end
