(* ===== verification/Sha256.thy ===== *)
theory Sha256
  imports Main "HOL-Library.Word"
begin

text \<open>
  SHA-256 as \<^verbatim>\<open>crypto/sha256\<close> computes it, over the bytes of a string: 32-bit words, so \<open>+\<close> wraps.
  The message is padded to blocks of sixteen words; a block is expanded to 64 words and folded into
  the eight words of the chaining state.
\<close>

unbundle bit_operations_syntax

type_synonym w32 = "32 word"
type_synonym chain = "w32 \<times> w32 \<times> w32 \<times> w32 \<times> w32 \<times> w32 \<times> w32 \<times> w32"

text \<open>The 64 round constants (the first 32 bits of the fractions of cube roots of primes), in decimal.\<close>

definition round_consts :: "w32 list" where
  "round_consts = [
    1116352408, 1899447441, 3049323471, 3921009573, 961987163, 1508970993, 2453635748, 2870763221,
    3624381080, 310598401, 607225278, 1426881987, 1925078388, 2162078206, 2614888103, 3248222580,
    3835390401, 4022224774, 264347078, 604807628, 770255983, 1249150122, 1555081692, 1996064986,
    2554220882, 2821834349, 2952996808, 3210313671, 3336571891, 3584528711, 113926993, 338241895,
    666307205, 773529912, 1294757372, 1396182291, 1695183700, 1986661051, 2177026350, 2456956037,
    2730485921, 2820302411, 3259730800, 3345764771, 3516065817, 3600352804, 4094571909, 275423344,
    430227734, 506948616, 659060556, 883997877, 958139571, 1322822218, 1537002063, 1747873779,
    1955562222, 2024104815, 2227730452, 2361852424, 2428436474, 2756734187, 3204031479, 3329325298]"

definition init_chain :: chain where
  "init_chain = (1779033703, 3144134277, 1013904242, 2773480762,
     1359893119, 2600822924, 528734635, 1541459225)"

text \<open>A number as eight bytes, the highest first: \<open>binary.BigEndian.PutUint64\<close>.\<close>

definition be64 :: "nat \<Rightarrow> string" where
  "be64 n = map (\<lambda>i. char_of (int n div 256 ^ i)) [7, 6, 5, 4, 3, 2, 1, 0]"

definition pad_message :: "string \<Rightarrow> string" where
  "pad_message m =
     m @ char_of (0x80 :: nat) # replicate ((119 - length m mod 64) mod 64) (char_of (0 :: nat)) @
     be64 (8 * length m)"

fun be_words :: "string \<Rightarrow> w32 list" where
  "be_words (a # b # c # d # bs) =
     word_of_int (((of_char a * 256 + of_char b) * 256 + of_char c) * 256 + of_char d) # be_words bs"
| "be_words _ = []"

fun expand_block :: "nat \<Rightarrow> w32 list \<Rightarrow> w32 list" where
  "expand_block 0 w = w"
| "expand_block (Suc n) w =
     (let a = w ! (length w - 2); b = w ! (length w - 15);
          s1 = word_rotr 17 a XOR word_rotr 19 a XOR drop_bit 10 a;
          s0 = word_rotr 7 b XOR word_rotr 18 b XOR drop_bit 3 b
      in expand_block n (w @ [s1 + w ! (length w - 7) + s0 + w ! (length w - 16)]))"

fun compress_round :: "chain \<Rightarrow> w32 \<times> w32 \<Rightarrow> chain" where
  "compress_round (a, b, c, d, e, f, g, h) (k, w) =
     (let s1 = word_rotr 6 e XOR word_rotr 11 e XOR word_rotr 25 e;
          ch = (e AND f) XOR (NOT e AND g);
          t1 = h + s1 + ch + k + w;
          s0 = word_rotr 2 a XOR word_rotr 13 a XOR word_rotr 22 a;
          maj = (a AND b) XOR (a AND c) XOR (b AND c)
      in (t1 + s0 + maj, a, b, c, d + t1, e, f, g))"

fun add_chain :: "chain \<Rightarrow> chain \<Rightarrow> chain" where
  "add_chain (a, b, c, d, e, f, g, h) (a', b', c', d', e', f', g', h') =
     (a + a', b + b', c + c', d + d', e + e', f + f', g + g', h + h')"

definition compress_block :: "chain \<Rightarrow> w32 list \<Rightarrow> chain" where
  "compress_block s w = add_chain s (foldl compress_round s (zip round_consts (expand_block 48 w)))"

fun fold_blocks :: "chain \<Rightarrow> nat \<Rightarrow> w32 list \<Rightarrow> chain" where
  "fold_blocks s 0 ws = s"
| "fold_blocks s (Suc n) ws = fold_blocks (compress_block s (take 16 ws)) n (drop 16 ws)"

definition word_bytes :: "w32 \<Rightarrow> string" where
  "word_bytes w = map (\<lambda>i. char_of (uint w div 256 ^ i)) [3, 2, 1, 0]"

definition sha256 :: "string \<Rightarrow> string" where
  "sha256 m =
     (let p = pad_message m
      in case fold_blocks init_chain (length p div 64) (be_words p) of
           (a, b, c, d, e, f, g, h) \<Rightarrow> concat (map word_bytes [a, b, c, d, e, f, g, h]))"

text \<open>\<open>hex.EncodeToString\<close>.\<close>

definition hex_digit :: "nat \<Rightarrow> char" where
  "hex_digit n = ''0123456789abcdef'' ! (n mod 16)"

definition hex_encode :: "string \<Rightarrow> string" where
  "hex_encode s = concat (map (\<lambda>c. [hex_digit (of_char c div 16), hex_digit (of_char c)]) s)"

subsection \<open>Facts\<close>

lemma length_sha256: "length (sha256 m) = 32"
  by (simp add: sha256_def Let_def word_bytes_def split: prod.splits)

lemma hex_digit_inj: "m < 16 \<Longrightarrow> n < 16 \<Longrightarrow> hex_digit m = hex_digit n \<Longrightarrow> m = n"
  by (simp add: hex_digit_def nth_eq_iff_index_eq)

lemma length_hex_encode [simp]: "length (hex_encode s) = 2 * length s"
  by (induction s) (simp_all add: hex_encode_def)

lemma hex_encode_inj: "hex_encode s = hex_encode t \<longleftrightarrow> s = t"
proof (induction s arbitrary: t)
  case Nil
  then show ?case by (cases t) (simp_all add: hex_encode_def)
next
  case (Cons c s)
  show ?case
  proof (cases t)
    case (Cons d t')
    have "c = d" if "hex_digit (of_char c div 16) = hex_digit (of_char d div 16)"
      "hex_digit (of_char c) = hex_digit (of_char d)"
    proof -
      have "(of_char c :: nat) div 16 = of_char d div 16"
        using that(1) by (intro hex_digit_inj) (simp_all add: less_mult_imp_div_less)
      moreover have "(of_char c :: nat) mod 16 = of_char d mod 16"
        using that(2) by (intro hex_digit_inj) (simp_all add: hex_digit_def)
      ultimately have "(of_char c :: nat) = of_char d" by (metis div_mult_mod_eq)
      then show ?thesis by simp
    qed
    with Cons Cons.IH [of t'] show ?thesis by (auto simp: hex_encode_def)
  qed (simp add: hex_encode_def)
qed

lemma length_be64 [simp]: "length (be64 n) = 8"
  by (simp add: be64_def)

lemma be64_inj: "m < 2 ^ 64 \<Longrightarrow> n < 2 ^ 64 \<Longrightarrow> be64 m = be64 n \<Longrightarrow> m = n"
proof -
  assume lt: "m < 2 ^ 64" "n < 2 ^ 64" and eq: "be64 m = be64 n"
  have "int m mod 256 ^ i = int n mod 256 ^ i" if "i \<le> 8" for i
    using that
  proof (induction i)
    case (Suc i)
    then have "i \<in> set [7, 6, 5, 4, 3, 2, 1, 0]" by auto
    with eq have "char_of (int m div 256 ^ i) = (char_of (int n div 256 ^ i) :: char)"
      unfolding be64_def map_eq_conv by blast
    then have "of_char (char_of (int m div 256 ^ i)) = (of_char (char_of (int n div 256 ^ i)) :: int)"
      by (rule arg_cong)
    then have "int m div 256 ^ i mod 256 = int n div 256 ^ i mod 256" by (simp only: of_char_of)
    moreover have "k mod 256 ^ Suc i = 256 ^ i * (k div 256 ^ i mod 256) + k mod 256 ^ i" for k :: int
      by (metis zmod_zmult2_eq zero_le_numeral zero_le_power mult.commute power_Suc)
    ultimately show ?case using Suc by simp
  qed simp
  from this [of 8] lt show "m = n" by simp
qed

text \<open>The test vector \<open>abc\<close> of the standard.\<close>

lemma sha256_abc:
  "hex_encode (sha256 ''abc'') = ''ba7816bf8f01cfea414140de5dae2223b00361a396177a9cb410ff61f20015ad''"
  by code_simp

end
