(* ===== verification/Secrets_Hash.thy ===== *)
theory Secrets_Hash
  imports Prelude Sha256 "HOL-Library.Multiset" "HOL-Library.List_Lexorder" "HOL-Library.Char_ord"
begin

text \<open>
  \<^verbatim>\<open>images/env-injector/hash.go\<close>: the digest of the resolved secrets that the change watcher compares.

  The keys are sorted (bytewise, as \<open>sort.Strings\<close> does), and key and value are written to SHA-256,
  each behind its length in eight bytes. The locale \<open>map_digest\<close> is what the watcher needs of a digest:
  it is a function of the map and not of the order in which Go visits it, and equal digests mean equal
  maps unless two inputs of the hash collide.
\<close>

subsection \<open>The digest\<close>

definition write_field :: "string \<Rightarrow> string" where
  "write_field s = be64 (length s) @ s"

definition sorted_keys :: "str_map \<Rightarrow> string list" where
  "sorted_keys m = sort (map fst m)"

definition encode_secrets :: "str_map \<Rightarrow> string" where
  "encode_secrets m =
     concat (map (\<lambda>k. write_field k @ write_field (str_get m k)) (sorted_keys m))"

definition compute_secrets_hash :: "str_map \<Rightarrow> string" where
  "compute_secrets_hash m = (if m = [] then '''' else hex_encode (sha256 (encode_secrets m)))"

lemma distinct_keys_mset: "mset m = mset m' \<Longrightarrow> distinct_keys m = distinct_keys m'"
  by (metis mset_eq_imp_distinct_iff mset_map)

subsection \<open>The interface of a digest of maps\<close>

text \<open>\<open>good\<close> are the maps of the program: keys are distinct and lengths fit into 64 bits.\<close>

locale map_digest =
  fixes digest :: "str_map \<Rightarrow> string"
    and good :: "str_map \<Rightarrow> bool"
    and collision :: "str_map \<Rightarrow> str_map \<Rightarrow> bool"
  assumes digest_map: "distinct_keys m \<Longrightarrow> distinct_keys m' \<Longrightarrow> map_of m = map_of m' \<Longrightarrow> digest m = digest m'"
    and good_distinct: "good m \<Longrightarrow> distinct_keys m"
    and digest_inj: "good m \<Longrightarrow> good m' \<Longrightarrow> digest m = digest m' \<Longrightarrow>
      map_of m = map_of m' \<or> collision m m'"
begin

text \<open>The comparison with a stored digest: it sees every change of a value, up to a collision, and
  nothing else.\<close>

lemma unchanged_iff:
  assumes "good m" "good m'" "\<not> collision m m'"
  shows "digest m = digest m' \<longleftrightarrow> map_of m = map_of m'"
  using assms digest_map digest_inj good_distinct by blast

lemma reordered: "distinct_keys m \<Longrightarrow> mset m = mset m' \<Longrightarrow> digest m = digest m'"
proof (rule digest_map)
  assume d: "distinct_keys m" and eq: "mset m = mset m'"
  then show d': "distinct_keys m'" by (metis distinct_keys_mset)
  from eq have "set m = set m'" by (metis set_mset_mset)
  with d d' show "map_of m = map_of m'" by (simp add: map_of_inject_set)
qed

end

subsection \<open>The hash is such a digest\<close>

definition good_secrets :: "str_map \<Rightarrow> bool" where
  "good_secrets m \<longleftrightarrow> distinct_keys m \<and>
     list_all (\<lambda>(k, v). length k < 2 ^ 64 \<and> length v < 2 ^ 64) m"

text \<open>A collision of SHA-256 on the encodings of the two maps.\<close>

definition sha_collision :: "str_map \<Rightarrow> str_map \<Rightarrow> bool" where
  "sha_collision m m' \<longleftrightarrow>
     encode_secrets m \<noteq> encode_secrets m' \<and> sha256 (encode_secrets m) = sha256 (encode_secrets m')"

lemma write_field_cong:
  assumes "length a < 2 ^ 64" "length b < 2 ^ 64" "write_field a @ x = write_field b @ y"
  shows "a = b \<and> x = y"
proof -
  have "be64 (length a) = be64 (length b)" "a @ x = b @ y"
    using assms(3) by (simp_all add: write_field_def)
  with be64_inj [OF assms(1,2)] show ?thesis by simp
qed

lemma fields_inj:
  assumes "\<forall>f \<in> set fs \<union> set gs. length f < 2 ^ 64" "concat (map write_field fs) = concat (map write_field gs)"
  shows "fs = gs"
  using assms
proof (induction fs arbitrary: gs)
  case Nil
  then show ?case by (cases gs) (auto simp: write_field_def be64_def)
next
  case (Cons f fs)
  show ?case
  proof (cases gs)
    case Nil
    with Cons.prems(2) show ?thesis by (auto simp: write_field_def be64_def)
  next
    case (Cons g gs')
    with Cons.prems write_field_cong [of f g "concat (map write_field fs)" "concat (map write_field gs')"]
    have "f = g" "concat (map write_field fs) = concat (map write_field gs')" by auto
    with Cons Cons.IH [of gs'] Cons.prems(1) show ?thesis by simp
  qed
qed

definition fields :: "str_map \<Rightarrow> string list" where
  "fields m = concat (map (\<lambda>k. [k, str_get m k]) (sorted_keys m))"

lemma encode_secrets_fields: "encode_secrets m = concat (map write_field (fields m))"
proof -
  have "concat (map (\<lambda>k. write_field k @ write_field (f k)) ks) =
      concat (map write_field (concat (map (\<lambda>k. [k, f k]) ks)))" for f ks
    by (induction ks) simp_all
  then show ?thesis unfolding encode_secrets_def fields_def .
qed

lemma pairs_inj: "concat (map (\<lambda>k. [k, f k]) ks) = concat (map (\<lambda>k. [k, g k]) ls) \<longleftrightarrow>
  ks = ls \<and> (\<forall>k \<in> set ks. f k = g k)"
  by (induction ks ls rule: list_induct2') auto

lemma fields_bounded: "good_secrets m \<Longrightarrow> f \<in> set (fields m) \<Longrightarrow> length f < 2 ^ 64"
  by (fastforce simp: good_secrets_def fields_def sorted_keys_def list_all_iff str_get_def)

lemma encode_secrets_inj:
  assumes "good_secrets m" "good_secrets m'" "encode_secrets m = encode_secrets m'"
  shows "map_of m = map_of m'"
proof -
  have "fields m = fields m'"
    using assms fields_bounded by (intro fields_inj) (auto simp: encode_secrets_fields)
  then have keys: "set (map fst m) = set (map fst m')"
    and vals: "\<forall>k \<in> set (map fst m). str_get m k = str_get m' k"
    unfolding fields_def pairs_inj by (metis set_sort sorted_keys_def)+
  show ?thesis
  proof
    fix k
    show "map_of m k = map_of m' k"
    proof (cases "k \<in> set (map fst m)")
      case True
      with keys have "map_of m k \<noteq> None" "map_of m' k \<noteq> None" by (simp_all add: map_of_eq_None_iff)
      with vals True show ?thesis by (auto simp: str_get_def)
    next
      case False
      with keys have "map_of m k = None" "map_of m' k = None" by (simp_all add: map_of_eq_None_iff)
      then show ?thesis by simp
    qed
  qed
qed

lemma encode_secrets_map:
  assumes "distinct_keys m" "distinct_keys m'" "map_of m = map_of m'"
  shows "encode_secrets m = encode_secrets m'"
proof -
  have "set (map fst m) = set (map fst m')"
    using assms(3) by (simp flip: dom_map_of_conv_image_fst)
  with assms(1,2) have "sorted_keys m = sorted_keys m'"
    unfolding sorted_keys_def by (intro sorted_distinct_set_unique) simp_all
  with assms(3) show ?thesis by (simp add: encode_secrets_def str_get_def)
qed

lemma compute_secrets_hash_nonempty: "m \<noteq> [] \<Longrightarrow> length (compute_secrets_hash m) = 64"
  by (simp add: compute_secrets_hash_def length_sha256)

interpretation secrets_hash: map_digest compute_secrets_hash good_secrets sha_collision
proof
  fix m m' :: str_map
  assume dist: "distinct_keys m" "distinct_keys m'" and eq: "map_of m = map_of m'"
  then have "m = [] \<longleftrightarrow> m' = []" by (metis map_of_eq_empty_iff)
  moreover have "encode_secrets m = encode_secrets m'"
    using dist eq by (rule encode_secrets_map)
  ultimately show "compute_secrets_hash m = compute_secrets_hash m'"
    by (simp add: compute_secrets_hash_def)
next
  show "good_secrets m \<Longrightarrow> distinct_keys m" for m by (simp add: good_secrets_def)
next
  fix m m' :: str_map
  assume good: "good_secrets m" "good_secrets m'" and eq: "compute_secrets_hash m = compute_secrets_hash m'"
  have "m = [] \<longleftrightarrow> m' = []"
    using compute_secrets_hash_nonempty [of m] compute_secrets_hash_nonempty [of m'] eq
    by (cases "m = []"; cases "m' = []") (simp_all add: compute_secrets_hash_def)
  with eq encode_secrets_inj [OF good] show "map_of m = map_of m' \<or> sha_collision m m'"
    by (auto simp: compute_secrets_hash_def hex_encode_inj sha_collision_def split: if_splits)
qed

subsection \<open>Properties\<close>

text \<open>The digest does not depend on the order in which Go iterates over the map: two visits of the
  same entries in different orders give the same digest.\<close>

theorem hash_order_independent:
  assumes "distinct_keys m" "mset m = mset m'"
  shows "compute_secrets_hash m = compute_secrets_hash m'"
  using assms by (rule secrets_hash.reordered)

theorem hash_order_independent_witness:
  "compute_secrets_hash [(''A'', ''1''), (''B'', ''2'')] = compute_secrets_hash [(''B'', ''2''), (''A'', ''1'')]"
  by (rule hash_order_independent) simp_all

text \<open>C10: the digest identifies the secrets. Two sets of secrets with the same digest have the same
  keys and the same values, or their encodings are a collision of SHA-256: moving a byte from a key
  to its value, or between entries, cannot give the same input.\<close>

theorem hash_reflects_secrets:
  assumes "good_secrets m" "good_secrets m'" "compute_secrets_hash m = compute_secrets_hash m'"
  shows "map_of m = map_of m' \<or>
    (\<exists>x y. x \<noteq> y \<and> x = encode_secrets m \<and> y = encode_secrets m' \<and> sha256 x = sha256 y)"
  using secrets_hash.digest_inj [OF assms] by (simp add: sha_collision_def)

theorem hash_reflects_secrets_witness:
  "map_of [(''A'', ''1''), (''B'', ''2'')] = map_of [(''B'', ''2''), (''A'', ''1'')] \<or>
    (\<exists>x y. x \<noteq> y \<and> x = encode_secrets [(''A'', ''1''), (''B'', ''2'')] \<and>
       y = encode_secrets [(''B'', ''2''), (''A'', ''1'')] \<and> sha256 x = sha256 y)"
  by (rule hash_reflects_secrets) (simp_all add: good_secrets_def secrets_hash.reordered)

end
