(* ===== verification/Startup.thy ===== *)
theory Startup
  imports Injector_Spec Client Secrets_Hash
begin

text \<open>
  \<^verbatim>\<open>images/env-injector/main.go\<close> up to the start of the application: the command line, the modes, the
  client, the resolved and sanitized environment, and the plan of the secret watcher.

  \<open>'w os\<close> holds what \<open>main\<close> calls outside of the repository; \<open>visit n\<close> is the order in which the
  loop number \<open>n\<close> of this run iterates over a Go map. Every error of this phase ends the process with exit code 1.
\<close>

record 'w os =
  look_path :: "string \<Rightarrow> 'w \<Rightarrow> string option \<times> 'w"
  open_source :: "'w \<Rightarrow> bool \<times> 'w"
  create_destination :: "'w \<Rightarrow> bool \<times> 'w"
  copy_contents :: "'w \<Rightarrow> bool \<times> 'w"
  chmod_destination :: "'w \<Rightarrow> bool \<times> 'w"
  to_duration :: "string \<Rightarrow> int"
  revoke_self :: "string \<Rightarrow> 'w \<Rightarrow> string option \<times> 'w"
  visit :: "nat \<Rightarrow> str_map \<Rightarrow> str_map"

subsection \<open>The sanitized environment\<close>

text \<open>The variables of the Vault client and of the injector; \<open>True\<close> marks those a login passes on.\<close>

definition sanitize_envmap :: "(string, bool) go_map" where
  "sanitize_envmap = [
    (''VAULT_TOKEN'', True), (''VAULT_ADDR'', True), (''VAULT_AGENT_ADDR'', True),
    (''VAULT_CACERT'', True), (''VAULT_CAPATH'', True), (''VAULT_CLIENT_CERT'', True),
    (''VAULT_CLIENT_KEY'', True), (''VAULT_CLIENT_TIMEOUT'', True), (''VAULT_SRV_LOOKUP'', True),
    (''VAULT_SKIP_VERIFY'', True), (''VAULT_NAMESPACE'', True), (''VAULT_TLS_SERVER_NAME'', True),
    (''VAULT_WRAP_TTL'', True), (''VAULT_MFA'', True), (''VAULT_MAX_RETRIES'', True),
    (''VAULT_CLUSTER_ADDR'', False), (''VAULT_REDIRECT_ADDR'', False), (''VAULT_CLI_NO_COLOR'', False),
    (''VAULT_RATE_LIMIT'', False), (''VAULT_ROLE'', False), (''VAULT_PATH'', False),
    (''VAULT_AUTH_METHOD'', False), (''VAULT_JWT_FILE'', False),
    (''VAULT_IGNORE_MISSING_SECRETS'', False), (''VAULT_ENV_PASSTHROUGH'', False),
    (''VAULT_JSON_LOG'', False), (''VAULT_LOG_LEVEL'', False), (''VAULT_REVOKE_TOKEN'', False),
    (''VAULT_ENV_DAEMON'', False), (''VAULT_ENV_FROM_PATH'', False), (''VAULT_ENV_DELAY'', False),
    (''VAULT_ENV_RESTART_ON_SECRET_CHANGE'', False), (''VAULT_ENV_SECRET_POLL_INTERVAL'', False)]"

record sanitized_environ =
  env_list :: environ
  env_login :: bool

definition env_allowed :: "(string, bool) go_map \<Rightarrow> bool \<Rightarrow> string \<Rightarrow> bool" where
  "env_allowed tab is_login name =
     (case map_of tab name of None \<Rightarrow> True | Some lg \<Rightarrow> is_login \<and> lg)"

definition sanitized_append ::
  "(string, bool) go_map \<Rightarrow> sanitized_environ \<Rightarrow> string \<times> string \<Rightarrow> sanitized_environ" where
  "sanitized_append tab e nv =
     (case nv of (name, v) \<Rightarrow>
        if env_allowed tab (env_login e) name then e\<lparr>env_list := env_list e @ [env_entry name v]\<rparr> else e)"

definition passthrough_names :: "environ \<Rightarrow> bool \<Rightarrow> string list" where
  "passthrough_names env is_login =
     split_on (CHR '','') (getenv env ''VAULT_ENV_PASSTHROUGH'') @
     (if is_login then [''VAULT_TOKEN''] else [])"

definition drop_passthrough :: "string list \<Rightarrow> (string, bool) go_map \<Rightarrow> (string, bool) go_map" where
  "drop_passthrough names tab =
     foldl (\<lambda>t n. if trim_space n \<noteq> '''' then AList.delete (trim_space n) t else t) tab names"

subsection \<open>Command line and modes\<close>

datatype startup_error =
    CopyFailed
  | BinaryNotFound string
  | ClientFailed client_error
  | EnvironPanic
  | InjectFailed inj_error
  | InjectPathFailed inj_error

text \<open>The copy of the binary to the shared volume, step by step; the result is the exit code.\<close>

definition self_copy :: "'w os \<Rightarrow> 'w \<Rightarrow> int \<times> 'w" where
  "self_copy P w =
     (case open_source P w of
        (False, w1) \<Rightarrow> (1, w1)
      | (True, w1) \<Rightarrow>
          (case create_destination P w1 of
             (False, w2) \<Rightarrow> (1, w2)
           | (True, w2) \<Rightarrow>
               (case copy_contents P w2 of
                  (False, w3) \<Rightarrow> (1, w3)
                | (True, w3) \<Rightarrow>
                    (case chmod_destination P w3 of
                       (False, w4) \<Rightarrow> (1, w4)
                     | (True, w4) \<Rightarrow> (0, w4)))))"

datatype command = ExitNow int | SelfCopy | RunEntrypoint string "string list"

definition parse_command :: "string list \<Rightarrow> command" where
  "parse_command args =
     (case args of
        [] \<Rightarrow> ExitNow 1
      | c # rest \<Rightarrow>
          if rest = [] \<and> c = ''--dummy-run'' then ExitNow 0
          else if rest = [] \<and> c = ''--self-copy'' then SelfCopy
          else RunEntrypoint c rest)"

record run_modes =
  daemon_run :: bool
  watch_data :: bool
  delay_exec :: int
  poll_interval :: int

definition read_modes :: "'w sys \<Rightarrow> 'w os \<Rightarrow> environ \<Rightarrow> run_modes" where
  "read_modes S P env =
     (let restart = getenv env ''VAULT_ENV_RESTART_ON_SECRET_CHANGE'';
          daemon = (to_bool S (getenv env ''VAULT_ENV_DAEMON'') \<or> restart = ''watch-for-lease'');
          watch = (restart = ''watch-for-data'');
          poll = to_duration P (getenv env ''VAULT_ENV_SECRET_POLL_INTERVAL'')
      in \<lparr>daemon_run = daemon, watch_data = watch,
          delay_exec = to_duration P (getenv env ''VAULT_ENV_DELAY''),
          poll_interval = (if watch \<and> poll \<le> 0 then 120 * 10 ^ 9 else poll)\<rparr>)"

subsection \<open>Resolving the environment\<close>

text \<open>\<open>os.Environ()\<close> as a map; an entry without \<open>=\<close> makes \<open>split[1]\<close> panic.\<close>

fun parse_environ :: "environ \<Rightarrow> str_map \<Rightarrow> str_map option" where
  "parse_environ [] m = Some m"
| "parse_environ (e # es) m =
     (case split_n 2 (CHR ''='') e of
        name # v # _ \<Rightarrow> parse_environ es (AList.update name v m)
      | _ \<Rightarrow> None)"

text \<open>\<open>Renew\<close> without the goroutine it starts, which belongs to the running process.\<close>

definition daemon_renew :: "'w sys \<Rightarrow> string \<Rightarrow> secret \<Rightarrow> 'w \<Rightarrow> api_error option \<times> 'w" where
  "daemon_renew S path sec w =
     (case new_lifetime_watcher S sec w of
        (Some e, w1) \<Rightarrow> (Some (OtherError e), w1)
      | (None, w1) \<Rightarrow> (None, w1))"

text \<open>The references and then the paths, both into one map: \<open>secretsSet\<close>.\<close>

definition inject_all ::
  "libs \<Rightarrow> 'w vault \<Rightarrow> config \<Rightarrow> str_map \<Rightarrow> string \<Rightarrow> 'w inj_st \<Rightarrow> (startup_error + str_map) \<times> 'w inj_st" where
  "inject_all L V C refs paths st =
     (case inject_secrets_from_vault L V C refs st of
        (Some e, _, st1) \<Rightarrow> (Inl (InjectFailed e), st1)
      | (None, em, st1) \<Rightarrow>
          if paths = '''' then (Inr (assign_all em []), st1)
          else (case inject_secrets_from_vault_path L V C paths st1 of
                  (Some e, _, st2) \<Rightarrow> (Inl (InjectPathFailed e), st2)
                | (None, em', st2) \<Rightarrow> (Inr (assign_all em' (assign_all em [])), st2)))"

subsection \<open>The plan of the watcher\<close>

text \<open>The loop over the templates: an update reference leaves the baseline, the others are watched.\<close>

fun watch_templates :: "str_map \<Rightarrow> str_map \<Rightarrow> str_map \<Rightarrow> str_map \<times> str_map" where
  "watch_templates [] baseline watched = (baseline, watched)"
| "watch_templates ((name, v) # ts) baseline watched =
     (if is_update_reference v then watch_templates ts (AList.delete name baseline) watched
      else watch_templates ts baseline (AList.update name v watched))"

definition has_watched_secrets :: "string \<Rightarrow> str_map \<Rightarrow> bool" where
  "has_watched_secrets paths watched \<longleftrightarrow> paths \<noteq> '''' \<or>
     list_ex (\<lambda>(n, v). is_valid_prefix v \<or> has_inline_vault_delimiters v) watched"

record watch_plan =
  plan_active :: bool
  plan_templates :: str_map
  plan_hash :: string

definition make_watch_plan :: "'w os \<Rightarrow> bool \<Rightarrow> str_map \<Rightarrow> str_map \<Rightarrow> string \<Rightarrow> watch_plan" where
  "make_watch_plan P watch templates secrets paths =
     (if \<not> watch then \<lparr>plan_active = False, plan_templates = [], plan_hash = ''''\<rparr>
      else (case watch_templates (visit P 1 templates) (clone_map (visit P 2 secrets)) [] of
              (baseline, watched) \<Rightarrow>
                \<lparr>plan_active = has_watched_secrets paths watched, plan_templates = watched,
                 plan_hash = compute_secrets_hash baseline\<rparr>))"

text \<open>Revoking the token: only when nothing needs the client any more.\<close>

definition revoke_token ::
  "'w sys \<Rightarrow> 'w os \<Rightarrow> 'w vault \<Rightarrow> environ \<Rightarrow> bool \<Rightarrow> client \<Rightarrow> 'w \<Rightarrow> client \<times> 'w" where
  "revoke_token S P V env active c w =
     (if to_bool S (getenv env ''VAULT_REVOKE_TOKEN'') \<and> \<not> active
      then (close_client c, snd (revoke_self P (v_token V w) w))
      else (c, w))"

subsection \<open>main, up to the start of the application\<close>

record launch =
  launch_binary :: string
  launch_args :: "string list"
  child_env :: environ
  launch_daemon :: bool
  launch_plan :: watch_plan
  launch_paths :: string
  launch_poll :: int
  launch_delay :: int
  launch_config :: config
  launch_client :: client

definition main_prepare ::
  "libs \<Rightarrow> 'w vault \<Rightarrow> 'w sys \<Rightarrow> 'w os \<Rightarrow> environ \<Rightarrow> string \<Rightarrow> string list \<Rightarrow> 'w \<Rightarrow>
   (startup_error + launch) \<times> environ \<times> 'w" where
  "main_prepare L V S P env cmd args w =
     (let m = read_modes S P env
      in case look_path P cmd w of
           (None, w1) \<Rightarrow> (Inl (BinaryNotFound cmd), env, w1)
         | (Some bin, w1) \<Rightarrow>
             (let C = \<lparr>ignore_missing_secrets = to_bool S (getenv env ''VAULT_IGNORE_MISSING_SECRETS''),
                       daemon_mode = daemon_run m\<rparr>;
                  is_login = (getenv env ''VAULT_TOKEN'' = vault_login)
              in case new_vault_client S env w1 of
                   (Inl e, env1, w2) \<Rightarrow> (Inl (ClientFailed e), env1, w2)
                 | (Inr c, env1, w2) \<Rightarrow>
                     (let names = passthrough_names env1 is_login;
                          env2 = (if is_login then setenv ''VAULT_TOKEN'' vault_login env1 else env1);
                          tab = drop_passthrough names sanitize_envmap;
                          V1 = V\<lparr>renewer := (if daemon_run m then Some (daemon_renew S) else None)\<rparr>;
                          paths = getenv env2 ''VAULT_ENV_FROM_PATH''
                      in case parse_environ env2 [] of
                           None \<Rightarrow> (Inl EnvironPanic, env2, w2)
                         | Some environ \<Rightarrow>
                             (case inject_all L V1 C (visit P 0 environ) paths (new_secret_injector w2) of
                                (Inl e, st) \<Rightarrow> (Inl e, env2, world st)
                              | (Inr secrets, st) \<Rightarrow>
                                  (let plan = make_watch_plan P (watch_data m) environ secrets paths
                                   in case revoke_token S P V env2 (daemon_run m \<or> plan_active plan) c (world st) of
                                        (c1, w3) \<Rightarrow>
                                          (Inr \<lparr>launch_binary = bin, launch_args = args,
                                                child_env = env_list (foldl (sanitized_append tab)
                                                  \<lparr>env_list = [], env_login = is_login\<rparr> (visit P 3 secrets)),
                                                launch_daemon = daemon_run m, launch_plan = plan,
                                                launch_paths = paths, launch_poll = poll_interval m,
                                                launch_delay = delay_exec m, launch_config = C,
                                                launch_client = c1\<rparr>, env2, w3))))))"

subsection \<open>Lemmas\<close>

lemma sanitized_append_all:
  "env_list (foldl (sanitized_append tab) e kvs) =
     env_list e @ map (\<lambda>(n, v). env_entry n v)
       (filter (\<lambda>(n, v). env_allowed tab (env_login e) n) kvs)"
proof (induction kvs arbitrary: e)
  case (Cons kv kvs)
  have lg: "env_login (sanitized_append tab e kv) = env_login e"
    by (simp add: sanitized_append_def split: prod.splits)
  show ?case by (simp add: Cons.IH lg) (simp add: sanitized_append_def split: prod.splits)
qed simp

lemma map_of_drop_passthrough:
  "map_of (drop_passthrough names tab) k =
     (if k \<noteq> '''' \<and> k \<in> trim_space ` set names then None else map_of tab k)"
proof (induction names arbitrary: tab)
  case Nil
  then show ?case by (simp add: drop_passthrough_def)
next
  case (Cons n names)
  have "drop_passthrough (n # names) tab =
      drop_passthrough names (if trim_space n \<noteq> '''' then AList.delete (trim_space n) tab else tab)"
    by (simp add: drop_passthrough_def)
  then show ?case by (auto simp: Cons.IH delete_conv')
qed

lemma login_client_env:
  "login_client S env c w = (r, env', w') \<Longrightarrow> name \<noteq> ''VAULT_TOKEN'' \<Longrightarrow> env_lookup env' name = env_lookup env name"
  by (auto simp: login_client_def Let_def env_lookup_unsetenv_other split: prod.splits sum.splits option.splits if_splits)

lemma new_vault_client_env:
  "new_vault_client S env w = (r, env', w') \<Longrightarrow> name \<noteq> ''VAULT_TOKEN'' \<Longrightarrow> env_lookup env' name = env_lookup env name"
  by (auto simp: new_vault_client_def Let_def login_client_env split: prod.splits sum.splits option.splits if_splits)

text \<open>What a successful start consists of: the facts the properties below need.\<close>

lemma main_prepare_ReadyD:
  assumes "main_prepare L V S P env cmd args w = (Inr l, env', w')"
  obtains c env1 w1 w2 environ secrets st C V1 where
    "new_vault_client S env w1 = (Inr c, env1, w2)"
    "env' = (if getenv env ''VAULT_TOKEN'' = vault_login then setenv ''VAULT_TOKEN'' vault_login env1 else env1)"
    "parse_environ env' [] = Some environ"
    "C = launch_config l" "daemon_mode C = launch_daemon l"
    "V1 = V\<lparr>renewer := (if launch_daemon l then Some (daemon_renew S) else None)\<rparr>"
    "inject_all L V1 C (visit P 0 environ) (launch_paths l) (new_secret_injector w2) = (Inr secrets, st)"
    "launch_plan l = make_watch_plan P (watch_data (read_modes S P env)) environ secrets (launch_paths l)"
    "launch_paths l = getenv env' ''VAULT_ENV_FROM_PATH''"
    "launch_poll l = poll_interval (read_modes S P env)"
    "revoke_token S P V env' (launch_daemon l \<or> plan_active (launch_plan l)) c (world st) = (launch_client l, w')"
    "child_env l = env_list (foldl (sanitized_append
       (drop_passthrough (passthrough_names env1 (getenv env ''VAULT_TOKEN'' = vault_login)) sanitize_envmap))
       \<lparr>env_list = [], env_login = (getenv env ''VAULT_TOKEN'' = vault_login)\<rparr> (visit P 3 secrets))"
proof -
  show thesis
    using assms unfolding main_prepare_def Let_def
    by (cases "look_path P cmd w"; cases "fst (look_path P cmd w)")
       (auto split: prod.splits sum.splits option.splits intro!: that)
qed

end
