(* ===== verification/Jitter.thy ===== *)
theory Jitter
  imports Main
begin

text \<open>
  \<open>jitteredInterval\<close> of \<^verbatim>\<open>images/env-injector/main.go\<close>.

  A duration is a number of nanoseconds. The skew is computed in \<open>float64\<close>, which matters: the
  interval is rounded to 53 significant bits, the constant 0.3 is the double \<open>5404319552844595 / 2 ^ 54\<close>,
  their product is rounded to 53 bits again (to nearest, ties to even) and the result is cut to an
  integer. \<open>round_sig\<close> rounds an integer to 53 significant bits; the product is carried as an integer
  scaled by \<open>2 ^ 54\<close>. The function \<open>rand.N\<close> is a parameter, \<open>rand_n\<close>: for \<open>0 < n\<close> it gives some number of
  \<open>[0, n)\<close> (for other \<open>n\<close> it panics).
\<close>

function bit_count :: "int \<Rightarrow> nat" where
  "bit_count n = (if n \<le> 0 then 0 else Suc (bit_count (n div 2)))"
  by pat_completeness auto
termination
  by (relation "measure nat") auto

declare bit_count.simps [simp del]

definition round_sig :: "int \<Rightarrow> int" where
  "round_sig n =
     (if bit_count n \<le> 53 then n
      else let u = 2 ^ (bit_count n - 53); q = n div u; r = n mod u
           in (if u < 2 * r \<or> u = 2 * r \<and> odd q then q + 1 else q) * u)"

definition jitter_fraction :: int where
  "jitter_fraction = 5404319552844595"

text \<open>\<open>time.Duration(float64(interval) * jitterFraction)\<close>; it is negative for a negative interval.\<close>

definition max_skew :: "int \<Rightarrow> int" where
  "max_skew interval =
     (let p = round_sig (round_sig \<bar>interval\<bar> * jitter_fraction) div 2 ^ 54
      in if interval < 0 then - p else p)"

text \<open>The sum is one of \<open>int64\<close> and wraps around; twice the skew, at most \<open>0.6 * 2 ^ 63\<close>, does not.\<close>

definition wrap_int64 :: "int \<Rightarrow> int" where
  "wrap_int64 n = (n + 2 ^ 63) mod 2 ^ 64 - 2 ^ 63"

definition jittered_interval :: "(int \<Rightarrow> int) \<Rightarrow> int \<Rightarrow> int" where
  "jittered_interval rand_n interval =
     (if max_skew interval \<le> 0 then interval
      else wrap_int64 (interval - max_skew interval + rand_n (2 * max_skew interval)))"

subsection \<open>Rounding\<close>

lemma bit_count_bounds: "0 < n \<Longrightarrow> 2 ^ (bit_count n - 1) \<le> n \<and> n < 2 ^ bit_count n \<and> 0 < bit_count n"
proof (induction n rule: bit_count.induct)
  case (1 n)
  show ?case
  proof (cases "n = 1")
    case True
    then show ?thesis by (simp add: bit_count.simps [of 1] bit_count.simps [of 0])
  next
    case False
    with 1 have *: "2 ^ (bit_count (n div 2) - 1) \<le> n div 2" "n div 2 < 2 ^ bit_count (n div 2)"
      "0 < bit_count (n div 2)" by simp_all
    from *(1) have "2 * 2 ^ (bit_count (n div 2) - 1) \<le> n" by linarith
    moreover from *(2) have "n < 2 * 2 ^ bit_count (n div 2)" by linarith
    ultimately show ?thesis
      using *(3) "1.prems" by (simp add: bit_count.simps [of n] flip: power_Suc)
  qed
qed

lemma bit_count_le: "0 \<le> n \<Longrightarrow> n < 2 ^ k \<Longrightarrow> bit_count n \<le> k"
proof (induction n arbitrary: k rule: bit_count.induct)
  case (1 n)
  show ?case
  proof (cases "n = 0")
    case True
    then show ?thesis by (simp add: bit_count.simps)
  next
    case False
    with 1 have "k \<noteq> 0" by (cases k) auto
    then obtain j where "k = Suc j" by (cases k) auto
    with False 1 show ?thesis by (simp add: bit_count.simps [of n])
  qed
qed

lemma round_sig_exact: "0 \<le> n \<Longrightarrow> n < 2 ^ 53 \<Longrightarrow> round_sig n = n"
  using bit_count_le [of n 53] by (simp add: round_sig_def)

text \<open>The relative error of a rounding is at most one in \<open>2 ^ 53\<close>.\<close>

lemma round_sig_error:
  assumes "0 \<le> n"
  shows "2 ^ 53 * \<bar>round_sig n - n\<bar> \<le> n"
proof (cases "bit_count n \<le> 53")
  case True
  with assms show ?thesis by (simp add: round_sig_def)
next
  case False
  then have pos: "0 < n" using assms by (cases "n = 0") (simp_all add: bit_count.simps)
  define u :: int where "u = 2 ^ (bit_count n - 53)"
  define q where "q = n div u"
  define r where "r = n mod u"
  have u: "0 < u" "even u" using False by (simp_all add: u_def)
  have n: "n = q * u + r" "0 \<le> r" "r < u" using u by (simp_all add: q_def r_def)
  have "u * 2 ^ 52 = 2 ^ (bit_count n - 1)"
    using False unfolding u_def power_add [symmetric] by (intro arg_cong2 [where f = power]) auto
  with bit_count_bounds [OF pos] have big: "u * 2 ^ 52 \<le> n" by simp
  have "round_sig n = (if u < 2 * r \<or> u = 2 * r \<and> odd q then q + 1 else q) * u"
    using False by (simp add: round_sig_def Let_def u_def q_def r_def)
  then have "2 * \<bar>round_sig n - n\<bar> \<le> u"
    using n by (auto simp: algebra_simps abs_le_iff)
  then have "2 ^ 53 * \<bar>round_sig n - n\<bar> \<le> u * 2 ^ 52" by simp
  with big show ?thesis by linarith
qed

text \<open>The skew, for the intervals up to 26 days (\<open>2 ^ 51\<close> ns): three tenths, rounded down.\<close>

lemma max_skew_bounds:
  assumes "0 \<le> i" "i < 2 ^ 51"
  shows "10 * max_skew i \<le> 3 * i" "3 * i - 10 \<le> 10 * max_skew i" "0 \<le> max_skew i"
proof -
  define p where "p = round_sig (i * jitter_fraction)"
  define s where "s = p div 2 ^ 54"
  have m: "max_skew i = s" using assms by (simp add: max_skew_def round_sig_exact s_def p_def)
  have err: "2 ^ 53 * \<bar>p - i * jitter_fraction\<bar> \<le> i * jitter_fraction"
    unfolding p_def using assms by (intro round_sig_error) (simp add: jitter_fraction_def)
  have "2 ^ 53 * (p - i * jitter_fraction) \<le> i * jitter_fraction"
    by (rule order_trans [OF mult_left_mono err]) simp_all
  moreover have "2 ^ 53 * (i * jitter_fraction - p) \<le> i * jitter_fraction"
    by (rule order_trans [OF mult_left_mono err [unfolded abs_minus_commute [of p]]]) simp_all
  ultimately have p: "9007199254740992 * p \<le> 48677783048764012620353104982835 * i"
    "48677783048764001811713999293645 * i \<le> 9007199254740992 * p"
    by (simp_all add: jitter_fraction_def algebra_simps)
  have s: "18014398509481984 * s \<le> p" "p < 18014398509481984 * s + 18014398509481984"
    unfolding s_def by simp_all
  have i: "0 \<le> i" "i < 2251799813685248" using assms by simp_all
  show "10 * max_skew i \<le> 3 * i" unfolding m using p(1) s(1) i by linarith
  show "3 * i - 10 \<le> 10 * max_skew i" unfolding m using p(2) s(2) i by linarith
  show "0 \<le> max_skew i" unfolding m using p(2) s(2) i by linarith
qed

text \<open>For any interval the roundings add at most one part in \<open>2 ^ 50\<close> to the skew.\<close>

lemma max_skew_relative:
  assumes "0 \<le> i"
  shows "0 \<le> max_skew i" "10 * 2 ^ 50 * max_skew i \<le> 3 * 2 ^ 50 * i + i"
proof -
  define a where "a = round_sig i"
  define p where "p = round_sig (a * jitter_fraction)"
  define s where "s = p div 2 ^ 54"
  have m: "max_skew i = s" using assms by (simp add: max_skew_def s_def p_def a_def)
  have "2 ^ 53 * \<bar>a - i\<bar> \<le> i" unfolding a_def using assms by (rule round_sig_error)
  then have a: "9007199254740992 * a \<le> 9007199254740993 * i" "0 \<le> a" using assms by (auto simp: abs_if split: if_splits)
  have "2 ^ 53 * \<bar>p - a * jitter_fraction\<bar> \<le> a * jitter_fraction"
    unfolding p_def using a(2) by (intro round_sig_error) (simp add: jitter_fraction_def)
  then have p: "9007199254740992 * p \<le> 48677783048764012620353104982835 * a" "0 \<le> p"
    using a(2) by (auto simp: jitter_fraction_def abs_if split: if_splits)
  have s: "18014398509481984 * s \<le> p" "0 \<le> s" unfolding s_def using p(2) by simp_all
  show "0 \<le> max_skew i" unfolding m by (rule s(2))
  show "10 * 2 ^ 50 * max_skew i \<le> 3 * 2 ^ 50 * i + i" unfolding m using a p s by simp
qed

lemma wrap_int64_id: "- (2 ^ 63) \<le> n \<Longrightarrow> n < 2 ^ 63 \<Longrightarrow> wrap_int64 n = n"
  by (simp add: wrap_int64_def)

subsection \<open>Properties\<close>

text \<open>C33: the effective poll interval is positive, so \<open>time.NewTicker\<close> does not panic, and it lies within 30 percent of the
  configured one, for every number that \<open>rand.N\<close> may return for the argument the code gives it, all float64
  roundings and the int64 addition counted. The bounds: for intervals \<open>i\<close> below \<open>2 ^ 51\<close> nanoseconds (26 days) it is in
  \<open>[0.7 i, 1.3 i)\<close> exactly; for the longer ones below \<open>2 ^ 62\<close> nanoseconds (146 years) the roundings may take
  it outside by one part in \<open>10 * 2 ^ 50\<close> of \<open>i\<close>. Beyond \<open>2 ^ 62\<close> the sum may overflow, and the theorem says nothing.\<close>

theorem jitter_within_fraction:
  assumes i: "0 < i" "i < 2 ^ 62" and rand: "\<And>n. 0 < n \<Longrightarrow> 0 \<le> rand_n n \<and> rand_n n < n"
  shows "0 < jittered_interval rand_n i \<and>
    7 * 2 ^ 50 * i - i \<le> 10 * 2 ^ 50 * jittered_interval rand_n i \<and>
    10 * 2 ^ 50 * jittered_interval rand_n i < 13 * 2 ^ 50 * i + i \<and>
    (i < 2 ^ 51 \<longrightarrow> 7 * i \<le> 10 * jittered_interval rand_n i \<and> 10 * jittered_interval rand_n i < 13 * i)"
proof (cases "max_skew i \<le> 0")
  case True
  with i show ?thesis by (simp add: jittered_interval_def)
next
  case False
  define r where "r = rand_n (2 * max_skew i)"
  have r: "0 \<le> r" "r < 2 * max_skew i" using rand [of "2 * max_skew i"] False by (simp_all add: r_def)
  have rel: "10 * 2 ^ 50 * max_skew i \<le> 3 * 2 ^ 50 * i + i" using max_skew_relative(2) [of i] i by simp
  have "wrap_int64 (i - max_skew i + r) = i - max_skew i + r" using i r rel by (intro wrap_int64_id) simp_all
  then have j: "jittered_interval rand_n i = i - max_skew i + r" using False by (simp add: jittered_interval_def r_def)
  have "10 * max_skew i \<le> 3 * i" if "i < 2 ^ 51" using max_skew_bounds(1) [of i] i(1) that by simp
  with i r rel show ?thesis unfolding j by auto
qed

theorem jitter_within_fraction_witness:
  "jittered_interval (\<lambda>n. n - 1) 120000000000 = 155999999999 \<and>
   10 * jittered_interval (\<lambda>n. n - 1) 120000000000 < 13 * 120000000000"
proof
  show "jittered_interval (\<lambda>n. n - 1) 120000000000 = 155999999999" by code_simp
  show "10 * jittered_interval (\<lambda>n. n - 1) 120000000000 < 13 * 120000000000"
    using jitter_within_fraction [of 120000000000 "\<lambda>n. n - 1"] by simp
qed

end
