(* ===== verification/Watcher.thy ===== *)
theory Watcher
  imports Startup Jitter
begin

text \<open>
  The second half of \<^verbatim>\<open>images/env-injector/main.go\<close>: the watcher of secret values
  (\<open>watchSecretsForChanges\<close>), the goroutine of a lease (\<open>Renew\<close>), the forwarding of signals and the exit
  of \<open>main\<close>, which run concurrently around the application.

  One poll is a function. The concurrent part is a step relation: each step is one action of one
  goroutine, between two points where it may be suspended. The channel \<open>sigs\<close> has room for one signal,
  so a goroutine that sends waits for an empty channel; the Go runtime drops a signal of the kubelet
  that finds the channel full. Time is abstract: a timer may expire at any time.
\<close>

subsection \<open>One poll\<close>

definition poll_config :: "config \<Rightarrow> config" where
  "poll_config C = C\<lparr>daemon_mode := False\<rparr>"

text \<open>A fresh injector without a renewer resolves a fresh copy of the templates, then the paths.\<close>

definition poll_secrets ::
  "libs \<Rightarrow> 'w vault \<Rightarrow> 'w os \<Rightarrow> config \<Rightarrow> str_map \<Rightarrow> string \<Rightarrow> 'w \<Rightarrow> (startup_error + str_map) \<times> 'w" where
  "poll_secrets L V P C templates paths w =
     (case inject_all L (V\<lparr>renewer := None\<rparr>) (poll_config C) (visit P 4 (clone_map templates)) paths
             (new_secret_injector w) of
        (r, st) \<Rightarrow> (r, world st))"

fun poll_error :: "startup_error \<Rightarrow> inj_error option" where
  "poll_error (InjectFailed e) = Some e"
| "poll_error (InjectPathFailed e) = Some e"
| "poll_error _ = None"

datatype poll_outcome = PollFailed startup_error "client_error option option" | Unchanged | Changed string

text \<open>One tick: a failed poll may log in again, a successful one compares the digests.\<close>

definition poll_tick ::
  "libs \<Rightarrow> 'w vault \<Rightarrow> 'w sys \<Rightarrow> 'w os \<Rightarrow> environ \<Rightarrow> config \<Rightarrow> str_map \<Rightarrow> string \<Rightarrow> string \<Rightarrow> client \<Rightarrow> 'w \<Rightarrow>
   poll_outcome \<times> client \<times> 'w" where
  "poll_tick L V S P env C templates paths initial_hash c w =
     (case poll_secrets L V P C templates paths w of
        (Inl e, w1) \<Rightarrow>
          (case poll_error e of
             Some ie \<Rightarrow>
               if is_permission_denied_error ie
               then (case relogin S env c w1 of (r, c1, w2) \<Rightarrow> (PollFailed e (Some r), c1, w2))
               else (PollFailed e None, c, w1)
           | None \<Rightarrow> (PollFailed e None, c, w1))
      | (Inr secrets, w1) \<Rightarrow>
          (let new_hash = compute_secrets_hash secrets
           in (if new_hash = initial_hash then Unchanged else Changed new_hash, c, w1)))"

subsection \<open>The running process\<close>

datatype signal = SIGINT | SIGTERM | SIGHUP | SIGQUIT | SIGKILL

definition kubernetes_signals :: "signal list" where
  "kubernetes_signals = [SIGINT, SIGTERM, SIGHUP, SIGQUIT]"

datatype watch_phase = Polling | SendTerm | Grace | SendKill | WatchDone

datatype lease_phase = Renewing | LeaseSleep | LeaseTerm | LeaseGrace | LeaseKill | LeaseDone

text \<open>How \<open>cmd.Wait\<close> returned: without an error, with the code of an \<open>ExitError\<close>, with another error.\<close>

datatype wait_result = WaitOk | WaitExit int | WaitError

text \<open>
  \<open>sends\<close> records what each sender put into the channel, in order: the kubelet, the watcher and the
  goroutine of the lease number \<open>n\<close>. \<open>delivered\<close> are the signals the application got, \<open>polled_hash\<close> the
  digest of the poll that differed.
\<close>

datatype sender = Kubelet | ValueWatcher | Lease nat

record 'w process =
  channel :: "signal list"
  forwarding :: bool
  delivered :: "signal list"
  child :: "wait_result option"
  watch_state :: watch_phase
  leases :: "(bool \<times> lease_phase) list"
  watch_cancelled :: bool
  restart_due_to_change :: bool
  exit_code :: "int option"
  proc_client :: client
  proc_world :: 'w
  polled_hash :: "string option"
  sends :: "(sender \<times> signal) list"

text \<open>Right after \<open>cmd.Start\<close>; \<open>leases\<close> are the renewals that were started, with their \<open>Renewable\<close>.\<close>

definition start_process :: "launch \<Rightarrow> bool list \<Rightarrow> 'w \<Rightarrow> 'w process" where
  "start_process l renewables w =
     \<lparr>channel = [], forwarding = True, delivered = [], child = None,
      watch_state = (if plan_active (launch_plan l) then Polling else WatchDone),
      leases = map (\<lambda>b. (b, Renewing)) renewables, watch_cancelled = False,
      restart_due_to_change = False, exit_code = None, proc_client = launch_client l, proc_world = w,
      polled_hash = None, sends = []\<rparr>"

definition send_signal :: "sender \<Rightarrow> signal \<Rightarrow> 'w process \<Rightarrow> 'w process" where
  "send_signal who s p = p\<lparr>channel := channel p @ [s], sends := sends p @ [(who, s)]\<rparr>"

definition final_exit_code :: "bool \<Rightarrow> wait_result \<Rightarrow> int" where
  "final_exit_code restart r =
     (if restart then 2 else case r of WaitOk \<Rightarrow> 0 | WaitExit n \<Rightarrow> n | WaitError \<Rightarrow> - 1)"

text \<open>The goroutine of a lease: the next phase and the signal it sends on the way.\<close>

fun lease_step :: "bool \<Rightarrow> lease_phase \<Rightarrow> (lease_phase \<times> signal option) option" where
  "lease_step ren Renewing = Some (if ren then LeaseTerm else LeaseSleep, None)"
| "lease_step ren LeaseSleep = Some (LeaseTerm, None)"
| "lease_step ren LeaseTerm = Some (LeaseGrace, Some SIGTERM)"
| "lease_step ren LeaseGrace = Some (LeaseKill, None)"
| "lease_step ren LeaseKill = Some (LeaseDone, Some SIGKILL)"
| "lease_step ren LeaseDone = None"

text \<open>The watcher, apart from polling: sending waits for the channel, cancelling ends it in any phase.\<close>

fun watch_step :: "watch_phase \<Rightarrow> (watch_phase \<times> signal option) option" where
  "watch_step Polling = None"
| "watch_step SendTerm = Some (Grace, Some SIGTERM)"
| "watch_step Grace = Some (SendKill, None)"
| "watch_step SendKill = Some (WatchDone, Some SIGKILL)"
| "watch_step WatchDone = None"

definition poll_process ::
  "libs \<Rightarrow> 'w vault \<Rightarrow> 'w sys \<Rightarrow> 'w os \<Rightarrow> environ \<Rightarrow> launch \<Rightarrow> 'w process \<Rightarrow> 'w process" where
  "poll_process L V S P env l p =
     (case poll_tick L V S P env (launch_config l) (plan_templates (launch_plan l)) (launch_paths l)
             (plan_hash (launch_plan l)) (proc_client p) (proc_world p) of
        (Changed h, c, w) \<Rightarrow>
          p\<lparr>proc_client := c, proc_world := w, polled_hash := Some h,
             restart_due_to_change := True, watch_state := SendTerm\<rparr>
      | (_, c, w) \<Rightarrow> p\<lparr>proc_client := c, proc_world := w\<rparr>)"

inductive process_step ::
  "libs \<Rightarrow> 'w vault \<Rightarrow> 'w sys \<Rightarrow> 'w os \<Rightarrow> environ \<Rightarrow> launch \<Rightarrow> 'w process \<Rightarrow> 'w process \<Rightarrow> bool"
  for L V S P env l where
  poll: "watch_state p = Polling \<Longrightarrow> process_step L V S P env l p (poll_process L V S P env l p)"
| watch_silent: "watch_step (watch_state p) = Some (ph, None) \<Longrightarrow>
    process_step L V S P env l p (p\<lparr>watch_state := ph\<rparr>)"
| watch_send: "watch_step (watch_state p) = Some (ph, Some s) \<Longrightarrow> channel p = [] \<Longrightarrow>
    process_step L V S P env l p (send_signal ValueWatcher s p\<lparr>watch_state := ph\<rparr>)"
| watch_cancel: "watch_cancelled p \<Longrightarrow> process_step L V S P env l p (p\<lparr>watch_state := WatchDone\<rparr>)"
| lease_silent: "n < length (leases p) \<Longrightarrow> leases p ! n = (ren, ph) \<Longrightarrow> lease_step ren ph = Some (ph', None) \<Longrightarrow>
    process_step L V S P env l p (p\<lparr>leases := (leases p)[n := (ren, ph')]\<rparr>)"
| lease_send: "n < length (leases p) \<Longrightarrow> leases p ! n = (ren, ph) \<Longrightarrow> lease_step ren ph = Some (ph', Some s) \<Longrightarrow>
    channel p = [] \<Longrightarrow>
    process_step L V S P env l p (send_signal (Lease n) s p\<lparr>leases := (leases p)[n := (ren, ph')]\<rparr>)"
| kubelet: "s \<in> set kubernetes_signals \<Longrightarrow> channel p = [] \<Longrightarrow>
    process_step L V S P env l p (send_signal Kubelet s p)"
| forward: "forwarding p \<Longrightarrow> channel p = s # cs \<Longrightarrow> child p = None \<Longrightarrow>
    process_step L V S P env l p (p\<lparr>channel := cs, delivered := delivered p @ [s]\<rparr>)"
| forward_failed: "forwarding p \<Longrightarrow> channel p = s # cs \<Longrightarrow> child p = None \<Longrightarrow>
    process_step L V S P env l p (p\<lparr>channel := cs\<rparr>)"
| forward_stop: "forwarding p \<Longrightarrow> channel p = s # cs \<Longrightarrow> child p \<noteq> None \<Longrightarrow>
    process_step L V S P env l p (p\<lparr>channel := cs, forwarding := False\<rparr>)"
| child_exit: "child p = None \<Longrightarrow> process_step L V S P env l p (p\<lparr>child := Some r\<rparr>)"
| main_cancel: "child p = Some r \<Longrightarrow> process_step L V S P env l p (p\<lparr>watch_cancelled := True\<rparr>)"
| main_exit: "child p = Some r \<Longrightarrow> watch_cancelled p \<Longrightarrow> exit_code p = None \<Longrightarrow>
    process_step L V S P env l p (p\<lparr>exit_code := Some (final_exit_code (restart_due_to_change p) r)\<rparr>)"
| outside: "process_step L V S P env l p (p\<lparr>proc_world := w\<rparr>)"

text \<open>The process reaches \<open>q\<close> from the start of the application, before \<open>main\<close> has exited.\<close>

inductive process_reach ::
  "libs \<Rightarrow> 'w vault \<Rightarrow> 'w sys \<Rightarrow> 'w os \<Rightarrow> environ \<Rightarrow> launch \<Rightarrow> bool list \<Rightarrow> 'w process \<Rightarrow> bool"
  for L V S P env l rs where
  start: "process_reach L V S P env l rs (start_process l rs w)"
| step: "process_reach L V S P env l rs p \<Longrightarrow> exit_code p = None \<Longrightarrow> process_step L V S P env l p q \<Longrightarrow>
    process_reach L V S P env l rs q"

inductive_cases process_stepE: "process_step L V S P env l p q"

end
