(* ===== verification/Startup_Props.thy ===== *)
theory Startup_Props
  imports Startup
begin

text \<open>
  The properties of the start of the env-injector, over the model in \<open>Startup\<close>: what the application
  finds in its environment, and what stays available for the watchers.
\<close>

subsection \<open>Lemmas\<close>

lemma parse_environ_distinct: "parse_environ es m = Some m' \<Longrightarrow> distinct_keys m \<Longrightarrow> distinct_keys m'"
  by (induction es m rule: parse_environ.induct) (auto simp: distinct_update split: list.splits)

lemma split_n_2_entry: "CHR ''='' \<notin> set name \<Longrightarrow> split_n 2 (CHR ''='') (env_entry name v) = [name, v]"
  by (simp add: eval_nat_numeral)

lemma map_of_mset: "mset m = mset m' \<Longrightarrow> distinct_keys m \<Longrightarrow> map_of m = map_of m'"
  by (metis distinct_keys_mset map_of_inject_set mset_eq_setD)

lemma inject_all_distinct:
  assumes "inject_all L V C refs paths st = (Inr secrets, st')"
  shows "distinct_keys secrets"
  using assms by (auto simp: inject_all_def distinct_assign_all split: prod.splits option.splits if_splits)

lemma passthrough_names_new_client:
  "new_vault_client S env w = (r, env1, w') \<Longrightarrow> passthrough_names env1 lg = passthrough_names env lg"
  using new_vault_client_env [of S env w r env1 w' "''VAULT_ENV_PASSTHROUGH''"]
  by (simp add: passthrough_names_def getenv_def)

lemma parse_environ_names:
  "parse_environ es m = Some m' \<Longrightarrow> \<forall>n \<in> fst ` set m. CHR ''='' \<notin> set n \<Longrightarrow> n \<in> fst ` set m' \<Longrightarrow> CHR ''='' \<notin> set n"
proof (induction es m rule: parse_environ.induct)
  case (2 e es m)
  then show ?case
    using split_n_head_notin [of 2 "CHR ''=''" e] by (auto simp: dom_update split: list.splits)
qed auto

text \<open>Only a path can deliver a name that no variable has.\<close>

lemma inject_all_names:
  assumes "inject_all L V C refs paths st = (Inr secrets, st')" "n \<in> fst ` set secrets"
  shows "n \<in> fst ` set refs \<or> paths \<noteq> ''''"
proof (cases "paths = ''''")
  case True
  with assms(1) obtain em where run: "inject_refs L V C refs st = (None, em, st')" and s: "secrets = assign_all em []"
    by (auto simp: inject_all_def inject_secrets_from_vault_def split: prod.splits option.splits)
  from assms(2) have "n \<in> fst ` set em" by (simp add: s keys_assign_all)
  with inject_refs_emits(1) [OF run] show ?thesis by auto
qed simp

subsection \<open>References and paths, against their specification\<close>

text \<open>The configuration and the Vault client that \<open>main\<close> injects with.\<close>

definition start_config :: "'w sys \<Rightarrow> 'w os \<Rightarrow> environ \<Rightarrow> config" where
  "start_config S P env =
     \<lparr>ignore_missing_secrets = to_bool S (getenv env ''VAULT_IGNORE_MISSING_SECRETS''),
      daemon_mode = daemon_run (read_modes S P env)\<rparr>"

definition start_vault :: "'w vault \<Rightarrow> 'w sys \<Rightarrow> 'w os \<Rightarrow> environ \<Rightarrow> 'w vault" where
  "start_vault V S P env = V\<lparr>renewer := (if daemon_run (read_modes S P env) then Some (daemon_renew S) else None)\<rparr>"

lemma main_prepare_config:
  "main_prepare L V S P env cmd args w = (Inr l, env', w') \<Longrightarrow>
     launch_config l = start_config S P env \<and> launch_daemon l = daemon_run (read_modes S P env)"
  by (cases "look_path P cmd w"; cases "fst (look_path P cmd w)")
     (auto simp: main_prepare_def start_config_def Let_def split: prod.splits sum.splits option.splits)

text \<open>What the paths of \<open>VAULT_ENV_FROM_PATH\<close> deliver, each path read by itself; nothing when it is empty.\<close>

definition path_values ::
  "libs \<Rightarrow> config \<Rightarrow> (string \<Rightarrow> string \<Rightarrow> api_error + secret option) \<Rightarrow>
   (string \<Rightarrow> secret \<Rightarrow> api_error option) option \<Rightarrow> string \<Rightarrow> inj_error option \<times> (string \<times> string) list" where
  "path_values L C rd rn paths =
     (if paths = '''' then (None, [])
      else spec_paths L (ignore_missing_secrets C) (spec_fetch L C rd rn) (split_on (CHR '','') paths))"

lemma inject_path_values:
  assumes "stable_vault V rd rn tok" "paths \<noteq> ''''"
  shows "\<exists>st'. inject_secrets_from_vault_path L V C paths st =
    (fst (path_values L C rd rn paths), snd (path_values L C rd rn paths), st')"
  using inject_path_list_spec [OF assms(1)] assms(2) by (simp add: inject_secrets_from_vault_path_def path_values_def)

lemma inject_all_spec:
  assumes vault: "stable_vault V rd rn tok" and coh: "coherent (spec_fetch L C rd rn) st"
    and nu: "list_all (\<lambda>nv. \<not> performs_update (snd nv)) refs"
  shows "\<exists>st'. inject_all L V C refs paths st =
    (case fst (collect_refs (spec_of L C rd rn tok) refs) of
       Some e \<Rightarrow> Inl (InjectFailed e)
     | None \<Rightarrow>
         (case fst (path_values L C rd rn paths) of
            Some e \<Rightarrow> Inl (InjectPathFailed e)
          | None \<Rightarrow> Inr (assign_all (snd (collect_refs (spec_of L C rd rn tok) refs) @ snd (path_values L C rd rn paths)) [])),
     st')"
proof -
  obtain st1 where i: "inject_secrets_from_vault L V C refs st =
      (fst (collect_refs (spec_of L C rd rn tok) refs), snd (collect_refs (spec_of L C rd rn tok) refs), st1)"
    using injector.inject_collects [of V rd rn tok L C st refs] vault coh nu by blast
  show ?thesis
  proof (cases "paths = ''''")
    case True
    then have "path_values L C rd rn paths = (None, [])" by (simp add: path_values_def)
    with True i show ?thesis by (simp add: inject_all_def split: option.split)
  next
    case False
    with inject_path_values [OF vault, of paths L C st1] i show ?thesis
      by (auto simp: inject_all_def split: option.split)
  qed
qed

lemma inject_all_ok_iff:
  assumes "stable_vault V rd rn tok" "coherent (spec_fetch L C rd rn) st"
    and "list_all (\<lambda>nv. \<not> performs_update (snd nv)) refs"
  shows "(\<exists>m. fst (inject_all L V C refs paths st) = Inr m) \<longleftrightarrow>
    list_all (\<lambda>nv. \<exists>x. spec_of L C rd rn tok (fst nv) (snd nv) = Inr x) refs \<and> fst (path_values L C rd rn paths) = None"
  using inject_all_spec [OF assms, of paths] by (auto simp flip: collect_refs_None_iff split: option.splits)

text \<open>A key of a path replaces the variable of that name, and the last path that has the key wins.\<close>

lemma inject_all_lookup:
  assumes "stable_vault V rd rn tok" "coherent (spec_fetch L C rd rn) st"
    and "list_all (\<lambda>nv. \<not> performs_update (snd nv)) refs" "distinct_keys refs"
    and "inject_all L V C refs paths st = (Inr m, st')"
  shows "map_of m n =
    (case map_of (rev (snd (path_values L C rd rn paths))) n of
       Some v \<Rightarrow> Some v
     | None \<Rightarrow> Option.bind (map_of refs n) (\<lambda>v. case spec_of L C rd rn tok n v of Inl e \<Rightarrow> None | Inr x \<Rightarrow> x))"
proof -
  from inject_all_spec [OF assms(1-3), of paths] assms(5)
  have ok: "fst (collect_refs (spec_of L C rd rn tok) refs) = None"
    and m: "m = assign_all (snd (collect_refs (spec_of L C rd rn tok) refs) @ snd (path_values L C rd rn paths)) []"
    by (auto split: option.splits)
  show ?thesis
    using collect_refs_lookup [OF ok assms(4), of n] collect_refs_distinct [OF assms(4)]
    by (simp add: m map_of_assign_all map_of_rev_distinct map_add_def del: assign_all_append split: option.split)
qed

text \<open>The setting \<open>VAULT_IGNORE_MISSING_SECRETS\<close>, for references and paths together.\<close>

lemma inject_all_ignore:
  "inject_all L V C refs paths st = (Inr m, st') \<Longrightarrow>
   inject_all L V (C\<lparr>ignore_missing_secrets := True\<rparr>) refs paths st = (Inr m, st')"
  by (auto simp: inject_all_def inject_secrets_from_vault_def inject_secrets_from_vault_path_def
      inject_ignore(1) inject_path_list_ignore split: prod.splits option.splits if_splits)

lemma inject_all_not_missing:
  assumes "ignore_missing_secrets C"
  shows "fst (inject_all L V C refs paths st) \<noteq> Inl (InjectFailed (PathNotFound p))"
    "fst (inject_all L V C refs paths st) \<noteq> Inl (InjectPathFailed (PathNotFound p))"
proof -
  have "fst (inject_refs L V C refs st) \<noteq> Some (PathNotFound p)"
    by (rule inject_avoids(1)) (simp add: assms resolve_plain_not_missing)
  moreover have "fst (inject_path_list L V C ps st') \<noteq> Some (PathNotFound p)" for ps st'
    by (rule inject_path_list_avoids) (auto simp: assms read_vault_path_not_missing dest: inject_data_error)
  ultimately show "fst (inject_all L V C refs paths st) \<noteq> Inl (InjectFailed (PathNotFound p))"
    "fst (inject_all L V C refs paths st) \<noteq> Inl (InjectPathFailed (PathNotFound p))"
    unfolding inject_all_def inject_secrets_from_vault_def inject_secrets_from_vault_path_def
    by (auto split: prod.splits option.splits) (metis fst_conv)+
qed

lemma main_prepare_inject_error:
  assumes "fst (main_prepare L V S P env cmd args w) = Inl e" "e = InjectFailed x \<or> e = InjectPathFailed x"
  shows "\<exists>refs paths st. fst (inject_all L (start_vault V S P env) (start_config S P env) refs paths st) = Inl e"
  using assms unfolding main_prepare_def Let_def start_vault_def start_config_def
  by (cases "look_path P cmd w"; cases "fst (look_path P cmd w)")
     (auto split: prod.splits sum.splits option.splits, (metis fst_conv)+)

subsection \<open>A concrete start for the witnesses\<close>

definition plain_os :: "nat os" where
  "plain_os = \<lparr>look_path = (\<lambda>c w. (Some (''/bin/'' @ c), w)), open_source = (\<lambda>w. (True, w)),
     create_destination = (\<lambda>w. (True, w)), copy_contents = (\<lambda>w. (True, w)),
     chmod_destination = (\<lambda>w. (True, w)), to_duration = (\<lambda>s. 0), revoke_self = (\<lambda>t w. (None, w)),
     visit = (\<lambda>n m. m)\<rparr>"

definition start_env :: environ where
  "start_env = [''VAULT_TOKEN=vault:login'', ''VAULT_ADDR=http'', ''A=secrets-store:p#k'',
     ''VAULT_REVOKE_TOKEN=true'']"

abbreviation start_run :: "(startup_error + launch) \<times> environ \<times> nat" where
  "start_run \<equiv> main_prepare kv_libs kv_store (login_sys login_answer) plain_os start_env ''app'' [] 0"

lemma start_run_ready:
  obtains l env' w' where "start_run = (Inr l, env', w')"
    "child_env l = [''VAULT_ADDR=http'', ''A=v'', ''VAULT_TOKEN=vault:login'']" "closed (launch_client l)"
proof -
  obtain r env' w' where run: "start_run = (r, env', w')" by (cases start_run)
  have "(case fst start_run of Inl _ \<Rightarrow> None | Inr l \<Rightarrow> Some (child_env l, closed (launch_client l))) =
    Some ([''VAULT_ADDR=http'', ''A=v'', ''VAULT_TOKEN=vault:login''], True)" by code_simp
  with run obtain l where "r = Inr l" "closed (launch_client l)"
    "child_env l = [''VAULT_ADDR=http'', ''A=v'', ''VAULT_TOKEN=vault:login'']"
    by (cases r) auto
  with run that show thesis by blast
qed

subsection \<open>Properties\<close>

text \<open>The application's environment is sanitized. Every entry it gets is a variable that is not in
  the table of Vault variables, or one that \<open>VAULT_ENV_PASSTHROUGH\<close> names (or the token of a login),
  or, in a login, one the table passes on. Its name holds no \<open>=\<close>, unless secrets come from paths.\<close>

theorem child_env_is_sanitized:
  assumes "main_prepare L V S P env cmd args w = (Inr l, env', w')" "\<And>n m. mset (visit P n m) = mset m"
    and "e \<in> set (child_env l)"
  shows "\<exists>n v. e = env_entry n v \<and> (CHR ''='' \<in> set n \<longrightarrow> getenv env ''VAULT_ENV_FROM_PATH'' \<noteq> '''') \<and>
    (map_of sanitize_envmap n = None \<or>
     n \<in> trim_space ` set (passthrough_names env (getenv env ''VAULT_TOKEN'' = vault_login)) \<or>
     getenv env ''VAULT_TOKEN'' = vault_login \<and> map_of sanitize_envmap n = Some True)"
proof (rule main_prepare_ReadyD [OF assms(1)])
  fix c env1 w1 w2 environ secrets st C V1
  assume nc: "new_vault_client S env w1 = (Inr c, env1, w2)"
    and env': "env' = (if getenv env ''VAULT_TOKEN'' = vault_login then setenv ''VAULT_TOKEN'' vault_login env1 else env1)"
    and pe: "parse_environ env' [] = Some environ"
    and inj: "inject_all L V1 C (visit P 0 environ) (launch_paths l) (new_secret_injector w2) = (Inr secrets, st)"
    and lp: "launch_paths l = getenv env' ''VAULT_ENV_FROM_PATH''"
    and "child_env l = env_list (foldl (sanitized_append
       (drop_passthrough (passthrough_names env1 (getenv env ''VAULT_TOKEN'' = vault_login)) sanitize_envmap))
       \<lparr>env_list = [], env_login = (getenv env ''VAULT_TOKEN'' = vault_login)\<rparr> (visit P 3 secrets))"
  with assms(3) obtain n v where e: "e = env_entry n v" "(n, v) \<in> set (visit P 3 secrets)"
    "env_allowed (drop_passthrough (passthrough_names env (getenv env ''VAULT_TOKEN'' = vault_login)) sanitize_envmap)
       (getenv env ''VAULT_TOKEN'' = vault_login) n"
    by (auto simp: sanitized_append_all passthrough_names_new_client [OF nc])
  have "launch_paths l = getenv env ''VAULT_ENV_FROM_PATH''"
    using new_vault_client_env [OF nc, of "''VAULT_ENV_FROM_PATH''"] by (simp add: lp env' getenv_def env_lookup_setenv)
  moreover have "n \<in> fst ` set secrets" using e(2) mset_eq_setD [OF assms(2), of 3 secrets] by force
  note inject_all_names [OF inj this]
  moreover have "CHR ''='' \<notin> set n" if "n \<in> fst ` set (visit P 0 environ)"
    using that parse_environ_names [OF pe] mset_eq_setD [OF assms(2), of 0 environ] by auto
  ultimately have "CHR ''='' \<in> set n \<longrightarrow> getenv env ''VAULT_ENV_FROM_PATH'' \<noteq> ''''" by auto
  with e show ?thesis
    by (auto simp: env_allowed_def map_of_drop_passthrough split: option.splits if_splits)
qed

theorem child_env_is_sanitized_witness:
  "\<exists>n v. ''VAULT_ADDR=http'' = env_entry n v \<and>
    (map_of sanitize_envmap n = None \<or> n \<in> trim_space ` set (passthrough_names start_env True) \<or>
     map_of sanitize_envmap n = Some True)"
proof (rule start_run_ready)
  fix l env' w'
  assume run: "start_run = (Inr l, env', w')"
    and "child_env l = [''VAULT_ADDR=http'', ''A=v'', ''VAULT_TOKEN=vault:login'']"
  then have "''VAULT_ADDR=http'' \<in> set (child_env l)" by simp
  moreover have "(getenv start_env ''VAULT_TOKEN'' = vault_login) = True" by code_simp
  moreover have "mset (visit plain_os n m) = mset m" for n m by (simp add: plain_os_def)
  ultimately show ?thesis using child_env_is_sanitized [OF run, of "''VAULT_ADDR=http''"] by auto
qed



text \<open>In a watch mode the client stays usable. The startup closes it (and revokes the token) only
  when neither leases nor values are watched, whatever \<open>VAULT_REVOKE_TOKEN\<close> says.\<close>

theorem watching_keeps_client_open:
  assumes "main_prepare L V S P env cmd args w = (Inr l, env', w')" "closed (launch_client l)"
  shows "\<not> launch_daemon l \<and> \<not> plan_active (launch_plan l) \<and> to_bool S (getenv env' ''VAULT_REVOKE_TOKEN'')"
proof (rule main_prepare_ReadyD [OF assms(1)])
  fix c env1 w1 w2 st
  assume nc: "new_vault_client S env w1 = (Inr c, env1, w2)"
    and "revoke_token S P V env' (launch_daemon l \<or> plan_active (launch_plan l)) c (world st) = (launch_client l, w')"
  with new_vault_client_inv [OF nc] assms(2) show ?thesis
    by (auto simp: revoke_token_def split: if_splits)
qed

theorem watching_keeps_client_open_witness:
  "\<exists>l env' w'. start_run = (Inr l, env', w') \<and> \<not> launch_daemon l \<and> \<not> plan_active (launch_plan l)"
proof (rule start_run_ready)
  fix l env' w'
  assume run: "start_run = (Inr l, env', w')" and "closed (launch_client l)"
  with watching_keeps_client_open [OF run] show ?thesis by blast
qed

end
