(* ===== verification/Watcher_Props.thy ===== *)
theory Watcher_Props
  imports Watcher Startup_Props
begin

text \<open>
  The properties of the running env-injector, over the step relation of \<open>Watcher\<close>: the restart
  protocol and its signals, the exit code, and that polling with unchanged secrets never restarts the
  application.
\<close>

subsection \<open>Invariants of the running process\<close>

lemma poll_process_cases:
  "(\<exists>c w. poll_process L V S P env l p = p\<lparr>proc_client := c, proc_world := w\<rparr>) \<or>
   (\<exists>c w h. h \<noteq> plan_hash (launch_plan l) \<and> poll_process L V S P env l p =
      p\<lparr>proc_client := c, proc_world := w, polled_hash := Some h, restart_due_to_change := True,
        watch_state := SendTerm\<rparr>)"
proof -
  obtain x c w where t: "poll_tick L V S P env (launch_config l) (plan_templates (launch_plan l)) (launch_paths l)
      (plan_hash (launch_plan l)) (proc_client p) (proc_world p) = (x, c, w)"
    by (cases "poll_tick L V S P env (launch_config l) (plan_templates (launch_plan l)) (launch_paths l)
      (plan_hash (launch_plan l)) (proc_client p) (proc_world p)") auto
  show ?thesis
  proof (cases x)
    case (Changed h)
    with t have "h \<noteq> plan_hash (launch_plan l)"
      by (auto simp: poll_tick_def Let_def split: prod.splits sum.splits option.splits if_splits)
    moreover from t Changed have "poll_process L V S P env l p =
      p\<lparr>proc_client := c, proc_world := w, polled_hash := Some h, restart_due_to_change := True,
        watch_state := SendTerm\<rparr>" by (simp add: poll_process_def)
    ultimately show ?thesis by blast
  qed (use t in \<open>auto simp: poll_process_def\<close>)
qed

abbreviation sent_by :: "sender \<Rightarrow> 'w process \<Rightarrow> signal list" where
  "sent_by who p \<equiv> map snd (filter (\<lambda>x. fst x = who) (sends p))"

text \<open>The signals of the watcher, phase by phase.\<close>

fun watch_sent :: "watch_phase \<Rightarrow> signal list \<Rightarrow> bool" where
  "watch_sent Polling ss = (ss = [])"
| "watch_sent SendTerm ss = (ss = [])"
| "watch_sent Grace ss = (ss = [SIGTERM])"
| "watch_sent SendKill ss = (ss = [SIGTERM])"
| "watch_sent WatchDone ss = (ss = [] \<or> ss = [SIGTERM] \<or> ss = [SIGTERM, SIGKILL])"

fun lease_sent :: "lease_phase \<Rightarrow> signal list" where
  "lease_sent LeaseGrace = [SIGTERM]"
| "lease_sent LeaseKill = [SIGTERM]"
| "lease_sent LeaseDone = [SIGTERM, SIGKILL]"
| "lease_sent _ = []"

definition watch_inv :: "string \<Rightarrow> 'w process \<Rightarrow> bool" where
  "watch_inv hash p \<longleftrightarrow>
     watch_sent (watch_state p) (sent_by ValueWatcher p) \<and>
     (watch_state p \<in> {SendTerm, Grace, SendKill} \<or> sent_by ValueWatcher p \<noteq> [] \<longrightarrow> restart_due_to_change p) \<and>
     (restart_due_to_change p \<longleftrightarrow> polled_hash p \<noteq> None) \<and>
     (\<forall>h. polled_hash p = Some h \<longrightarrow> h \<noteq> hash)"

definition lease_inv :: "'w process \<Rightarrow> bool" where
  "lease_inv p \<longleftrightarrow>
     (\<forall>n < length (leases p). sent_by (Lease n) p = lease_sent (snd (leases p ! n))) \<and>
     (\<forall>n \<ge> length (leases p). sent_by (Lease n) p = []) \<and>
     (\<forall>s. (Kubelet, s) \<in> set (sends p) \<longrightarrow> s \<in> set kubernetes_signals)"

definition channel_inv :: "'w process \<Rightarrow> bool" where
  "channel_inv p \<longleftrightarrow> length (channel p) \<le> 1 \<and> subseq (delivered p @ channel p) (map snd (sends p))"

definition exit_inv :: "'w process \<Rightarrow> bool" where
  "exit_inv p \<longleftrightarrow> (watch_cancelled p \<longrightarrow> child p \<noteq> None) \<and>
     (\<forall>c. exit_code p = Some c \<longrightarrow> (\<exists>r. child p = Some r \<and> c = final_exit_code (restart_due_to_change p) r))"

lemma watch_step_sent:
  "watch_step ph = Some (ph', None) \<Longrightarrow> watch_sent ph ss \<Longrightarrow> watch_sent ph' ss"
  "watch_step ph = Some (ph', Some s) \<Longrightarrow> watch_sent ph ss \<Longrightarrow> watch_sent ph' (ss @ [s])"
  "watch_step ph = Some (ph', x) \<Longrightarrow> ph \<in> {SendTerm, Grace, SendKill}"
  "watch_sent ph ss \<Longrightarrow> watch_sent WatchDone ss"
  by (cases ph; auto)+

lemma watch_sent_kill: "SIGKILL \<in> set ss \<Longrightarrow> watch_sent WatchDone ss \<Longrightarrow> ss = [SIGTERM, SIGKILL]"
  by auto

lemma lease_step_sent:
  "lease_step ren ph = Some (ph', None) \<Longrightarrow> lease_sent ph' = lease_sent ph"
  "lease_step ren ph = Some (ph', Some s) \<Longrightarrow> lease_sent ph' = lease_sent ph @ [s]"
  by (cases ph; auto split: if_splits)+

lemma watch_inv_step:
  assumes "watch_inv (plan_hash (launch_plan l)) p" "process_step L V S P env l p q"
  shows "watch_inv (plan_hash (launch_plan l)) q"
  using assms(2,1)
proof (cases rule: process_step.cases)
  case poll
  with assms(1) poll_process_cases [of L V S P env l p] show ?thesis by (auto simp: watch_inv_def)
next
  case (watch_silent ph)
  with assms(1) watch_step_sent(1,3) [OF watch_silent(2)] show ?thesis by (auto simp: watch_inv_def)
next
  case (watch_send ph s)
  with assms(1) watch_step_sent(2,3) [OF watch_send(2)] show ?thesis
    by (auto simp: watch_inv_def send_signal_def)
next
  case watch_cancel
  have "watch_sent WatchDone (sent_by ValueWatcher p)"
    using assms(1) watch_step_sent(4) unfolding watch_inv_def by blast
  with watch_cancel assms(1) show ?thesis by (auto simp: watch_inv_def)
qed (use assms(1) in \<open>simp_all add: watch_inv_def send_signal_def\<close>)

lemma lease_inv_upd:
  assumes "lease_inv p" "n < length (leases p)" "leases p ! n = (ren, ph)" "lease_sent ph' = lease_sent ph"
  shows "lease_inv (p\<lparr>leases := (leases p)[n := (ren, ph')]\<rparr>)"
  using assms by (simp add: lease_inv_def nth_list_update)

lemma lease_inv_send:
  assumes "lease_inv p" "n < length (leases p)" "leases p ! n = (ren, ph)" "lease_sent ph' = lease_sent ph @ [s]"
  shows "lease_inv (send_signal (Lease n) s p\<lparr>leases := (leases p)[n := (ren, ph')]\<rparr>)"
  using assms by (auto simp: lease_inv_def nth_list_update send_signal_def)

lemma lease_inv_step:
  assumes "lease_inv p" "process_step L V S P env l p q"
  shows "lease_inv q"
  using assms(2,1)
proof (cases rule: process_step.cases)
  case poll
  with assms(1) poll_process_cases [of L V S P env l p] show ?thesis by (auto simp: lease_inv_def)
next
  case (lease_silent n ren ph ph')
  with lease_inv_upd [OF assms(1)] lease_step_sent(1) show ?thesis by blast
next
  case (lease_send n ren ph ph' s)
  with lease_inv_send [OF assms(1)] lease_step_sent(2) show ?thesis by blast
qed (use assms(1) in \<open>simp_all add: lease_inv_def send_signal_def\<close>)

lemma subseq_butlast: "subseq (xs @ [s]) ys \<Longrightarrow> subseq xs ys"
  by (rule subseq_order.trans [OF prefix_imp_subseq]) simp_all

lemma channel_inv_step:
  assumes "channel_inv p" "process_step L V S P env l p q"
  shows "channel_inv q"
  using assms(2,1)
proof (cases rule: process_step.cases)
  case poll
  with assms(1) poll_process_cases [of L V S P env l p] show ?thesis by (auto simp: channel_inv_def)
qed (use assms(1) in \<open>auto simp: channel_inv_def send_signal_def dest: subseq_butlast\<close>)

lemma exit_inv_step:
  assumes "exit_inv p" "exit_code p = None" "process_step L V S P env l p q"
  shows "exit_inv q"
  using assms(3,1,2)
proof (cases rule: process_step.cases)
  case poll
  with assms(1,2) poll_process_cases [of L V S P env l p] show ?thesis by (auto simp: exit_inv_def)
qed (use assms(1,2) in \<open>auto simp: exit_inv_def send_signal_def\<close>)

lemma process_reach_inv:
  assumes "process_reach L V S P env l rs p"
  shows "watch_inv (plan_hash (launch_plan l)) p \<and> lease_inv p \<and> channel_inv p \<and> exit_inv p"
  using assms
proof (induction rule: process_reach.induct)
  case (start w)
  then show ?case
    by (auto simp: start_process_def watch_inv_def lease_inv_def channel_inv_def exit_inv_def)
next
  case (step p q)
  then show ?case
    by (simp add: watch_inv_step [OF _ step(3)] lease_inv_step [OF _ step(3)]
        channel_inv_step [OF _ step(3)] exit_inv_step [OF _ _ step(3)])
qed

subsection \<open>Polling unchanged secrets\<close>

text \<open>
  References and paths together, by two injectors of which the second gets at least the secrets the
  first gets: when the first succeeds, so does the second, with the same map, in any order and world.
\<close>

lemma inject_all_repeatable:
  assumes st: "stable_vault V rd rn tok" "stable_vault V' rd' rn' tok"
    and fetch: "\<And>p v x. spec_fetch L C rd rn p v = Inr x \<Longrightarrow> spec_fetch L C' rd' rn' p v = Inr x"
    and ign: "ignore_missing_secrets C' = ignore_missing_secrets C"
    and nu: "list_all (\<lambda>nv. \<not> performs_update (snd nv)) refs"
    and d: "distinct_keys refs" and perm: "mset refs' = mset refs"
    and run: "inject_all L V C refs paths (new_secret_injector w) = (Inr m, st1)"
  shows "\<exists>m' st2. inject_all L V' C' refs' paths (new_secret_injector w') = (Inr m', st2) \<and> map_of m = map_of m'"
proof -
  have set: "set refs' = set refs" using perm by (rule mset_eq_setD)
  have nu': "list_all (\<lambda>nv. \<not> performs_update (snd nv)) refs'" using nu by (simp add: list_all_iff set)
  have d': "distinct_keys refs'" using distinct_keys_mset [OF perm] d by blast
  have mo: "map_of refs' = map_of refs" using map_of_mset [OF perm d'] .
  have vals: "spec_of L C' rd' rn' tok n v = Inr x" if "spec_of L C rd rn tok n v = Inr x" for n v x
    using spec_mono(1) [of "spec_fetch L C rd rn" "spec_fetch L C' rd' rn'"] fetch that by (simp add: ign)
  have "\<exists>m. fst (inject_all L V C refs paths (new_secret_injector w)) = Inr m" using run by simp
  then have ok: "\<forall>nv \<in> set refs. \<exists>x. spec_of L C rd rn tok (fst nv) (snd nv) = Inr x"
    and p: "fst (path_values L C rd rn paths) = None"
    unfolding inject_all_ok_iff [OF st(1) coherent_new nu] by (simp_all add: list_all_iff)
  have paths: "path_values L C' rd' rn' paths = path_values L C rd rn paths"
    using spec_paths_mono [of "spec_fetch L C rd rn" "spec_fetch L C' rd' rn'"] fetch p
    by (simp add: path_values_def ign split: if_splits)
  have "\<exists>m'. fst (inject_all L V' C' refs' paths (new_secret_injector w')) = Inr m'"
    unfolding inject_all_ok_iff [OF st(2) coherent_new nu'] paths using ok p vals by (auto simp: list_all_iff set)
  then obtain m' st2 where run': "inject_all L V' C' refs' paths (new_secret_injector w') = (Inr m', st2)"
    by (metis prod.collapse)
  have "map_of m n = map_of m' n" for n
  proof -
    have "Option.bind (map_of refs n) (\<lambda>v. case spec_of L C rd rn tok n v of Inl e \<Rightarrow> None | Inr x \<Rightarrow> x) =
        Option.bind (map_of refs n) (\<lambda>v. case spec_of L C' rd' rn' tok n v of Inl e \<Rightarrow> None | Inr x \<Rightarrow> x)"
    proof (cases "map_of refs n")
      case (Some v)
      with ok obtain x where "spec_of L C rd rn tok n v = Inr x" by (force dest: map_of_SomeD)
      with vals [OF this] Some show ?thesis by simp
    qed simp
    then show ?thesis
      unfolding inject_all_lookup [OF st(1) coherent_new nu d run] inject_all_lookup [OF st(2) coherent_new nu' d' run'] paths mo
      by (simp split: option.split)
  qed
  with run' show ?thesis by blast
qed

text \<open>A poll renews no lease, so it gets whatever the start got.\<close>

lemma poll_fetch:
  "spec_fetch L C rd rn p v = Inr x \<Longrightarrow> spec_fetch L (poll_config C) rd None p v = Inr x"
  by (auto simp: spec_fetch_def spec_renewal_def poll_config_def split: sum.splits option.splits if_splits)

lemma watch_templates_no_updates:
  "list_all (\<lambda>nv. \<not> is_update_reference (snd nv)) ts \<Longrightarrow>
   watch_templates ts b wt = (b, assign_all ts wt)"
  by (induction ts b wt rule: watch_templates.induct) auto

lemma assign_all_fresh:
  "distinct_keys kvs \<Longrightarrow> fst ` set kvs \<inter> fst ` set m = {} \<Longrightarrow> assign_all kvs m = m @ kvs"
proof (induction kvs arbitrary: m)
  case (Cons kv kvs)
  obtain k v where kv: "kv = (k, v)" by (cases kv)
  have "k \<notin> fst ` set m \<Longrightarrow> AList.update k v m = m @ [(k, v)]"
    by (induction m) auto
  with Cons kv show ?case by auto
qed simp

lemma set_assign_all: "set (assign_all kvs m) \<subseteq> set kvs \<union> set m"
proof (induction kvs arbitrary: m)
  case (Cons kv kvs)
  obtain k v where kv: "kv = (k, v)" by (cases kv)
  have "set (AList.update k v m) \<subseteq> insert (k, v) (set m)" by (induction m) auto
  with Cons [of "AList.update k v m"] kv show ?case by auto
qed simp

lemma clone_map_id: "distinct_keys m \<Longrightarrow> clone_map m = m"
  by (simp add: clone_map_def assign_all_fresh)

text \<open>The variables of an environment that are no update references, by the filter and in effect.\<close>

definition update_free :: "str_map \<Rightarrow> bool" where
  "update_free m \<longleftrightarrow> list_all (\<lambda>nv. \<not> is_update_reference (snd nv) \<and> \<not> performs_update (snd nv)) m"

lemma update_free_mset: "mset m = mset m' \<Longrightarrow> update_free m \<Longrightarrow> update_free m'"
  unfolding update_free_def list_all_iff by (metis mset_eq_setD)

lemma poll_unchanged:
  assumes prep: "main_prepare L V S P env cmd args w0 = (Inr l, env', w1)"
    and st: "stable_vault (start_vault V S P env) rd rn tok"
    and free: "\<And>environ. parse_environ env' [] = Some environ \<Longrightarrow> update_free environ"
    and perm: "\<And>n m. mset (visit P n m) = mset m" and act: "plan_active (launch_plan l)"
  shows "\<exists>w'. poll_tick L V S P env'' (launch_config l) (plan_templates (launch_plan l)) (launch_paths l)
    (plan_hash (launch_plan l)) c w = (Unchanged, c, w')"
proof (rule main_prepare_ReadyD [OF prep])
  fix w2 environ secrets st C V1
  assume pe: "parse_environ env' [] = Some environ"
    and C: "C = launch_config l" "daemon_mode C = launch_daemon l"
    and V1: "V1 = V\<lparr>renewer := (if launch_daemon l then Some (daemon_renew S) else None)\<rparr>"
    and inj: "inject_all L V1 C (visit P 0 environ) (launch_paths l) (new_secret_injector w2) = (Inr secrets, st)"
    and plan: "launch_plan l = make_watch_plan P (watch_data (read_modes S P env)) environ secrets (launch_paths l)"
  have d: "distinct_keys environ" using parse_environ_distinct [OF pe] by simp
  have d': "distinct_keys (visit P n environ)" for n using distinct_keys_mset [OF perm] d by blast
  have "update_free (visit P 1 environ)" using update_free_mset [OF perm [symmetric] free [OF pe]] .
  then have "list_all (\<lambda>nv. \<not> is_update_reference (snd nv)) (visit P 1 environ)"
    by (simp add: update_free_def list_all_iff)
  from watch_templates_no_updates [OF this] plan act
  have templates: "plan_templates (launch_plan l) = visit P 1 environ"
    and hash: "plan_hash (launch_plan l) = compute_secrets_hash (clone_map (visit P 2 secrets))"
    by (auto simp: make_watch_plan_def clone_map_id [OF d', unfolded clone_map_def] split: if_splits)
  have perm': "mset (visit P 4 (clone_map (plan_templates (launch_plan l)))) = mset (visit P 0 environ)"
    by (simp add: templates perm clone_map_id d')
  have "update_free (visit P 0 environ)" using update_free_mset [OF perm [symmetric] free [OF pe]] .
  then have nu: "list_all (\<lambda>nv. \<not> performs_update (snd nv)) (visit P 0 environ)"
    by (simp add: update_free_def list_all_iff)
  have "start_vault V S P env = V1" using main_prepare_config [OF prep] by (simp add: V1 start_vault_def)
  with st have V: "stable_vault V1 rd rn tok" "stable_vault (V\<lparr>renewer := None\<rparr>) rd None tok"
    by (simp_all add: stable_vault_def V1)
  have ign: "ignore_missing_secrets (poll_config C) = ignore_missing_secrets C" by (simp add: poll_config_def)
  have "\<exists>m' st2. inject_all L (V\<lparr>renewer := None\<rparr>) (poll_config C) (visit P 4 (clone_map (plan_templates (launch_plan l))))
      (launch_paths l) (new_secret_injector w) = (Inr m', st2) \<and> map_of secrets = map_of m'"
    by (rule inject_all_repeatable [OF V _ ign nu d' perm' inj]) (rule poll_fetch)
  then obtain m' st2 where
    poll: "inject_all L (V\<lparr>renewer := None\<rparr>) (poll_config C) (visit P 4 (clone_map (plan_templates (launch_plan l))))
      (launch_paths l) (new_secret_injector w) = (Inr m', st2)" and eq: "map_of secrets = map_of m'" by blast
  have ds: "distinct_keys secrets" "distinct_keys m'"
    using inject_all_distinct [OF inj] inject_all_distinct [OF poll] by blast+
  have "compute_secrets_hash m' = plan_hash (launch_plan l)"
    unfolding hash
  proof (rule secrets_hash.digest_map [OF ds(2)])
    have dv: "distinct_keys (visit P 2 secrets)" using distinct_keys_mset [OF perm] ds(1) by blast
    then show "distinct_keys (clone_map (visit P 2 secrets))" by (simp add: clone_map_id)
    show "map_of m' = map_of (clone_map (visit P 2 secrets))"
      using map_of_mset [OF perm dv] eq by (simp add: clone_map_id [OF dv])
  qed
  with poll C(1) show ?thesis by (simp add: poll_tick_def poll_secrets_def)
qed

lemma watch_templates_set:
  assumes "watch_templates ts b wt = (b', wt')"
  shows "set wt' \<subseteq> {nv \<in> set ts. \<not> is_update_reference (snd nv)} \<union> set wt"
  using assms
proof (induction ts b wt rule: watch_templates.induct)
  case (2 name v ts b wt)
  have "set (AList.update name v wt) \<subseteq> insert (name, v) (set wt)" by (induction wt) auto
  with 2 show ?case by (auto split: if_splits)
qed simp

lemma inject_all_no_write:
  assumes "list_all (\<lambda>nv. \<not> performs_update (snd nv)) refs"
  shows "inject_all L (V\<lparr>v_write := f\<rparr>) C refs paths st = inject_all L V C refs paths st"
proof -
  have *: "inject_path_list L (V\<lparr>v_write := f\<rparr>) C ps st = inject_path_list L V C ps st" for ps st
    by (induction L V C ps st rule: inject_path_list.induct)
       (auto simp: read_vault_path_no_write split: prod.splits sum.splits option.splits)
  show ?thesis
    unfolding inject_all_def inject_secrets_from_vault_def inject_secrets_from_vault_path_def
      inject_no_write(1) [OF assms] * ..
qed

subsection \<open>Properties\<close>

text \<open>A start that watches values: \<open>A\<close> refers to the store.\<close>

definition watch_env :: environ where
  "watch_env = [''VAULT_ENV_RESTART_ON_SECRET_CHANGE=watch-for-data'', ''A=secrets-store:p#k'']"

abbreviation watch_run :: "(startup_error + launch) \<times> environ \<times> nat" where
  "watch_run \<equiv> main_prepare kv_libs kv_store (login_sys login_answer) plain_os watch_env ''app'' [] 0"

abbreviation watch_vars :: str_map where
  "watch_vars \<equiv> [(''VAULT_ENV_RESTART_ON_SECRET_CHANGE'', ''watch-for-data''), (''A'', ''secrets-store:p#k'')]"

text \<open>A start without login marker succeeds when its parts do.\<close>

lemma main_prepare_ReadyI:
  assumes "look_path P cmd w = (Some bin, w1)" "new_vault_client S env w1 = (Inr c, env, w2)"
    and "getenv env ''VAULT_TOKEN'' \<noteq> vault_login" "parse_environ env [] = Some vars"
    and "fst (inject_all L (V\<lparr>renewer := (if daemon_run (read_modes S P env) then Some (daemon_renew S) else None)\<rparr>)
      \<lparr>ignore_missing_secrets = to_bool S (getenv env ''VAULT_IGNORE_MISSING_SECRETS''),
       daemon_mode = daemon_run (read_modes S P env)\<rparr> (visit P 0 vars) (getenv env ''VAULT_ENV_FROM_PATH'')
      (new_secret_injector w2)) = Inr secrets"
  shows "\<exists>l w'. main_prepare L V S P env cmd args w = (Inr l, env, w') \<and>
    launch_daemon l = daemon_run (read_modes S P env) \<and>
    launch_plan l = make_watch_plan P (watch_data (read_modes S P env)) vars secrets (getenv env ''VAULT_ENV_FROM_PATH'')"
proof -
  from assms(5) obtain st where "inject_all L (V\<lparr>renewer := (if daemon_run (read_modes S P env) then Some (daemon_renew S) else None)\<rparr>)
      \<lparr>ignore_missing_secrets = to_bool S (getenv env ''VAULT_IGNORE_MISSING_SECRETS''),
       daemon_mode = daemon_run (read_modes S P env)\<rparr> (visit P 0 vars) (getenv env ''VAULT_ENV_FROM_PATH'')
      (new_secret_injector w2) = (Inr secrets, st)" by (metis prod.collapse)
  with assms(1-4) show ?thesis
    unfolding main_prepare_def Let_def by (simp split: prod.split)
qed

lemma watch_run_ready:
  obtains l w' where "watch_run = (Inr l, watch_env, w')" "plan_active (launch_plan l)" "\<not> launch_daemon l"
    "parse_environ watch_env [] = Some watch_vars" "plan_templates (launch_plan l) = watch_vars"
proof -
  have nc: "new_vault_client (login_sys login_answer) watch_env 0 = (Inr logged_in, watch_env, 1)" by code_simp
  have pe: "parse_environ watch_env [] = Some watch_vars" by code_simp
  have lp: "look_path plain_os ''app'' 0 = (Some ''/bin/app'', 0)" by (simp add: plain_os_def)
  have vl: "getenv watch_env ''VAULT_TOKEN'' \<noteq> vault_login" by code_simp
  have "fst (inject_all kv_libs (kv_store\<lparr>renewer := (if daemon_run (read_modes (login_sys login_answer) plain_os watch_env)
        then Some (daemon_renew (login_sys login_answer)) else None)\<rparr>)
      \<lparr>ignore_missing_secrets = to_bool (login_sys login_answer) (getenv watch_env ''VAULT_IGNORE_MISSING_SECRETS''),
       daemon_mode = daemon_run (read_modes (login_sys login_answer) plain_os watch_env)\<rparr>
      (visit plain_os 0 watch_vars) (getenv watch_env ''VAULT_ENV_FROM_PATH'') (new_secret_injector 1)) =
    Inr [(''VAULT_ENV_RESTART_ON_SECRET_CHANGE'', ''watch-for-data''), (''A'', ''v'')]" by code_simp
  from main_prepare_ReadyI [OF lp nc vl pe this, of "[]"] obtain l w' where run: "watch_run = (Inr l, watch_env, w')"
    and l: "launch_daemon l = daemon_run (read_modes (login_sys login_answer) plain_os watch_env)"
      "launch_plan l = make_watch_plan plain_os (watch_data (read_modes (login_sys login_answer) plain_os watch_env))
        watch_vars [(''VAULT_ENV_RESTART_ON_SECRET_CHANGE'', ''watch-for-data''), (''A'', ''v'')]
        (getenv watch_env ''VAULT_ENV_FROM_PATH'')" by blast
  have m: "daemon_run (read_modes (login_sys login_answer) plain_os watch_env) = False"
    "watch_data (read_modes (login_sys login_answer) plain_os watch_env) = True"
    "getenv watch_env ''VAULT_ENV_FROM_PATH'' = ''''" by code_simp+
  have t: "watch_templates (visit plain_os 1 watch_vars) b [] = (b, watch_vars)" for b by code_simp
  have h: "has_watched_secrets '''' watch_vars" by code_simp
  have "plan_active (launch_plan l)" "plan_templates (launch_plan l) = watch_vars"
    unfolding l(2) m make_watch_plan_def t using h by simp_all
  with that run l(1) pe m(1) show thesis by blast
qed
text \<open>Runs from that start: the application exits, and a lease ends before it.\<close>

abbreviation watch_reach :: "launch \<Rightarrow> bool list \<Rightarrow> nat process \<Rightarrow> bool" where
  "watch_reach l rs p \<equiv> process_reach kv_libs kv_store (login_sys login_answer) plain_os watch_env l rs p"

lemma exited_reach:
  "watch_reach l rs (start_process l rs w\<lparr>child := Some WaitOk\<rparr>)"
  "watch_reach l rs (start_process l rs w\<lparr>child := Some WaitOk, watch_cancelled := True, exit_code := Some 0\<rparr>)"
proof -
  let ?p = "start_process l rs w"
  let ?p1 = "?p\<lparr>child := Some WaitOk\<rparr>"
  let ?p2 = "?p1\<lparr>watch_cancelled := True\<rparr>"
  have n: "exit_code ?p = None" "child ?p = None" "restart_due_to_change ?p = False"
    by (simp_all add: start_process_def)
  show r1: "watch_reach l rs ?p1"
    by (rule process_reach.step [OF process_reach.start n(1) child_exit [OF n(2)]])
  have r2: "watch_reach l rs ?p2"
    by (rule process_reach.step [OF r1 _ main_cancel [of _ WaitOk]]) (simp_all add: n)
  have "process_step kv_libs kv_store (login_sys login_answer) plain_os watch_env l ?p2
      (?p2\<lparr>exit_code := Some (final_exit_code (restart_due_to_change ?p2) WaitOk)\<rparr>)"
    by (rule main_exit) (simp_all add: n)
  from process_reach.step [OF r2 _ this] n
  show "watch_reach l rs (?p\<lparr>child := Some WaitOk, watch_cancelled := True, exit_code := Some 0\<rparr>)"
    by (simp add: final_exit_code_def)
qed

lemma lease_reach:
  "\<exists>p. watch_reach l [True] p \<and> delivered p = [SIGTERM] \<and> sends p = [(Lease 0, SIGTERM)]"
proof -
  let ?p = "start_process l [True] (0 :: nat)"
  let ?p1 = "?p\<lparr>leases := (leases ?p)[0 := (True, LeaseTerm)]\<rparr>"
  let ?p2 = "send_signal (Lease 0) SIGTERM ?p1\<lparr>leases := (leases ?p1)[0 := (True, LeaseGrace)]\<rparr>"
  let ?p3 = "?p2\<lparr>channel := [], delivered := delivered ?p2 @ [SIGTERM]\<rparr>"
  have "watch_reach l [True] ?p1"
    by (rule process_reach.step [OF process_reach.start _ lease_silent [where ren = True and ph = Renewing]]) (simp_all add: start_process_def)
  then have "watch_reach l [True] ?p2"
    by (rule process_reach.step [OF _ _ lease_send [where ph = LeaseTerm]]) (simp_all add: start_process_def)
  then have "watch_reach l [True] ?p3"
    by (rule process_reach.step [OF _ _ forward]) (simp_all add: start_process_def send_signal_def)
  then show ?thesis by (intro exI [of _ ?p3]) (simp add: start_process_def send_signal_def)
qed

text \<open>C9: the restart protocol of the value watcher. Whatever the interleaving, it sends at most
  \<open>SIGTERM\<close> and then \<open>SIGKILL\<close>, each once; it sends nothing before the restart is flagged, and the
  restart is flagged only after a poll whose digest differs from the one at the start.\<close>

theorem watcher_restart_protocol:
  assumes "process_reach L V S P env l rs p"
  shows "sent_by ValueWatcher p \<in> {[], [SIGTERM], [SIGTERM, SIGKILL]} \<and>
    (sent_by ValueWatcher p \<noteq> [] \<longrightarrow> restart_due_to_change p) \<and>
    (restart_due_to_change p \<longrightarrow> (\<exists>h. polled_hash p = Some h \<and> h \<noteq> plan_hash (launch_plan l)))"
proof -
  have inv: "watch_inv (plan_hash (launch_plan l)) p" using process_reach_inv [OF assms] by blast
  then have "watch_sent WatchDone (sent_by ValueWatcher p)"
    using watch_step_sent(4) unfolding watch_inv_def by blast
  with inv show ?thesis by (auto simp: watch_inv_def)
qed

theorem watcher_restart_protocol_witness:
  "\<exists>l p. watch_reach l [True] p \<and> delivered p = [SIGTERM] \<and> sent_by ValueWatcher p \<in> {[], [SIGTERM], [SIGTERM, SIGKILL]}"
proof -
  obtain l p where p: "watch_reach l [True] p" "delivered p = [SIGTERM]" using lease_reach by blast
  from watcher_restart_protocol [OF p(1)] p show ?thesis by (intro exI [of _ l] exI [of _ p]) blast
qed

text \<open>C25: no signal reaches the application out of order, and none comes out of nowhere: what it got is
  a subsequence of what was sent, the kubelet's signals are the registered ones, and every \<open>SIGKILL\<close>
  was preceded by a \<open>SIGTERM\<close> of the same watcher or lease.\<close>

theorem signals_forwarded_in_order:
  assumes "process_reach L V S P env l rs p"
  shows "subseq (delivered p) (map snd (sends p)) \<and> length (channel p) \<le> 1 \<and>
    (\<forall>who. (who, SIGKILL) \<in> set (sends p) \<longrightarrow> who \<noteq> Kubelet \<and> sent_by who p = [SIGTERM, SIGKILL])"
proof -
  from process_reach_inv [OF assms] have inv: "watch_inv (plan_hash (launch_plan l)) p" "lease_inv p" "channel_inv p"
    by blast+
  have "subseq (delivered p) (map snd (sends p))"
    using inv(3) unfolding channel_inv_def by (metis prefix_imp_subseq prefixI subseq_order.trans)
  moreover have "who \<noteq> Kubelet \<and> sent_by who p = [SIGTERM, SIGKILL]" if k: "(who, SIGKILL) \<in> set (sends p)" for who
  proof (cases who)
    case Kubelet
    with k inv(2) show ?thesis by (auto simp: lease_inv_def kubernetes_signals_def)
  next
    case ValueWatcher
    have "SIGKILL \<in> set (sent_by ValueWatcher p)" using k ValueWatcher by force
    moreover have "watch_sent WatchDone (sent_by ValueWatcher p)"
      using inv(1) watch_step_sent(4) unfolding watch_inv_def by blast
    ultimately have "sent_by ValueWatcher p = [SIGTERM, SIGKILL]" by (rule watch_sent_kill)
    with ValueWatcher show ?thesis by simp
  next
    case (Lease n)
    have "SIGKILL \<in> set (sent_by (Lease n) p)" using k Lease by force
    with inv(2) have "n < length (leases p)" "SIGKILL \<in> set (lease_sent (snd (leases p ! n)))"
      unfolding lease_inv_def by (metis empty_iff empty_set not_le)+
    then have "lease_sent (snd (leases p ! n)) = [SIGTERM, SIGKILL]"
      by (cases "snd (leases p ! n)") auto
    with inv(2) Lease \<open>n < length (leases p)\<close> show ?thesis by (simp add: lease_inv_def)
  qed
  ultimately show ?thesis using inv(3) by (simp add: channel_inv_def)
qed

theorem signals_forwarded_in_order_witness:
  "\<exists>l p. watch_reach l [True] p \<and> delivered p = [SIGTERM] \<and> subseq (delivered p) (map snd (sends p))"
proof -
  obtain l p where p: "watch_reach l [True] p" "delivered p = [SIGTERM]" using lease_reach by blast
  from signals_forwarded_in_order [OF p(1)] p show ?thesis by blast
qed

text \<open>The exit code. A process that was restarted because of a change exits with 2; otherwise it
  passes on the result of the application: 0, the code of its exit, or -1 for any other failure.\<close>

theorem exit_code_of_process:
  assumes "process_reach L V S P env l rs p" "exit_code p = Some c"
  shows "\<exists>r. child p = Some r \<and>
    c = (if restart_due_to_change p then 2 else case r of WaitOk \<Rightarrow> 0 | WaitExit n \<Rightarrow> n | WaitError \<Rightarrow> - 1)"
  using process_reach_inv [OF assms(1)] assms(2) by (auto simp: exit_inv_def final_exit_code_def)

theorem exit_code_of_process_witness:
  "\<exists>l p r. watch_reach l [] p \<and> exit_code p = Some 0 \<and> child p = Some r"
proof -
  fix l
  let ?p = "start_process l [] (0 :: nat)\<lparr>child := Some WaitOk, watch_cancelled := True, exit_code := Some 0\<rparr>"
  have e: "exit_code ?p = Some 0" by simp
  from exit_code_of_process [OF exited_reach(2) e] e exited_reach(2) [of l "[]" 0] show ?thesis by blast
qed

text \<open>The process ends when the application ends. From every reachable state in which the
  application has exited, \<open>main\<close> can exit by its own steps alone: no full channel and no waiting watcher
  keeps it.\<close>

theorem main_exits_after_child:
  assumes "process_reach L V S P env l rs p" "child p = Some r" "exit_code p = None"
  shows "\<exists>p1 p2. process_step L V S P env l p p1 \<and> process_step L V S P env l p1 p2 \<and> exit_code p2 \<noteq> None"
proof (intro exI conjI)
  let ?p1 = "p\<lparr>watch_cancelled := True\<rparr>"
  show "process_step L V S P env l p ?p1" using assms(2) by (rule main_cancel)
  show "process_step L V S P env l ?p1
      (?p1\<lparr>exit_code := Some (final_exit_code (restart_due_to_change ?p1) r)\<rparr>)"
    using assms(2,3) by (intro main_exit) simp_all
qed simp

theorem main_exits_after_child_witness:
  "\<exists>l p1 p2. process_step kv_libs kv_store (login_sys login_answer) plain_os watch_env l
       (start_process l [] 0\<lparr>child := Some WaitOk\<rparr>) p1 \<and>
     process_step kv_libs kv_store (login_sys login_answer) plain_os watch_env l p1 p2 \<and> exit_code p2 \<noteq> None"
  using main_exits_after_child [OF exited_reach(1) [of _ "[]" 0]] by (force simp: start_process_def)

text \<open>C4: polling alone never restarts the application, in a daemon too. Suppose that Vault answers the same
  request (a read, the renewal of a lease) always in the same way, from the start on, and that no variable is or
  contains an update reference. Then in every reachable state a poll succeeds and reports no change, even when leases
  are renewed beside it and Vault's secrets have leases (a poll has no renewer); no restart is flagged and no signal
  sent by the watcher, and the exit code is the application's own; whatever the orders in which Go
  visits the maps at the start and in each poll.\<close>

theorem unchanged_secrets_never_restart:
  assumes "main_prepare L V S P env cmd args w0 = (Inr l, env', w1)"
    and "stable_vault (start_vault V S P env) rd rn tok"
    and "\<And>vars. parse_environ env' [] = Some vars \<Longrightarrow> update_free vars"
    and "\<And>n m. mset (visit P n m) = mset m"
    and "process_reach L V S P env' l rs p"
  shows "(watch_state p = Polling \<longrightarrow>
      (\<exists>w. poll_tick L V S P env' (launch_config l) (plan_templates (launch_plan l)) (launch_paths l)
         (plan_hash (launch_plan l)) (proc_client p) (proc_world p) = (Unchanged, proc_client p, w))) \<and>
    \<not> restart_due_to_change p \<and> sent_by ValueWatcher p = [] \<and>
    (\<forall>c. exit_code p = Some c \<longrightarrow> (\<exists>r. child p = Some r \<and> c = final_exit_code False r))"
proof -
  have "\<not> restart_due_to_change p \<and> watch_state p \<in> {Polling, WatchDone} \<and>
      (watch_state p = Polling \<longrightarrow> plan_active (launch_plan l))"
    using assms(5)
  proof (induction rule: process_reach.induct)
    case (start w)
    then show ?case by (simp add: start_process_def)
  next
    case (step p q)
    from step(3) step(4) show ?case
    proof (cases rule: process_step.cases)
      case poll
      with step(4) obtain w' where "poll_tick L V S P env' (launch_config l) (plan_templates (launch_plan l))
          (launch_paths l) (plan_hash (launch_plan l)) (proc_client p) (proc_world p) = (Unchanged, proc_client p, w')"
        using poll_unchanged [OF assms(1-4)] by blast
      with poll step(4) show ?thesis by (simp add: poll_process_def)
    qed (use step(4) in \<open>auto simp: send_signal_def\<close>)
  qed
  with process_reach_inv [OF assms(5)] poll_unchanged [OF assms(1-4)] show ?thesis
    by (auto simp: watch_inv_def exit_inv_def)
qed

text \<open>A daemon that also watches values, with a secret that has a lease.\<close>

definition lease_store :: "nat vault" where
  "lease_store = kv_vault [(''p'', kv_secret [(''k'', VStr ''v'')]\<lparr>lease_duration := 60\<rparr>)]"

definition both_env :: environ where
  "both_env = [''VAULT_ENV_DAEMON=true'', ''VAULT_ENV_RESTART_ON_SECRET_CHANGE=watch-for-data'', ''A=secrets-store:p#k'']"

abbreviation both_vars :: str_map where
  "both_vars \<equiv> [(''VAULT_ENV_DAEMON'', ''true''), (''VAULT_ENV_RESTART_ON_SECRET_CHANGE'', ''watch-for-data''),
     (''A'', ''secrets-store:p#k'')]"

abbreviation both_run :: "(startup_error + launch) \<times> environ \<times> nat" where
  "both_run \<equiv> main_prepare kv_libs lease_store (login_sys login_answer) plain_os both_env ''app'' [] 0"

lemma both_run_ready:
  obtains l w' where "both_run = (Inr l, both_env, w')" "plan_active (launch_plan l)" "launch_daemon l"
proof -
  let ?S = "login_sys login_answer"
  have m: "daemon_run (read_modes ?S plain_os both_env) = True" "watch_data (read_modes ?S plain_os both_env) = True"
    "getenv both_env ''VAULT_ENV_FROM_PATH'' = ''''" by code_simp+
  have "new_vault_client ?S both_env 0 = (Inr logged_in, both_env, 1)" "getenv both_env ''VAULT_TOKEN'' \<noteq> vault_login"
    "parse_environ both_env [] = Some both_vars"
    "fst (inject_all kv_libs (lease_store\<lparr>renewer := (if daemon_run (read_modes ?S plain_os both_env)
        then Some (daemon_renew ?S) else None)\<rparr>)
      \<lparr>ignore_missing_secrets = to_bool ?S (getenv both_env ''VAULT_IGNORE_MISSING_SECRETS''),
       daemon_mode = daemon_run (read_modes ?S plain_os both_env)\<rparr>
      (visit plain_os 0 both_vars) (getenv both_env ''VAULT_ENV_FROM_PATH'') (new_secret_injector 1)) =
    Inr [(''VAULT_ENV_DAEMON'', ''true''), (''VAULT_ENV_RESTART_ON_SECRET_CHANGE'', ''watch-for-data''), (''A'', ''v'')]"
    by code_simp+
  moreover have "look_path plain_os ''app'' 0 = (Some ''/bin/app'', 0)" by (simp add: plain_os_def)
  ultimately obtain l w' where run: "both_run = (Inr l, both_env, w')" and l: "launch_daemon l"
      "launch_plan l = make_watch_plan plain_os True both_vars
        [(''VAULT_ENV_DAEMON'', ''true''), (''VAULT_ENV_RESTART_ON_SECRET_CHANGE'', ''watch-for-data''), (''A'', ''v'')] ''''"
    using main_prepare_ReadyI [of plain_os "''app''" 0 "''/bin/app''" 0 ?S both_env logged_in 1 both_vars kv_libs lease_store
        "[(''VAULT_ENV_DAEMON'', ''true''), (''VAULT_ENV_RESTART_ON_SECRET_CHANGE'', ''watch-for-data''), (''A'', ''v'')]" "[]"]
    unfolding m by metis
  have "watch_templates (visit plain_os 1 both_vars) b [] = (b, both_vars)" for b by code_simp
  moreover have "has_watched_secrets '''' both_vars" by code_simp
  ultimately have "plan_active (launch_plan l)" by (simp add: l(2) make_watch_plan_def)
  with that run l(1) show thesis by blast
qed

theorem unchanged_secrets_never_restart_witness:
  "\<exists>l w'. both_run = (Inr l, both_env, w') \<and> launch_daemon l \<and>
    fst (poll_tick kv_libs lease_store (login_sys login_answer) plain_os both_env (launch_config l)
      (plan_templates (launch_plan l)) (launch_paths l) (plan_hash (launch_plan l)) (launch_client l) 0) = Unchanged"
proof (rule both_run_ready)
  fix l w'
  assume run: "both_run = (Inr l, both_env, w')" and active: "plan_active (launch_plan l)" and daemon: "launch_daemon l"
  have d: "daemon_run (read_modes (login_sys login_answer) plain_os both_env)" by code_simp
  then have st: "stable_vault (start_vault lease_store (login_sys login_answer) plain_os both_env)
      (\<lambda>p v. Inr (map_of [(''p'', kv_secret [(''k'', VStr ''v'')]\<lparr>lease_duration := 60\<rparr>)] p)) (Some (\<lambda>p s. None)) ''tok''"
    by (simp add: stable_vault_def start_vault_def lease_store_def kv_vault_def daemon_renew_def login_sys_def)
  have "parse_environ both_env [] = Some both_vars" "update_free both_vars" by code_simp+
  then have free: "update_free vars" if "parse_environ both_env [] = Some vars" for vars using that by simp
  have order: "mset (visit plain_os n m) = mset m" for n m by (simp add: plain_os_def)
  note main = unchanged_secrets_never_restart [OF run st free order process_reach.start, THEN conjunct1]
  have "watch_state (start_process l [] (0 :: nat)) = Polling" using active by (simp add: start_process_def)
  with main [of "[]" 0] run daemon show ?thesis by (force simp: start_process_def)
qed

text \<open>A poll never needs the renewer it does not have: it cannot fail by calling the nil renewer, in
  daemon mode neither, whatever Vault answers.\<close>

theorem poll_needs_no_renewer:
  "fst (poll_secrets L V P C templates paths w) \<noteq> Inl (InjectFailed NilRenewer) \<and>
   fst (poll_secrets L V P C templates paths w) \<noteq> Inl (InjectPathFailed NilRenewer)"
proof -
  have d: "\<not> daemon_mode (poll_config C)" by (simp add: poll_config_def)
  define V' where "V' = V\<lparr>renewer := None\<rparr>"
  obtain r em st1 where i: "inject_refs L V' (poll_config C) (visit P 4 (clone_map templates)) (new_secret_injector w) = (r, em, st1)"
    by (cases "inject_refs L V' (poll_config C) (visit P 4 (clone_map templates)) (new_secret_injector w)")
  obtain r' em' st2 where p: "inject_path_list L V' (poll_config C) (split_on (CHR '','') paths) st1 = (r', em', st2)"
    by (cases "inject_path_list L V' (poll_config C) (split_on (CHR '','') paths) st1")
  have "r \<noteq> Some NilRenewer" "r' \<noteq> Some NilRenewer"
    using inject_no_nil [OF d, of L V' "visit P 4 (clone_map templates)" "new_secret_injector w"] i
      inject_path_list_no_nil [OF d, of L V' "split_on (CHR '','') paths" st1] p by simp_all
  with i p show ?thesis
    unfolding poll_secrets_def inject_all_def inject_secrets_from_vault_def inject_secrets_from_vault_path_def
      V'_def [symmetric]
    by (cases r; cases r') simp_all
qed

text \<open>C39: polling is read-only. Of an environment in which no variable nests one inline reference in another, the templates
  that the start selects for the watcher resolve without a single write to Vault: with any other write function
  a poll does the same. (Go's loops over a map visit its entries. With nested references the filter is not enough.)\<close>

theorem polling_never_writes:
  assumes "main_prepare L V S P env cmd args w0 = (Inr l, env', w1)"
    and "\<And>vars n v. parse_environ env' [] = Some vars \<Longrightarrow> (n, v) \<in> set vars \<Longrightarrow>
      list_all (\<lambda>mg. \<not> has_inline_vault_delimiters (snd mg)) (find_inline_vault_delimiters v)"
    and "\<And>n m. mset (visit P n m) = mset m"
  shows "poll_secrets L (V\<lparr>v_write := f\<rparr>) P C (plan_templates (launch_plan l)) paths w =
    poll_secrets L V P C (plan_templates (launch_plan l)) paths w"
proof (rule main_prepare_ReadyD [OF assms(1)])
  fix environ secrets
  assume pe: "parse_environ env' [] = Some environ"
    and plan: "launch_plan l = make_watch_plan P (watch_data (read_modes S P env)) environ secrets (launch_paths l)"
  have visit: "set (visit P n m) = set m" for n m using assms(3) by (rule mset_eq_setD)
  have "nv \<in> set environ \<and> \<not> is_update_reference (snd nv)" if nv: "nv \<in> set (plan_templates (launch_plan l))" for nv
  proof -
    obtain b' wt' where wt: "watch_templates (visit P 1 environ) (clone_map (visit P 2 secrets)) [] = (b', wt')"
      by (cases "watch_templates (visit P 1 environ) (clone_map (visit P 2 secrets)) []")
    with plan nv have "nv \<in> set wt'" by (auto simp: make_watch_plan_def split: if_splits)
    with watch_templates_set [OF wt] visit show ?thesis by auto
  qed
  then have "\<not> performs_update (snd nv)" if "nv \<in> set (plan_templates (launch_plan l))" for nv
    using that assms(2) [OF pe] update_filter_complete [of "snd nv"] by (metis prod.collapse)
  moreover have "set (clone_map (plan_templates (launch_plan l))) \<subseteq> set (plan_templates (launch_plan l))"
    unfolding clone_map_def using set_assign_all [of "plan_templates (launch_plan l)" "[]"] by simp
  ultimately have "list_all (\<lambda>nv. \<not> performs_update (snd nv)) (visit P 4 (clone_map (plan_templates (launch_plan l))))"
    by (auto simp: list_all_iff visit)
  moreover have "V\<lparr>v_write := f, renewer := None\<rparr> = V\<lparr>renewer := None\<rparr>\<lparr>v_write := f\<rparr>" by simp
  ultimately show ?thesis
    unfolding poll_secrets_def by (simp only: inject_all_no_write)
qed

theorem polling_never_writes_witness:
  "\<exists>l w'. watch_run = (Inr l, watch_env, w') \<and>
     poll_secrets kv_libs (kv_store\<lparr>v_write := (\<lambda>p d w. (Inl (OtherError ''denied''), w))\<rparr>) plain_os kv_config
       (plan_templates (launch_plan l)) '''' 0 =
     poll_secrets kv_libs kv_store plain_os kv_config (plan_templates (launch_plan l)) '''' 0"
proof (rule watch_run_ready)
  fix l w'
  assume run: "watch_run = (Inr l, watch_env, w')" and pe: "parse_environ watch_env [] = Some watch_vars"
  have "list_all (\<lambda>nv. list_all (\<lambda>mg. \<not> has_inline_vault_delimiters (snd mg)) (find_inline_vault_delimiters (snd nv)))
    watch_vars" by code_simp
  then have "list_all (\<lambda>mg. \<not> has_inline_vault_delimiters (snd mg)) (find_inline_vault_delimiters v)"
    if "parse_environ watch_env [] = Some vars" "(n, v) \<in> set vars" for vars n v
    using that unfolding pe option.inject list_all_iff by force
  moreover have "mset (visit plain_os n m) = mset m" for n m by (simp add: plain_os_def)
  ultimately show ?thesis using polling_never_writes [OF run] run by blast
qed

text \<open>A change is detected. If a poll finds nothing changed, then the secrets it read are those of
  the baseline, key by key and value by value, unless the two encodings collide under SHA-256.\<close>

theorem unchanged_poll_means_same_secrets:
  assumes "poll_secrets L V P C templates paths w = (Inr m, w1)" "good_secrets m" "good_secrets b"
    and "poll_tick L V S P env C templates paths (compute_secrets_hash b) c w = (Unchanged, c', w')"
  shows "map_of m = map_of b \<or> sha_collision m b"
proof -
  have "compute_secrets_hash m = compute_secrets_hash b"
    using assms(1,4) by (simp add: poll_tick_def Let_def split: if_splits)
  then show ?thesis using secrets_hash.digest_inj assms(2,3) by blast
qed

theorem unchanged_poll_means_same_secrets_witness:
  "fst (poll_tick kv_libs kv_store (login_sys login_answer) plain_os [] kv_config [(''A'', ''secrets-store:p#k'')] ''''
      (compute_secrets_hash [(''A'', ''v'')]) init_client 0) = Unchanged \<and>
   (map_of [(''A'', ''v'')] = map_of [(''A'', ''v'')] \<or> sha_collision [(''A'', ''v'')] [(''A'', ''v'')])"
proof
  have p: "poll_secrets kv_libs kv_store plain_os kv_config [(''A'', ''secrets-store:p#k'')] '''' 0 =
    (Inr [(''A'', ''v'')], 0)" by code_simp
  have t: "poll_tick kv_libs kv_store (login_sys login_answer) plain_os [] kv_config [(''A'', ''secrets-store:p#k'')] ''''
      (compute_secrets_hash [(''A'', ''v'')]) init_client 0 = (Unchanged, init_client, 0)"
    unfolding poll_tick_def p by simp
  then show "fst (poll_tick kv_libs kv_store (login_sys login_answer) plain_os [] kv_config
      [(''A'', ''secrets-store:p#k'')] '''' (compute_secrets_hash [(''A'', ''v'')]) init_client 0) = Unchanged" by simp
  have g: "good_secrets [(''A'', ''v'')]" by (simp add: good_secrets_def)
  show "map_of [(''A'', ''v'')] = map_of [(''A'', ''v'')] \<or> sha_collision [(''A'', ''v'')] [(''A'', ''v'')]"
    by (rule unchanged_poll_means_same_secrets [OF p g g t])
qed

end
