(* ===== verification/Watcher_Term.thy ===== *)
theory Watcher_Term
  imports Watcher_Props
begin

text \<open>
  The goroutines of the env-injector cannot run forever on their own: without a signal of the kubelet, and
  without polls and other events that change the client or the world, every run of the process ends, and
  once the application has exited it ends with the exit of \<open>main\<close>.
\<close>

definition own_step ::
  "libs \<Rightarrow> 'w vault \<Rightarrow> 'w sys \<Rightarrow> 'w os \<Rightarrow> environ \<Rightarrow> launch \<Rightarrow> 'w process \<Rightarrow> 'w process \<Rightarrow> bool" where
  "own_step L V S P env l p q \<longleftrightarrow>
     process_step L V S P env l p q \<and> q \<noteq> p \<and> proc_client q = proc_client p \<and> proc_world q = proc_world p \<and>
     filter (\<lambda>x. fst x = Kubelet) (sends q) = filter (\<lambda>x. fst x = Kubelet) (sends p)"

fun watch_rank :: "watch_phase \<Rightarrow> nat" where
  "watch_rank Polling = 4"
| "watch_rank SendTerm = 3"
| "watch_rank Grace = 2"
| "watch_rank SendKill = 1"
| "watch_rank WatchDone = 0"

fun lease_rank :: "lease_phase \<Rightarrow> nat" where
  "lease_rank Renewing = 5"
| "lease_rank LeaseSleep = 4"
| "lease_rank LeaseTerm = 3"
| "lease_rank LeaseGrace = 2"
| "lease_rank LeaseKill = 1"
| "lease_rank LeaseDone = 0"

text \<open>What is left to do: three for every phase, since sending puts a signal into the channel.\<close>

definition work_left :: "'w process \<Rightarrow> nat" where
  "work_left p =
     3 * watch_rank (watch_state p) + 3 * sum_list (map (lease_rank \<circ> snd) (leases p)) + length (channel p) +
     (if child p = None then 1 else 0) + (if watch_cancelled p then 0 else 1) +
     (if exit_code p = None then 1 else 0) + (if forwarding p then 1 else 0)"

lemma watch_step_rank: "watch_step ph = Some (ph', s) \<Longrightarrow> watch_rank ph = Suc (watch_rank ph')"
  by (cases ph) auto

lemma lease_step_rank: "lease_step ren ph = Some (ph', s) \<Longrightarrow> lease_rank ph' < lease_rank ph"
  by (cases ph) auto

lemma sum_leases_update:
  assumes "n < length ls" "ls ! n = (ren, ph)" "lease_rank ph' < lease_rank ph"
  shows "sum_list (map (lease_rank \<circ> snd) (ls[n := (ren, ph')])) < sum_list (map (lease_rank \<circ> snd) ls)"
  using assms
proof (induction ls arbitrary: n)
  case (Cons x ls)
  then show ?case by (cases n) auto
qed simp

lemma poll_wait_cases:
  obtains (changed) h c w where "poll_process L V S P env l p = p\<lparr>proc_client := c, proc_world := w, polled_hash := Some h,
              restart_due_to_change := True, watch_state := SendTerm\<rparr>"
  | (same) c w where "poll_process L V S P env l p = p\<lparr>proc_client := c, proc_world := w\<rparr>"
proof -
  obtain out c w where t: "poll_tick L V S P env (launch_config l) (plan_templates (launch_plan l)) (launch_paths l)
      (plan_hash (launch_plan l)) (proc_client p) (proc_world p) = (out, c, w)"
    by (rule prod_cases3)
  show thesis
  proof (cases out)
    case (Changed h)
    show thesis by (rule changed [where h = h and c = c and w = w]) (simp only: poll_process_def t Changed prod.case poll_outcome.case)
  next
    case Unchanged
    show thesis by (rule same [where c = c and w = w]) (simp only: poll_process_def t Unchanged prod.case poll_outcome.case)
  next
    case (PollFailed e r)
    show thesis by (rule same [where c = c and w = w]) (simp only: poll_process_def t PollFailed prod.case poll_outcome.case)
  qed
qed

lemma own_step_decreases:
  assumes "own_step L V S P env l p q"
  shows "work_left q < work_left p"
proof -
  have step: "process_step L V S P env l p q" and ne: "q \<noteq> p" and unmoved: "proc_client q = proc_client p" "proc_world q = proc_world p"
    and kube: "filter (\<lambda>x. fst x = Kubelet) (sends q) = filter (\<lambda>x. fst x = Kubelet) (sends p)"
    using assms by (simp_all add: own_step_def)
  from step show ?thesis
  proof (cases rule: process_step.cases)
    case poll
    show ?thesis
    proof (cases rule: poll_wait_cases [of L V S P env l p])
      case (changed h c w)
      show ?thesis unfolding poll(1) changed using poll(2) by (simp add: work_left_def)
    next
      case (same c w)
      with poll(1) have "q = p\<lparr>proc_client := c, proc_world := w\<rparr>" by simp
      moreover from this have "c = proc_client p" "w = proc_world p" using unmoved by simp_all
      ultimately have "q = p" by simp
      with ne show ?thesis by simp
    qed
  next
    case (watch_silent ph)
    then show ?thesis using watch_step_rank [OF watch_silent(2)] by (simp add: work_left_def)
  next
    case (watch_send ph s)
    then show ?thesis using watch_step_rank [OF watch_send(2)] by (simp add: work_left_def send_signal_def)
  next
    case watch_cancel
    then show ?thesis using ne by (cases "watch_state p") (auto simp: work_left_def)
  next
    case (lease_silent n ren ph ph')
    then show ?thesis using sum_leases_update [OF lease_silent(2,3) lease_step_rank [OF lease_silent(4)]]
      by (simp add: work_left_def)
  next
    case (lease_send n ren ph ph' s)
    then show ?thesis using sum_leases_update [OF lease_send(2,3) lease_step_rank [OF lease_send(4)]]
      by (simp add: work_left_def send_signal_def)
  next
    case (kubelet s)
    then show ?thesis using kube by (simp add: send_signal_def)
  next
    case (main_cancel r)
    then show ?thesis using ne by (cases "watch_cancelled p") (auto simp: work_left_def)
  next
    case (outside w)
    then show ?thesis using ne unmoved by simp
  qed (simp_all add: work_left_def)
qed

lemma main_can_move:
  assumes "child p = Some r" "exit_code p = None"
  shows "\<exists>q. own_step L V S P env l p q"
proof (cases "watch_cancelled p")
  case True
  let ?q = "p\<lparr>exit_code := Some (final_exit_code (restart_due_to_change p) r)\<rparr>"
  have "exit_code ?q \<noteq> exit_code p" using assms(2) by simp
  then have "?q \<noteq> p" by metis
  with main_exit [OF assms(1) True assms(2)] show ?thesis by (auto simp: own_step_def intro!: exI [of _ ?q])
next
  case False
  let ?q = "p\<lparr>watch_cancelled := True\<rparr>"
  have "watch_cancelled ?q \<noteq> watch_cancelled p" using False by simp
  then have "?q \<noteq> p" by metis
  with process_step.main_cancel [OF assms(1)] show ?thesis by (auto simp: own_step_def intro!: exI [of _ ?q])
qed

text \<open>C11: every run of the process's own steps ends, in any interleaving of its goroutines; and a state with
  no step left in which the application has exited is one in which \<open>main\<close> has exited. So once the
  application is gone, no schedule keeps the process from ending.\<close>

theorem own_steps_terminate:
  "wfp (\<lambda>q p. own_step L V S P env l p q) \<and>
   (child p = Some r \<and> (\<forall>q. \<not> own_step L V S P env l p q) \<longrightarrow> exit_code p \<noteq> None)"
proof
  show "wfp (\<lambda>q p. own_step L V S P env l p q)"
    by (rule wfp_if_convertible_to_nat [where f = work_left]) (rule own_step_decreases)
  show "child p = Some r \<and> (\<forall>q. \<not> own_step L V S P env l p q) \<longrightarrow> exit_code p \<noteq> None"
    using main_can_move by blast
qed

theorem own_steps_terminate_witness:
  "\<exists>l q. own_step kv_libs kv_store (login_sys login_answer) plain_os watch_env l
     (start_process l [] (0 :: nat)\<lparr>child := Some WaitOk\<rparr>) q"
proof -
  let ?p = "\<lambda>l. start_process l [] (0 :: nat)\<lparr>child := Some WaitOk\<rparr>"
  have "child (?p l) = Some WaitOk" "exit_code (?p l) = None" for l by (simp_all add: start_process_def)
  then show ?thesis
    using own_steps_terminate [of kv_libs kv_store "login_sys login_answer" plain_os watch_env _ "?p _" WaitOk] by blast
qed

end
