(* ===== verification/Fair_Runs.thy ===== *)
theory Fair_Runs
  imports Prelude
begin

text \<open>
  Infinite runs of a step relation whose actors are scheduled fairly, and the rules for what such runs lead to.
  A state that is \<open>final\<close> is repeated for ever. An actor is ready in a state in which it can act; it is
  scheduled fairly if it acts again and again whenever it is ready again and again: the order of
  goroutines that wait for a channel is that of their arrival, so none of them waits for ever.
\<close>

definition run_of :: "('s \<Rightarrow> 's \<Rightarrow> bool) \<Rightarrow> ('s \<Rightarrow> bool) \<Rightarrow> (nat \<Rightarrow> 's) \<Rightarrow> bool" where
  "run_of step final \<sigma> \<longleftrightarrow> (\<forall>i. if final (\<sigma> i) then \<sigma> (Suc i) = \<sigma> i else step (\<sigma> i) (\<sigma> (Suc i)))"

definition ready :: "('g \<Rightarrow> 's \<Rightarrow> 's \<Rightarrow> bool) \<Rightarrow> ('s \<Rightarrow> bool) \<Rightarrow> 'g \<Rightarrow> 's \<Rightarrow> bool" where
  "ready acts final g p \<longleftrightarrow> \<not> final p \<and> (\<exists>q. acts g p q)"

definition fair_run :: "('g \<Rightarrow> 's \<Rightarrow> 's \<Rightarrow> bool) \<Rightarrow> ('s \<Rightarrow> bool) \<Rightarrow> (nat \<Rightarrow> 's) \<Rightarrow> bool" where
  "fair_run acts final \<sigma> \<longleftrightarrow>
     (\<forall>g. (\<forall>i. \<exists>j\<ge>i. ready acts final g (\<sigma> j)) \<longrightarrow> (\<forall>i. \<exists>j\<ge>i. \<not> final (\<sigma> j) \<and> acts g (\<sigma> j) (\<sigma> (Suc j))))"

text \<open>
  The interface of a system of actors: what an actor does is a step of the system. Its clients show that
  one state leads to another: \<open>P\<close> stays until \<open>Q\<close>, an actor that acts under \<open>P\<close> gives \<open>Q\<close>, and it is ready
  again and again as long as \<open>P\<close> stays.
\<close>

locale actor_system =
  fixes step :: "'s \<Rightarrow> 's \<Rightarrow> bool" and acts :: "'g \<Rightarrow> 's \<Rightarrow> 's \<Rightarrow> bool" and final :: "'s \<Rightarrow> bool"
  assumes acts_step: "acts g p q \<Longrightarrow> \<not> final p \<Longrightarrow> step p q"
begin

lemma run_step: "run_of step final \<sigma> \<Longrightarrow> \<not> final (\<sigma> i) \<Longrightarrow> step (\<sigma> i) (\<sigma> (Suc i))"
  by (auto simp: run_of_def)

lemma run_final: "run_of step final \<sigma> \<Longrightarrow> final (\<sigma> i) \<Longrightarrow> i \<le> j \<Longrightarrow> \<sigma> j = \<sigma> i"
proof (induction "j - i" arbitrary: j)
  case (Suc n)
  then obtain k where k: "j = Suc k" "i \<le> k" "n = k - i" by (cases j) auto
  with Suc have "\<sigma> k = \<sigma> i" by simp
  with Suc.prems k show ?case by (metis run_of_def)
qed simp

text \<open>What holds until something else does, holds for ever or up to then.\<close>

lemma stays_or_leaves:
  assumes run: "run_of step final \<sigma>" and "P (\<sigma> i)"
    and keep: "\<And>j. i \<le> j \<Longrightarrow> P (\<sigma> j) \<Longrightarrow> \<not> final (\<sigma> j) \<Longrightarrow> step (\<sigma> j) (\<sigma> (Suc j)) \<Longrightarrow> P (\<sigma> (Suc j)) \<or> Q (\<sigma> (Suc j))"
    and none: "\<forall>j\<ge>i. \<not> Q (\<sigma> j)"
  shows "i \<le> j \<Longrightarrow> P (\<sigma> j)"
proof (induction "j - i" arbitrary: j)
  case 0
  then show ?case using assms(2) by simp
next
  case (Suc n)
  then obtain k where k: "j = Suc k" "i \<le> k" "n = k - i" by (cases j) auto
  with Suc have P: "P (\<sigma> k)" by simp
  show ?case
  proof (cases "final (\<sigma> k)")
    case True
    with run P k show ?thesis by (metis run_of_def)
  next
    case False
    from keep [OF k(2) P False run_step [OF run False]] none k show ?thesis by auto
  qed
qed

lemma leads_to:
  assumes run: "run_of step final \<sigma>" and fair: "fair_run acts final \<sigma>" and P: "P (\<sigma> i)"
    and keep: "\<And>j. i \<le> j \<Longrightarrow> P (\<sigma> j) \<Longrightarrow> \<not> final (\<sigma> j) \<Longrightarrow> step (\<sigma> j) (\<sigma> (Suc j)) \<Longrightarrow> P (\<sigma> (Suc j)) \<or> Q (\<sigma> (Suc j))"
    and move: "\<And>j. i \<le> j \<Longrightarrow> P (\<sigma> j) \<Longrightarrow> \<not> final (\<sigma> j) \<Longrightarrow> acts g (\<sigma> j) (\<sigma> (Suc j)) \<Longrightarrow> Q (\<sigma> (Suc j))"
    and again: "(\<And>j. i \<le> j \<Longrightarrow> P (\<sigma> j)) \<Longrightarrow> \<forall>k. \<exists>j\<ge>k. ready acts final g (\<sigma> j)"
  shows "\<exists>j\<ge>i. Q (\<sigma> j)"
proof (rule ccontr)
  assume "\<not> ?thesis"
  then have none: "\<forall>j\<ge>i. \<not> Q (\<sigma> j)" by blast
  have stays: "P (\<sigma> j)" if "i \<le> j" for j
    using stays_or_leaves [OF run P keep none that] .
  from again [OF stays] fair obtain j where "i \<le> j" "\<not> final (\<sigma> j)" "acts g (\<sigma> j) (\<sigma> (Suc j))"
    unfolding fair_run_def by blast
  with move [OF _ stays] none show False by (metis le_SucI)
qed

text \<open>An actor that is ready all the time is ready again and again.\<close>

lemma leads_to_ready:
  assumes run: "run_of step final \<sigma>" and fair: "fair_run acts final \<sigma>" and P: "P (\<sigma> i)"
    and keep: "\<And>j. i \<le> j \<Longrightarrow> P (\<sigma> j) \<Longrightarrow> \<not> final (\<sigma> j) \<Longrightarrow> step (\<sigma> j) (\<sigma> (Suc j)) \<Longrightarrow> P (\<sigma> (Suc j)) \<or> Q (\<sigma> (Suc j))"
    and move: "\<And>j. i \<le> j \<Longrightarrow> P (\<sigma> j) \<Longrightarrow> \<not> final (\<sigma> j) \<Longrightarrow> acts g (\<sigma> j) (\<sigma> (Suc j)) \<Longrightarrow> Q (\<sigma> (Suc j))"
    and can: "\<And>j. i \<le> j \<Longrightarrow> P (\<sigma> j) \<Longrightarrow> ready acts final g (\<sigma> j)"
  shows "\<exists>j\<ge>i. Q (\<sigma> j)"
proof (rule leads_to [where \<sigma> = \<sigma> and P = P and Q = Q and g = g, OF run fair P keep move])
  show "\<forall>k. \<exists>j\<ge>k. ready acts final g (\<sigma> j)" if "\<And>j. i \<le> j \<Longrightarrow> P (\<sigma> j)"
    using can [OF _ that] by (meson nat_le_linear order_refl)
qed

text \<open>From one goal to the next, as long as each stays reachable.\<close>

lemma leads_on:
  fixes \<sigma> :: "nat \<Rightarrow> 's"
  assumes "\<exists>j\<ge>i. Q (\<sigma> j)" "\<And>j. i \<le> j \<Longrightarrow> Q (\<sigma> j) \<Longrightarrow> \<exists>k\<ge>j. R (\<sigma> k)"
  shows "\<exists>k\<ge>i. R (\<sigma> k)"
proof -
  from assms(1) obtain j where j: "i \<le> j" "Q (\<sigma> j)" by blast
  with assms(2) obtain k where "j \<le> k" "R (\<sigma> k)" by blast
  moreover have "i \<le> k" using j(1) \<open>j \<le> k\<close> by (rule order_trans)
  ultimately show ?thesis by blast
qed

end

end
