(* ===== verification/Watcher_Live.thy ===== *)
theory Watcher_Live
  imports Watcher_Props Fair_Runs
begin

text \<open>
  What the running env-injector gets done: the goroutines of \<open>process_step\<close> as actors that Go schedules
  fairly, and the restart that a changed secret leads to.
\<close>

subsection \<open>The goroutines\<close>

datatype goroutine = WatchLoop | SignalLoop | MainLoop

definition watch_acts ::
  "libs \<Rightarrow> 'w vault \<Rightarrow> 'w sys \<Rightarrow> 'w os \<Rightarrow> environ \<Rightarrow> launch \<Rightarrow> 'w process \<Rightarrow> 'w process \<Rightarrow> bool" where
  "watch_acts L V S P env l p q \<longleftrightarrow>
     (if watch_cancelled p then watch_state p \<noteq> WatchDone \<and> q = p\<lparr>watch_state := WatchDone\<rparr>
      else if watch_state p = Polling then q = poll_process L V S P env l p
      else case watch_step (watch_state p) of
        None \<Rightarrow> False
      | Some (ph, None) \<Rightarrow> q = p\<lparr>watch_state := ph\<rparr>
      | Some (ph, Some s) \<Rightarrow> channel p = [] \<and> q = send_signal ValueWatcher s p\<lparr>watch_state := ph\<rparr>)"

definition signal_acts :: "'w process \<Rightarrow> 'w process \<Rightarrow> bool" where
  "signal_acts p q \<longleftrightarrow> forwarding p \<and>
     (case channel p of
        [] \<Rightarrow> False
      | s # cs \<Rightarrow>
          if child p = None
          then q = p\<lparr>channel := cs, delivered := delivered p @ [s]\<rparr> \<or> q = p\<lparr>channel := cs\<rparr>
          else q = p\<lparr>channel := cs, forwarding := False\<rparr>)"

definition main_acts :: "'w process \<Rightarrow> 'w process \<Rightarrow> bool" where
  "main_acts p q \<longleftrightarrow>
     (case child p of
        None \<Rightarrow> False
      | Some r \<Rightarrow>
          if watch_cancelled p then exit_code p = None \<and> q = p\<lparr>exit_code := Some (final_exit_code (restart_due_to_change p) r)\<rparr>
          else q = p\<lparr>watch_cancelled := True\<rparr>)"

fun goroutine_acts ::
  "libs \<Rightarrow> 'w vault \<Rightarrow> 'w sys \<Rightarrow> 'w os \<Rightarrow> environ \<Rightarrow> launch \<Rightarrow> goroutine \<Rightarrow> 'w process \<Rightarrow> 'w process \<Rightarrow> bool" where
  "goroutine_acts L V S P env l WatchLoop p q = watch_acts L V S P env l p q"
| "goroutine_acts L V S P env l SignalLoop p q = signal_acts p q"
| "goroutine_acts L V S P env l MainLoop p q = main_acts p q"

definition has_exited :: "'w process \<Rightarrow> bool" where
  "has_exited p \<longleftrightarrow> exit_code p \<noteq> None"

lemma watch_acts_step:
  assumes "watch_acts L V S P env l p q"
  shows "process_step L V S P env l p q"
proof (cases "watch_cancelled p \<or> watch_state p = Polling")
  case True
  with assms show ?thesis by (auto simp: watch_acts_def intro: process_step.intros split: if_splits)
next
  case False
  with assms obtain ph s where "watch_step (watch_state p) = Some (ph, s)"
    by (auto simp: watch_acts_def split: option.splits)
  with False assms show ?thesis
    by (cases s) (auto simp: watch_acts_def intro: process_step.watch_silent process_step.watch_send)
qed

lemma signal_acts_step:
  assumes "signal_acts p q"
  shows "process_step L V S P env l p q"
proof -
  from assms obtain s cs where "forwarding p" "channel p = s # cs" by (auto simp: signal_acts_def split: list.splits)
  with assms show ?thesis
    by (cases "child p") (auto simp: signal_acts_def intro: process_step.forward process_step.forward_failed process_step.forward_stop)
qed

lemma main_acts_step: "main_acts p q \<Longrightarrow> process_step L V S P env l p q"
  by (auto simp: main_acts_def intro: process_step.main_cancel process_step.main_exit split: option.splits if_splits)

interpretation goroutines: actor_system "process_step L V S P env l" "goroutine_acts L V S P env l" has_exited
  for L and V :: "'w vault" and S P env l
proof
  show "process_step L V S P env l p q" if "goroutine_acts L V S P env l g p q" for g and p q :: "'w process"
    using that watch_acts_step signal_acts_step main_acts_step by (cases g) auto
qed

subsection \<open>Runs of a process\<close>

text \<open>A fair run from the start of the application, in which a SIGKILL that the forwarding goroutine takes from
  the channel ends the application.\<close>

definition fair_process ::
  "libs \<Rightarrow> 'w vault \<Rightarrow> 'w sys \<Rightarrow> 'w os \<Rightarrow> environ \<Rightarrow> launch \<Rightarrow> (nat \<Rightarrow> 'w process) \<Rightarrow> bool" where
  "fair_process L V S P env l \<sigma> \<longleftrightarrow>
     run_of (process_step L V S P env l) has_exited \<sigma> \<and> fair_run (goroutine_acts L V S P env l) has_exited \<sigma> \<and>
     (\<exists>rs w. \<sigma> 0 = start_process l rs w)"

definition kill_ends_app :: "(nat \<Rightarrow> 'w process) \<Rightarrow> bool" where
  "kill_ends_app \<sigma> \<longleftrightarrow>
     (\<forall>i. channel (\<sigma> i) = [SIGKILL] \<and> channel (\<sigma> (Suc i)) = [] \<longrightarrow> (\<exists>j>i. child (\<sigma> j) \<noteq> None))"

lemma process_reach_run:
  assumes "fair_process L V S P env l \<sigma>"
  shows "\<exists>rs. \<forall>i. process_reach L V S P env l rs (\<sigma> i)"
proof -
  from assms obtain rs w where 0: "\<sigma> 0 = start_process l rs w" by (auto simp: fair_process_def)
  have "process_reach L V S P env l rs (\<sigma> i)" for i
  proof (induction i)
    case 0
    show ?case unfolding \<open>\<sigma> 0 = _\<close> by (rule process_reach.start)
  next
    case (Suc i)
    show ?case
    proof (cases "has_exited (\<sigma> i)")
      case True
      with assms Suc show ?thesis by (auto simp: fair_process_def run_of_def dest: spec [of _ i])
    next
      case False
      with assms Suc show ?thesis
        by (intro process_reach.step [OF Suc]) (auto simp: fair_process_def run_of_def has_exited_def dest: spec [of _ i])
    qed
  qed
  then show ?thesis by blast
qed

text \<open>While the application runs, its signals are forwarded and nothing is cancelled.\<close>

lemma forwarding_inv: "process_reach L V S P env l rs p \<Longrightarrow> child p = None \<longrightarrow> forwarding p"
proof (induction rule: process_reach.induct)
  case (step p q)
  from step(3) step(4) show ?case
  proof (cases rule: process_step.cases)
    case poll
    with step(4) poll_process_cases [of L V S P env l p] show ?thesis by auto
  qed (use step(4) in \<open>auto simp: send_signal_def\<close>)
qed (simp add: start_process_def)

lemma alive_run:
  assumes "fair_process L V S P env l \<sigma>" "child (\<sigma> i) = None"
  shows "forwarding (\<sigma> i)" "\<not> watch_cancelled (\<sigma> i)" "\<not> has_exited (\<sigma> i)"
proof -
  obtain rs where r: "process_reach L V S P env l rs (\<sigma> i)" using process_reach_run [OF assms(1)] by blast
  from forwarding_inv [OF r] process_reach_inv [OF r] assms(2)
  show "forwarding (\<sigma> i)" "\<not> watch_cancelled (\<sigma> i)" "\<not> has_exited (\<sigma> i)"
    by (auto simp: exit_inv_def has_exited_def)
qed

lemma fair_processD:
  assumes "fair_process L V S P env l \<sigma>"
  shows "run_of (process_step L V S P env l) has_exited \<sigma>" "fair_run (goroutine_acts L V S P env l) has_exited \<sigma>"
  using assms by (auto simp: fair_process_def)

lemma poll_keeps:
  "child (poll_process L V S P env l p) = child p" "channel (poll_process L V S P env l p) = channel p"
  "watch_cancelled (poll_process L V S P env l p) = watch_cancelled p" "exit_code (poll_process L V S P env l p) = exit_code p"
  "forwarding (poll_process L V S P env l p) = forwarding p"
  "watch_state (poll_process L V S P env l p) \<in> {watch_state p, SendTerm}"
  using poll_process_cases [of L V S P env l p] by auto

text \<open>What one step can do to the parts of the state the goroutines wait for.\<close>

lemma step_channel:
  "process_step L V S P env l p q \<Longrightarrow> channel p \<noteq> [] \<Longrightarrow> channel q = channel p \<or> channel q = tl (channel p) \<and> signal_acts p q"
  by (cases rule: process_step.cases) (auto simp: poll_keeps signal_acts_def)

lemma step_watch:
  "process_step L V S P env l p q \<Longrightarrow> watch_state q = watch_state p \<or> watch_cancelled p \<or> watch_acts L V S P env l p q"
  by (cases rule: process_step.cases) (auto simp: watch_acts_def send_signal_def)

lemma step_child:
  "process_step L V S P env l p q \<Longrightarrow> child p \<noteq> None \<Longrightarrow> child q = child p"
  "process_step L V S P env l p q \<Longrightarrow> watch_cancelled p \<Longrightarrow> watch_cancelled q"
  by (erule process_step.cases; auto simp: poll_keeps send_signal_def)+

text \<open>A signal in the channel is taken out of it.\<close>

lemma channel_drains:
  assumes "fair_process L V S P env l \<sigma>"
  shows "\<exists>j\<ge>i. channel (\<sigma> j) = [] \<or> child (\<sigma> j) \<noteq> None"
proof (cases "channel (\<sigma> i) = [] \<or> child (\<sigma> i) \<noteq> None")
  case False
  show ?thesis
  proof (rule goroutines.leads_to_ready [OF fair_processD [OF assms], where P = "\<lambda>p. channel p \<noteq> [] \<and> child p = None"
        and g = SignalLoop])
    show "channel (\<sigma> i) \<noteq> [] \<and> child (\<sigma> i) = None" using False by simp
    fix j
    assume P: "channel (\<sigma> j) \<noteq> [] \<and> child (\<sigma> j) = None"
    show "ready (goroutine_acts L V S P env l) has_exited SignalLoop (\<sigma> j)"
      using P alive_run [OF assms, of j]
      by (cases "channel (\<sigma> j)") (auto simp: ready_def signal_acts_def)
    show "channel (\<sigma> (Suc j)) = [] \<or> child (\<sigma> (Suc j)) \<noteq> None"
      if "goroutine_acts L V S P env l SignalLoop (\<sigma> j) (\<sigma> (Suc j))"
    proof -
      obtain rs where "process_reach L V S P env l rs (\<sigma> j)" using process_reach_run [OF assms] by blast
      then have "channel_inv (\<sigma> j)" using process_reach_inv by blast
      then have "length (channel (\<sigma> j)) \<le> 1" by (simp add: channel_inv_def)
      with that P show ?thesis by (auto simp: signal_acts_def split: list.splits)
    qed
  qed auto
qed blast

text \<open>Each phase of the restart is followed by the next one, unless the application exits.\<close>

lemma watch_advances:
  assumes fair: "fair_process L V S P env l \<sigma>" and ph: "watch_step ph = Some (ph', s)"
    and start: "watch_state (\<sigma> i) = ph" "child (\<sigma> i) = None"
  shows "\<exists>j\<ge>i. watch_state (\<sigma> j) = ph' \<and> (case s of None \<Rightarrow> True | Some x \<Rightarrow> channel (\<sigma> j) = [x]) \<or> child (\<sigma> j) \<noteq> None"
proof (rule goroutines.leads_to [OF fair_processD [OF fair], where P = "\<lambda>p. watch_state p = ph \<and> child p = None"
      and g = WatchLoop])
  have np: "ph \<noteq> Polling" using ph by auto
  show "watch_state (\<sigma> i) = ph \<and> child (\<sigma> i) = None" using start by simp
  fix j
  have moved: "watch_state (\<sigma> (Suc j)) = ph' \<and> (case s of None \<Rightarrow> True | Some x \<Rightarrow> channel (\<sigma> (Suc j)) = [x])"
    if "watch_acts L V S P env l (\<sigma> j) (\<sigma> (Suc j))" "watch_state (\<sigma> j) = ph \<and> child (\<sigma> j) = None"
    using that np ph alive_run [OF fair, of j] by (cases s) (auto simp: watch_acts_def send_signal_def)
  assume P: "watch_state (\<sigma> j) = ph \<and> child (\<sigma> j) = None"
  show "(watch_state (\<sigma> (Suc j)) = ph \<and> child (\<sigma> (Suc j)) = None) \<or>
      (watch_state (\<sigma> (Suc j)) = ph' \<and> (case s of None \<Rightarrow> True | Some x \<Rightarrow> channel (\<sigma> (Suc j)) = [x]) \<or> child (\<sigma> (Suc j)) \<noteq> None)"
    if "process_step L V S P env l (\<sigma> j) (\<sigma> (Suc j))"
    using step_watch [OF that] moved P alive_run [OF fair, of j] by auto
  show "watch_state (\<sigma> (Suc j)) = ph' \<and> (case s of None \<Rightarrow> True | Some x \<Rightarrow> channel (\<sigma> (Suc j)) = [x]) \<or> child (\<sigma> (Suc j)) \<noteq> None"
    if "goroutine_acts L V S P env l WatchLoop (\<sigma> j) (\<sigma> (Suc j))"
    using moved that P by simp
next
  assume stays: "\<And>j. i \<le> j \<Longrightarrow> watch_state (\<sigma> j) = ph \<and> child (\<sigma> j) = None"
  show "\<forall>k. \<exists>j\<ge>k. ready (goroutine_acts L V S P env l) has_exited WatchLoop (\<sigma> j)"
  proof
    fix k
    obtain j where j: "max i k \<le> j" "channel (\<sigma> j) = [] \<or> child (\<sigma> j) \<noteq> None"
      using channel_drains [OF fair] by blast
    with stays [of j] have "watch_state (\<sigma> j) = ph" "channel (\<sigma> j) = []" "child (\<sigma> j) = None" by auto
    then have "ready (goroutine_acts L V S P env l) has_exited WatchLoop (\<sigma> j)"
      using alive_run [OF fair, of j] ph by (cases s; cases ph) (auto simp: ready_def watch_acts_def)
    with j(1) show "\<exists>j\<ge>k. ready (goroutine_acts L V S P env l) has_exited WatchLoop (\<sigma> j)" by auto
  qed
qed

text \<open>Once the application has exited, \<open>main\<close> cancels the watchers and exits.\<close>

lemma exits_after_child:
  assumes fair: "fair_process L V S P env l \<sigma>" and dead: "child (\<sigma> i) \<noteq> None"
  shows "\<exists>j\<ge>i. has_exited (\<sigma> j)"
proof (rule goroutines.leads_on [where Q = "\<lambda>p. child p \<noteq> None \<and> (watch_cancelled p \<or> has_exited p)"])
  show "\<exists>j\<ge>i. child (\<sigma> j) \<noteq> None \<and> (watch_cancelled (\<sigma> j) \<or> has_exited (\<sigma> j))"
  proof (cases "watch_cancelled (\<sigma> i) \<or> has_exited (\<sigma> i)")
    case False
    show ?thesis
      by (rule goroutines.leads_to_ready [OF fair_processD [OF fair], where g = MainLoop
            and P = "\<lambda>p. child p \<noteq> None \<and> \<not> watch_cancelled p \<and> \<not> has_exited p"])
         (use False dead in \<open>auto simp: ready_def main_acts_def dest: step_child(1) split: option.splits\<close>)
  qed (use dead in blast)
  fix j
  assume j: "child (\<sigma> j) \<noteq> None \<and> (watch_cancelled (\<sigma> j) \<or> has_exited (\<sigma> j))"
  show "\<exists>k\<ge>j. has_exited (\<sigma> k)"
  proof (cases "has_exited (\<sigma> j)")
    case False
    show ?thesis
      by (rule goroutines.leads_to_ready [OF fair_processD [OF fair], where g = MainLoop
            and P = "\<lambda>p. child p \<noteq> None \<and> watch_cancelled p \<and> \<not> has_exited p"])
         (use False j in \<open>auto simp: ready_def main_acts_def has_exited_def dest: step_child split: option.splits\<close>)
  qed blast
qed

text \<open>Signals of the channel: the kill arrives.\<close>

lemma kill_is_taken:
  fixes f :: "nat \<Rightarrow> bool"
  assumes "f i" "\<not> f k" "i \<le> k"
  shows "\<exists>m\<ge>i. f m \<and> \<not> f (Suc m)"
  using assms(3,1,2) by (induction rule: dec_induct) auto

lemma restart_flag_stays:
  "process_step L V S P env l p q \<Longrightarrow> restart_due_to_change p \<Longrightarrow> restart_due_to_change q"
  using poll_process_cases [of L V S P env l p] by (erule_tac process_step.cases) (auto simp: send_signal_def)

lemma restart_flag_run:
  assumes fair: "fair_process L V S P env l \<sigma>" and flag: "restart_due_to_change (\<sigma> i)"
  shows "i \<le> j \<Longrightarrow> restart_due_to_change (\<sigma> j)"
proof (induction rule: dec_induct)
  case (step n)
  note run = fair_processD(1) [OF fair]
  show ?case
  proof (cases "has_exited (\<sigma> n)")
    case True
    with goroutines.run_final [OF run True, of "Suc n"] step show ?thesis by simp
  qed (use restart_flag_stays [OF goroutines.run_step [OF run]] step in blast)
qed (rule flag)

lemma kill_phase_exits:
  assumes fair: "fair_process L V S P env l \<sigma>" and kill: "kill_ends_app \<sigma>" and i: "channel (\<sigma> i) = [SIGKILL]"
  shows "\<exists>j\<ge>i. child (\<sigma> j) \<noteq> None"
proof (rule ccontr)
  assume "\<not> ?thesis"
  then have alive: "\<forall>j\<ge>i. child (\<sigma> j) = None" by blast
  obtain k where k: "i \<le> k" "channel (\<sigma> k) = [] \<or> child (\<sigma> k) \<noteq> None" using channel_drains [OF fair] by blast
  with alive have "channel (\<sigma> k) = []" by auto
  with kill_is_taken [of "\<lambda>j. channel (\<sigma> j) = [SIGKILL]", OF i _ k(1)] obtain m where
    m: "i \<le> m" "channel (\<sigma> m) = [SIGKILL]" "channel (\<sigma> (Suc m)) \<noteq> [SIGKILL]" by auto
  have "process_step L V S P env l (\<sigma> m) (\<sigma> (Suc m))"
    using goroutines.run_step [OF fair_processD(1) [OF fair]] alive_run [OF fair] alive m(1) by blast
  from step_channel [OF this] m(2,3) have "channel (\<sigma> (Suc m)) = []" by auto
  with kill m(2) obtain j where "m < j" "child (\<sigma> j) \<noteq> None" by (auto simp: kill_ends_app_def)
  with alive m(1) show False by auto
qed

subsection \<open>Properties\<close>

lemma change_restarts:
  assumes fair: "fair_process L V S P env l \<sigma>" and kill: "kill_ends_app \<sigma>" and seen: "watch_state (\<sigma> i) = SendTerm"
  shows "\<exists>j\<ge>i. exit_code (\<sigma> j) = Some 2"
proof -
  have adv: "(\<exists>j\<ge>i. watch_state (\<sigma> j) = ph' \<and> (case s of None \<Rightarrow> True | Some x \<Rightarrow> channel (\<sigma> j) = [x]) \<or> child (\<sigma> j) \<noteq> None)"
    if "watch_step ph = Some (ph', s)" "\<exists>j\<ge>i. watch_state (\<sigma> j) = ph \<or> child (\<sigma> j) \<noteq> None" for ph ph' s
    using that(2) by (rule goroutines.leads_on) (use watch_advances [OF fair that(1)] in blast)
  have "\<exists>j\<ge>i. watch_state (\<sigma> j) = SendTerm \<or> child (\<sigma> j) \<noteq> None" using seen by blast
  then have "\<exists>j\<ge>i. watch_state (\<sigma> j) = Grace \<or> child (\<sigma> j) \<noteq> None" using adv [of SendTerm Grace "Some SIGTERM"] by auto
  then have "\<exists>j\<ge>i. watch_state (\<sigma> j) = SendKill \<or> child (\<sigma> j) \<noteq> None" using adv [of Grace SendKill None] by auto
  then have "\<exists>j\<ge>i. channel (\<sigma> j) = [SIGKILL] \<or> child (\<sigma> j) \<noteq> None" using adv [of SendKill WatchDone "Some SIGKILL"] by auto
  then have "\<exists>j\<ge>i. child (\<sigma> j) \<noteq> None"
    by (rule goroutines.leads_on) (use kill_phase_exits [OF fair kill] in blast)
  then obtain j where j: "i \<le> j" "has_exited (\<sigma> j)"
    using goroutines.leads_on [of i "\<lambda>p. child p \<noteq> None" \<sigma> has_exited] exits_after_child [OF fair] by blast
  obtain rs where reach: "\<And>i. process_reach L V S P env l rs (\<sigma> i)" using process_reach_run [OF fair] by blast
  have "restart_due_to_change (\<sigma> i)" using process_reach_inv [OF reach [of i]] seen by (simp add: watch_inv_def)
  then have "restart_due_to_change (\<sigma> j)" by (rule restart_flag_run [OF fair _ j(1)])
  with process_reach_inv [OF reach [of j]] j show ?thesis by (auto simp: exit_inv_def has_exited_def final_exit_code_def)
qed

definition poll_differs :: "libs \<Rightarrow> 'w vault \<Rightarrow> 'w os \<Rightarrow> launch \<Rightarrow> 'w process \<Rightarrow> bool" where
  "poll_differs L V P l p \<longleftrightarrow>
     (\<exists>secrets w. poll_secrets L V P (launch_config l) (plan_templates (launch_plan l)) (launch_paths l) (proc_world p) = (Inr secrets, w) \<and>
        compute_secrets_hash secrets \<noteq> plan_hash (launch_plan l))"

lemma poll_differs_changes: "poll_differs L V P l p \<Longrightarrow> watch_state (poll_process L V S P env l p) = SendTerm"
  by (auto simp: poll_differs_def poll_process_def poll_tick_def Let_def)

text \<open>C5: a changed secret ends in a restart. In every run in which Go schedules the goroutines fairly and a SIGKILL
  that is forwarded ends the application: once a poll has seen a change, the env-injector exits with
  code 2, which asks for a restart, even if the application ignores SIGTERM; and if the polls find secrets
  that differ from those of the start, then one of them sees it, unless the application exits first.\<close>

theorem changed_secret_restarts:
  assumes fair: "fair_process L V S P env l \<sigma>" and kill: "kill_ends_app \<sigma>"
  shows "(watch_state (\<sigma> i) = SendTerm \<longrightarrow> (\<exists>j\<ge>i. exit_code (\<sigma> j) = Some 2)) \<and>
    (watch_state (\<sigma> i) = Polling \<and> (\<forall>j\<ge>i. watch_state (\<sigma> j) = Polling \<longrightarrow> poll_differs L V P l (\<sigma> j)) \<longrightarrow>
       (\<exists>j\<ge>i. exit_code (\<sigma> j) = Some 2) \<or> (\<exists>j\<ge>i. child (\<sigma> j) \<noteq> None \<and> watch_state (\<sigma> j) = Polling))"
proof (intro conjI impI)
  show "\<exists>j\<ge>i. exit_code (\<sigma> j) = Some 2" if "watch_state (\<sigma> i) = SendTerm"
    using change_restarts [OF fair kill that] .
next
  assume polls: "watch_state (\<sigma> i) = Polling \<and> (\<forall>j\<ge>i. watch_state (\<sigma> j) = Polling \<longrightarrow> poll_differs L V P l (\<sigma> j))"
  show "(\<exists>j\<ge>i. exit_code (\<sigma> j) = Some 2) \<or> (\<exists>j\<ge>i. child (\<sigma> j) \<noteq> None \<and> watch_state (\<sigma> j) = Polling)"
  proof (rule disjCI)
    assume "\<not> (\<exists>j\<ge>i. child (\<sigma> j) \<noteq> None \<and> watch_state (\<sigma> j) = Polling)"
    then have alive: "child (\<sigma> j) = None" if "i \<le> j" "watch_state (\<sigma> j) = Polling" for j using that by blast
    have moved: "watch_state (\<sigma> (Suc j)) = SendTerm"
      if "watch_acts L V S P env l (\<sigma> j) (\<sigma> (Suc j))" "i \<le> j" "watch_state (\<sigma> j) = Polling" for j
      using that polls alive_run [OF fair alive [OF that(2,3)]] by (auto simp: watch_acts_def poll_differs_changes)
    have "\<exists>j\<ge>i. watch_state (\<sigma> j) = SendTerm"
    proof (rule goroutines.leads_to_ready [OF fair_processD [OF fair], where P = "\<lambda>p. watch_state p = Polling" and g = WatchLoop])
      fix j assume j: "i \<le> j" "watch_state (\<sigma> j) = Polling"
      show "ready (goroutine_acts L V S P env l) has_exited WatchLoop (\<sigma> j)"
        using j alive_run [OF fair alive [OF j]] by (auto simp: ready_def watch_acts_def)
      show "watch_state (\<sigma> (Suc j)) = Polling \<or> watch_state (\<sigma> (Suc j)) = SendTerm"
        if "process_step L V S P env l (\<sigma> j) (\<sigma> (Suc j))"
        using step_watch [OF that] moved [OF _ j] j alive_run [OF fair alive [OF j]] by auto
    qed (use polls moved in auto)
    then show "\<exists>j\<ge>i. exit_code (\<sigma> j) = Some 2"
      by (rule goroutines.leads_on) (rule change_restarts [OF fair kill])
  qed
qed

subsection \<open>A run\<close>

text \<open>The application was started without secrets; the first poll finds one. It ignores SIGTERM.\<close>

definition live_launch :: launch where
  "live_launch = \<lparr>launch_binary = ''/bin/app'', launch_args = [], child_env = [], launch_daemon = False,
     launch_plan = \<lparr>plan_active = True, plan_templates = [(''A'', ''secrets-store:p#k'')], plan_hash = ''''\<rparr>,
     launch_paths = '''', launch_poll = 1, launch_delay = 0, launch_config = kv_config, launch_client = init_client\<rparr>"

definition live_schedule :: "(nat process \<Rightarrow> nat process) list" where
  "live_schedule =
     [poll_process kv_libs kv_store (login_sys login_answer) plain_os [] live_launch,
      \<lambda>p. send_signal ValueWatcher SIGTERM p\<lparr>watch_state := Grace\<rparr>,
      \<lambda>p. p\<lparr>channel := [], delivered := delivered p @ [SIGTERM]\<rparr>,
      \<lambda>p. p\<lparr>watch_state := SendKill\<rparr>,
      \<lambda>p. send_signal ValueWatcher SIGKILL p\<lparr>watch_state := WatchDone\<rparr>,
      \<lambda>p. p\<lparr>channel := [], delivered := delivered p @ [SIGKILL]\<rparr>,
      \<lambda>p. p\<lparr>child := Some (WaitExit 137)\<rparr>,
      \<lambda>p. p\<lparr>watch_cancelled := True\<rparr>,
      \<lambda>p. p\<lparr>exit_code := Some 2\<rparr>]"

definition live_run :: "nat \<Rightarrow> nat process" where
  "live_run i = fold (\<lambda>f. f) (take i live_schedule) (start_process live_launch [] 0)"

lemma live_poll:
  "\<exists>h c. poll_process kv_libs kv_store (login_sys login_answer) plain_os [] live_launch (start_process live_launch [] 0) =
     start_process live_launch [] 0 \<lparr>proc_client := c, polled_hash := Some h, restart_due_to_change := True, watch_state := SendTerm\<rparr>"
proof -
  have s: "poll_secrets kv_libs kv_store plain_os kv_config [(''A'', ''secrets-store:p#k'')] '''' 0 = (Inr [(''A'', ''v'')], 0)"
    by code_simp
  have "compute_secrets_hash [(''A'', ''v'')] \<noteq> ''''" using compute_secrets_hash_nonempty [of "[(''A'', ''v'')]"] by auto
  with s show ?thesis
    by (simp add: poll_process_def poll_tick_def start_process_def live_launch_def)
qed

lemma live_run_0: "live_run 0 = start_process live_launch [] 0"
  by (simp add: live_run_def)

lemma live_states:
  "live_run 1 = poll_process kv_libs kv_store (login_sys login_answer) plain_os [] live_launch (live_run 0)"
  "live_run 2 = send_signal ValueWatcher SIGTERM (live_run 1)\<lparr>watch_state := Grace\<rparr>"
  "live_run 3 = live_run 2\<lparr>channel := [], delivered := delivered (live_run 2) @ [SIGTERM]\<rparr>"
  "live_run 4 = live_run 3\<lparr>watch_state := SendKill\<rparr>"
  "live_run 5 = send_signal ValueWatcher SIGKILL (live_run 4)\<lparr>watch_state := WatchDone\<rparr>"
  "live_run 6 = live_run 5\<lparr>channel := [], delivered := delivered (live_run 5) @ [SIGKILL]\<rparr>"
  "live_run 7 = live_run 6\<lparr>child := Some (WaitExit 137)\<rparr>"
  "live_run 8 = live_run 7\<lparr>watch_cancelled := True\<rparr>"
  "live_run 9 = live_run 8\<lparr>exit_code := Some 2\<rparr>"
  by (simp_all add: live_run_def live_schedule_def)

lemma live_run_end: "live_run (9 + k) = live_run 9"
  by (simp add: live_run_def live_schedule_def)

text \<open>What the actors look at, in each state of the run.\<close>

definition view :: "'w process \<Rightarrow> signal list \<times> bool \<times> wait_result option \<times> watch_phase \<times> bool \<times> int option \<times> bool" where
  "view p = (channel p, forwarding p, child p, watch_state p, watch_cancelled p, exit_code p, restart_due_to_change p)"

lemma live_view:
  "map (view \<circ> live_run) [0, 1, 2, 3, 4, 5, 6, 7, 8, 9] =
    [([], True, None, Polling, False, None, False),
     ([], True, None, SendTerm, False, None, True),
     ([SIGTERM], True, None, Grace, False, None, True),
     ([], True, None, Grace, False, None, True),
     ([], True, None, SendKill, False, None, True),
     ([SIGKILL], True, None, WatchDone, False, None, True),
     ([], True, None, WatchDone, False, None, True),
     ([], True, Some (WaitExit 137), WatchDone, False, None, True),
     ([], True, Some (WaitExit 137), WatchDone, True, None, True),
     ([], True, Some (WaitExit 137), WatchDone, True, Some 2, True)]"
proof -
  have 0: "view (live_run 0) = ([], True, None, Polling, False, None, False)"
    by (simp add: live_run_0 view_def start_process_def live_launch_def)
  obtain h c where "live_run 1 = start_process live_launch [] 0
      \<lparr>proc_client := c, polled_hash := Some h, restart_due_to_change := True, watch_state := SendTerm\<rparr>"
    using live_poll live_states(1) by (auto simp: live_run_0)
  then have 1: "view (live_run 1) = ([], True, None, SendTerm, False, None, True)"
    by (simp only:) (simp add: view_def start_process_def)
  have 2: "view (live_run 2) = ([SIGTERM], True, None, Grace, False, None, True)"
    using 1 by (simp only: live_states(2)) (simp add: view_def send_signal_def)
  have 3: "view (live_run 3) = ([], True, None, Grace, False, None, True)"
    using 2 by (simp only: live_states(3)) (simp add: view_def)
  have 4: "view (live_run 4) = ([], True, None, SendKill, False, None, True)"
    using 3 by (simp only: live_states(4)) (simp add: view_def)
  have 5: "view (live_run 5) = ([SIGKILL], True, None, WatchDone, False, None, True)"
    using 4 by (simp only: live_states(5)) (simp add: view_def send_signal_def)
  have 6: "view (live_run 6) = ([], True, None, WatchDone, False, None, True)"
    using 5 by (simp only: live_states(6)) (simp add: view_def)
  have 7: "view (live_run 7) = ([], True, Some (WaitExit 137), WatchDone, False, None, True)"
    using 6 by (simp only: live_states(7)) (simp add: view_def)
  have 8: "view (live_run 8) = ([], True, Some (WaitExit 137), WatchDone, True, None, True)"
    using 7 by (simp only: live_states(8)) (simp add: view_def)
  have 9: "view (live_run 9) = ([], True, Some (WaitExit 137), WatchDone, True, Some 2, True)"
    using 8 by (simp only: live_states(9)) (simp add: view_def)
  show ?thesis using 0 1 2 3 4 5 6 7 8 9 by simp
qed

lemmas live_values = live_view [simplified, unfolded view_def prod.inject]

abbreviation live_trans :: "nat process \<Rightarrow> nat process \<Rightarrow> bool" where
  "live_trans \<equiv> process_step kv_libs kv_store (login_sys login_answer) plain_os [] live_launch"

lemma live_transitions:
  "live_trans (live_run 0) (live_run 1)" "live_trans (live_run 1) (live_run 2)" "live_trans (live_run 2) (live_run 3)"
  "live_trans (live_run 3) (live_run 4)" "live_trans (live_run 4) (live_run 5)" "live_trans (live_run 5) (live_run 6)"
  "live_trans (live_run 6) (live_run 7)" "live_trans (live_run 7) (live_run 8)" "live_trans (live_run 8) (live_run 9)"
proof -
  note v = live_values
  show "live_trans (live_run 0) (live_run 1)" unfolding live_states(1) by (rule process_step.poll) (simp add: v)
  show "live_trans (live_run 1) (live_run 2)" unfolding live_states(2) by (rule process_step.watch_send) (simp_all add: v)
  show "live_trans (live_run 2) (live_run 3)" unfolding live_states(3) by (rule process_step.forward) (simp_all add: v)
  show "live_trans (live_run 3) (live_run 4)" unfolding live_states(4) by (rule process_step.watch_silent) (simp_all add: v)
  show "live_trans (live_run 4) (live_run 5)" unfolding live_states(5) by (rule process_step.watch_send) (simp_all add: v)
  show "live_trans (live_run 5) (live_run 6)" unfolding live_states(6) by (rule process_step.forward) (simp_all add: v)
  show "live_trans (live_run 6) (live_run 7)" unfolding live_states(7) by (rule process_step.child_exit) (simp_all add: v)
  show "live_trans (live_run 7) (live_run 8)" unfolding live_states(8) by (rule process_step.main_cancel) (simp_all add: v)
  have "final_exit_code (restart_due_to_change (live_run 8)) (WaitExit 137) = 2" by (simp add: v final_exit_code_def)
  then show "live_trans (live_run 8) (live_run 9)"
    using process_step.main_exit [of "live_run 8" "WaitExit 137" kv_libs kv_store "login_sys login_answer" plain_os "[]" live_launch]
    unfolding live_states(9) by (simp add: v)
qed

lemma live_cases: "i \<in> {0, 1, 2, 3, 4, 5, 6, 7, 8} \<or> (\<exists>k. i = 9 + k)" for i :: nat
proof (cases "9 \<le> i")
  case True
  then show ?thesis by (auto simp: le_iff_add)
qed auto

lemma live_exited: "has_exited (live_run i) \<longleftrightarrow> 9 \<le> i"
  using live_cases [of i] live_values live_run_end by (auto simp: has_exited_def)

lemma live_fair: "fair_process kv_libs kv_store (login_sys login_answer) plain_os [] live_launch live_run"
  unfolding fair_process_def
proof (intro conjI)
  show "run_of live_trans has_exited live_run"
    unfolding run_of_def
  proof
    fix i
    show "if has_exited (live_run i) then live_run (Suc i) = live_run i else live_trans (live_run i) (live_run (Suc i))"
    proof (cases "9 \<le> i")
      case True
      then obtain k where "i = 9 + k" by (auto simp: le_iff_add)
      with live_run_end [of k] live_run_end [of "Suc k"] live_exited [of i] show ?thesis by simp
    next
      case False
      with live_cases [of i] live_transitions live_exited [of i] show ?thesis by (auto simp: numeral_eq_Suc)
    qed
  qed
  show "fair_run (goroutine_acts kv_libs kv_store (login_sys login_answer) plain_os [] live_launch) has_exited live_run"
    unfolding fair_run_def
  proof (intro allI impI)
    fix g i
    assume "\<forall>i. \<exists>j\<ge>i. ready (goroutine_acts kv_libs kv_store (login_sys login_answer) plain_os [] live_launch) has_exited g (live_run j)"
    then obtain j where "9 \<le> j" "\<not> has_exited (live_run j)" by (auto simp: ready_def)
    then show "\<exists>j\<ge>i. \<not> has_exited (live_run j) \<and> goroutine_acts kv_libs kv_store (login_sys login_answer) plain_os []
        live_launch g (live_run j) (live_run (Suc j))" by (simp add: live_exited)
  qed
  show "\<exists>rs w. live_run 0 = start_process live_launch rs w" using live_run_0 by blast
qed

lemma live_kill: "kill_ends_app live_run"
  unfolding kill_ends_app_def
proof (intro allI impI)
  fix i
  have "child (live_run (9 + i)) \<noteq> None" by (simp only: live_run_end) (simp add: live_values)
  then show "\<exists>j>i. child (live_run j) \<noteq> None" by (intro exI [of _ "9 + i"]) simp
qed

theorem changed_secret_restarts_witness:
  "\<exists>j\<ge>1. exit_code (live_run j) = Some 2"
  using changed_secret_restarts [OF live_fair live_kill, of 1] by (simp add: live_values)

end
