(* ===== verification/Pod_Types.thy ===== *)
theory Pod_Types
  imports Prelude
begin

text \<open>
  The Kubernetes objects the webhook works on, with the fields it reads or writes. Fields that the
  webhook only carries along (ports, labels, other volume sources, ...) do not occur.

  A pointer to a structure is an option. \<open>ImagePullPolicy\<close> is a string in the API; its four values
  that matter are constructors.
\<close>

datatype pull_policy = PullNever | PullAlways | PullIfNotPresent | PullOther string

text \<open>\<open>EnvVarSource\<close>: the name and key of a config map entry or of a secret entry.\<close>

record env_source =
  config_map_key_ref :: "(string \<times> string) option"
  secret_key_ref :: "(string \<times> string) option"

record env_var =
  env_name :: string
  env_value :: string
  value_from :: "env_source option"

text \<open>\<open>EnvFromSource\<close>: the name of a config map or of a secret, and \<open>Optional\<close>.\<close>

record env_from =
  config_map_ref :: "(string \<times> bool option) option"
  secret_ref :: "(string \<times> bool option) option"

record volume_mount =
  mount_name :: string
  mount_path :: string

text \<open>A probe: the command of its \<open>Exec\<close> action; any other action is carried along as text.\<close>

record probe =
  probe_exec :: "string list option"
  probe_other :: string

record security_context =
  sc_allow_privilege_escalation :: "bool option"
  sc_read_only_root :: "bool option"
  sc_drop_capabilities :: "string list"
  sc_run_as_user :: "int option"
  sc_run_as_non_root :: "bool option"
  sc_run_as_group :: "int option"

record container =
  c_name :: string
  c_image :: string
  c_pull_policy :: pull_policy
  c_command :: "string list"
  c_args :: "string list"
  c_env_from :: "env_from list"
  c_env :: "env_var list"
  c_mounts :: "volume_mount list"
  c_liveness :: "probe option"
  c_readiness :: "probe option"
  c_startup :: "probe option"
  c_security :: "security_context option"
  c_limits :: "(string \<times> string) list"
  c_requests :: "(string \<times> string) list"

text \<open>A volume source: an empty directory in memory, one projected secret with its items, any other.\<close>

datatype volume_source =
    EmptyDirMemory
  | ProjectedSecret string "(string \<times> string) list"
  | OtherSource string

record volume =
  vol_name :: string
  vol_source :: volume_source

record pod_spec =
  init_containers :: "container list"
  containers :: "container list"
  volumes :: "volume list"
  pod_run_as_user :: "int option option"
  service_account_name :: string
  image_pull_secrets :: "string list"

record pod =
  pod_name :: string
  pod_annotations :: str_map
  spec :: pod_spec

definition plain_env :: "string \<Rightarrow> string \<Rightarrow> env_var" where
  "plain_env n v = \<lparr>env_name = n, env_value = v, value_from = None\<rparr>"

text \<open>\<open>ConfigMap\<close> and \<open>Secret\<close> objects of the cluster, as \<open>Get\<close> returns them.\<close>

datatype k8s_error = NotFound | ApiFailed string

record cluster =
  get_config_map :: "string \<Rightarrow> string \<Rightarrow> k8s_error + str_map"
  get_secret :: "string \<Rightarrow> string \<Rightarrow> k8s_error + str_map"

text \<open>The settings of the webhook, as the package \<open>viper\<close> returns them.\<close>

record settings =
  setting :: "string \<Rightarrow> string"
  setting_bool :: "string \<Rightarrow> bool"
  setting_list :: "string \<Rightarrow> string list"

end
