(* ===== verification/Go_Conv.thy ===== *)
theory Go_Conv
  imports Prelude
begin

text \<open>
  The conversions of Go's packages \<open>strconv\<close> and \<open>strings\<close> that the webhook uses: booleans and the
  words of a string.
\<close>

text \<open>\<open>strconv.ParseBool\<close>; \<open>None\<close> is the error.\<close>

definition parse_bool :: "string \<Rightarrow> bool option" where
  "parse_bool s =
     (if s \<in> set [''1'', ''t'', ''T'', ''TRUE'', ''true'', ''True''] then Some True
      else if s \<in> set [''0'', ''f'', ''F'', ''FALSE'', ''false'', ''False''] then Some False
      else None)"

text \<open>\<open>b, _ = strconv.ParseBool(s)\<close>: false when the text is no boolean.\<close>

definition parse_bool_or_false :: "string \<Rightarrow> bool" where
  "parse_bool_or_false s = (parse_bool s = Some True)"

definition format_bool :: "bool \<Rightarrow> string" where
  "format_bool b = (if b then ''true'' else ''false'')"

text \<open>\<open>strings.Fields\<close>: the maximal runs of bytes that do not belong to a white space rune.\<close>

function fields_from :: "string \<Rightarrow> string \<Rightarrow> string list" where
  "fields_from word s =
     (case s of
        [] \<Rightarrow> if word = [] then [] else [word]
      | c # cs \<Rightarrow>
          (case space_at s of
             Some w \<Rightarrow> (if word = [] then [] else [word]) @ fields_from [] (drop (length w) s)
           | None \<Rightarrow> fields_from (word @ [c]) cs))"
  by pat_completeness auto
termination
  by (relation "measure (\<lambda>(word, s). length s)")
     (auto dest!: space_at_SomeD simp: prefix_def)

declare fields_from.simps [simp del]

definition strings_fields :: "string \<Rightarrow> string list" where
  "strings_fields s = fields_from [] s"

lemma parse_format_bool [simp]: "parse_bool (format_bool b) = Some b"
  by (cases b) (simp_all add: parse_bool_def format_bool_def)

lemma fields_from_nonempty: "w \<in> set (fields_from word s) \<Longrightarrow> w \<noteq> []"
proof (induction word s rule: fields_from.induct)
  case (1 word s)
  then show ?case
    by (subst (asm) (3) fields_from.simps) (auto split: list.splits option.splits if_splits)
qed

end
