(* ===== verification/Webhook_Config.thy ===== *)
theory Webhook_Config
  imports Pod_Types Go_Conv
begin

text \<open>
  \<^verbatim>\<open>pkg/webhook/config.go\<close> and \<^verbatim>\<open>pkg/common/common.go\<close> of the webhook: the configuration of an injection,
  read from the annotations of an object with the webhook's settings as defaults.
\<close>

subsection \<open>Annotations\<close>

definition annotation :: "string \<Rightarrow> string" where
  "annotation n = ''secrets-store.deckhouse.io/'' @ n"

definition has_vault_prefix :: "string \<Rightarrow> bool" where
  "has_vault_prefix v \<longleftrightarrow> has_prefix v ''secrets-store:'' \<or> has_prefix v ''>>secrets-store:''"

subsection \<open>VaultConfig\<close>

record vault_config =
  vc_addr :: string
  vc_auth_method :: string
  vc_role :: string
  vc_path :: string
  vc_skip_verify :: bool
  vc_tls_secret :: string
  vc_client_timeout :: int
  vc_psp_allow_privilege_escalation :: bool
  vc_run_as_non_root :: bool
  vc_run_as_user :: int
  vc_run_as_group :: int
  vc_read_only_root :: bool
  vc_registry_skip_verify :: bool
  vc_ignore_missing_secrets :: string
  vc_env_passthrough :: string
  vc_enable_json_log :: string
  vc_log_level :: string
  vc_service_account_token_path :: string
  vc_env_image :: string
  vc_env_image_pull_policy :: pull_policy
  vc_env_log_server :: string
  vc_skip :: bool
  vc_env_from_path :: string
  vc_env_cpu_request :: string
  vc_env_memory_request :: string
  vc_env_cpu_limit :: string
  vc_env_memory_limit :: string
  vc_vault_namespace :: string
  vc_vault_service_account :: string
  vc_object_namespace :: string
  vc_mutate_probes :: bool
  vc_token :: string
  vc_skip_mutate_containers :: "string list"
  vc_restart_on_secret_change :: string
  vc_secret_poll_interval :: string

text \<open>The zero value with the namespace of the request.\<close>

definition empty_config :: "string \<Rightarrow> vault_config" where
  "empty_config ns =
     \<lparr>vc_addr = '''', vc_auth_method = '''', vc_role = '''', vc_path = '''', vc_skip_verify = False,
      vc_tls_secret = '''', vc_client_timeout = 0, vc_psp_allow_privilege_escalation = False,
      vc_run_as_non_root = False, vc_run_as_user = 0, vc_run_as_group = 0, vc_read_only_root = False,
      vc_registry_skip_verify = False, vc_ignore_missing_secrets = '''', vc_env_passthrough = '''',
      vc_enable_json_log = '''', vc_log_level = '''', vc_service_account_token_path = '''',
      vc_env_image = '''', vc_env_image_pull_policy = PullOther '''', vc_env_log_server = '''',
      vc_skip = False, vc_env_from_path = '''', vc_env_cpu_request = ''0'', vc_env_memory_request = ''0'',
      vc_env_cpu_limit = ''0'', vc_env_memory_limit = ''0'', vc_vault_namespace = '''',
      vc_vault_service_account = '''', vc_object_namespace = ns, vc_mutate_probes = False,
      vc_token = '''', vc_skip_mutate_containers = [], vc_restart_on_secret_change = '''',
      vc_secret_poll_interval = ''''\<rparr>"

definition get_pull_policy :: "string \<Rightarrow> pull_policy" where
  "get_pull_policy s =
     (if s \<in> set [''Never'', ''never''] then PullNever
      else if s \<in> set [''Always'', ''always''] then PullAlways
      else PullIfNotPresent)"

definition restart_mode :: "string option \<Rightarrow> string" where
  "restart_mode a =
     (case a of
        Some v \<Rightarrow> if v \<in> set [''none'', ''watch-for-lease'', ''watch-for-data''] then v else ''none''
      | None \<Rightarrow> ''none'')"

text \<open>An annotation, or a default when it is not there.\<close>

definition annotation_or :: "str_map \<Rightarrow> string \<Rightarrow> string \<Rightarrow> string" where
  "annotation_or ann n d = (case map_of ann (annotation n) of Some v \<Rightarrow> v | None \<Rightarrow> d)"

text \<open>\<open>parse_duration\<close> stands for \<open>time.ParseDuration\<close>, whose error leaves 0.\<close>

definition parse_vault_config ::
  "(string \<Rightarrow> int option) \<Rightarrow> settings \<Rightarrow> str_map \<Rightarrow> string \<Rightarrow> vault_config" where
  "parse_vault_config parse_duration Z ann ns =
     (case map_of ann (annotation ''role'') of
        None \<Rightarrow> (empty_config ns)\<lparr>vc_skip := True\<rparr>
      | Some role \<Rightarrow>
          (empty_config ns)\<lparr>
            vc_role := role,
            vc_addr := annotation_or ann ''addr'' (setting Z ''addr''),
            vc_auth_method := ''jwt'',
            vc_path := annotation_or ann ''auth-path'' (setting Z ''auth_path''),
            vc_skip_verify := (case map_of ann (annotation ''tls-skip-verify'') of
                Some v \<Rightarrow> parse_bool_or_false v | None \<Rightarrow> setting_bool Z ''tls_skip_verify''),
            vc_tls_secret := annotation_or ann ''tls-secret'' (setting Z ''tls_secret''),
            vc_client_timeout :=
              (case parse_duration (annotation_or ann ''client-timeout'' (setting Z ''client_timeout'')) of
                 Some t \<Rightarrow> t | None \<Rightarrow> 0),
            vc_service_account_token_path := annotation_or ann ''service-account-token-path'' '''',
            vc_ignore_missing_secrets :=
              annotation_or ann ''ignore-missing-secrets'' (setting Z ''ignore_missing_secrets''),
            vc_psp_allow_privilege_escalation := False,
            vc_run_as_non_root := True,
            vc_run_as_user := 64535,
            vc_run_as_group := 64535,
            vc_read_only_root := True,
            vc_registry_skip_verify := True,
            vc_log_level := annotation_or ann ''log-level'' (setting Z ''log_level''),
            vc_enable_json_log := annotation_or ann ''enable-json-log'' (setting Z ''enable_json_log''),
            vc_env_from_path := annotation_or ann ''env-from-path'' '''',
            vc_env_image := setting Z ''env_injector_image'',
            vc_env_log_server := setting Z ''VAULT_ENV_LOG_SERVER'',
            vc_env_image_pull_policy :=
              get_pull_policy (annotation_or ann ''env-injector-pull-policy'' (setting Z ''env_injector_pull_policy'')),
            vc_skip_mutate_containers := (case map_of ann (annotation ''skip-mutate-containers'') of
                Some v \<Rightarrow> strings_fields v | None \<Rightarrow> setting_list Z ''skip_mutate_containers''),
            vc_vault_namespace := annotation_or ann ''namespace'' (setting Z ''VAULT_NAMESPACE''),
            vc_env_cpu_request := ''50m'',
            vc_env_memory_request := ''64Mi'',
            vc_env_cpu_limit := ''250m'',
            vc_env_memory_limit := ''64Mi'',
            vc_mutate_probes := (case map_of ann (annotation ''mutate-probes'') of
                Some v \<Rightarrow> parse_bool_or_false v | None \<Rightarrow> False),
            vc_restart_on_secret_change := restart_mode (map_of ann (annotation ''restart-on-secret-change'')),
            vc_secret_poll_interval :=
              annotation_or ann ''secret-poll-interval'' (setting Z ''secret_poll_interval'')\<rparr>)"

text \<open>The defaults \<open>SetConfigDefaults\<close> registers; an environment variable of the name overrides them.\<close>

definition config_defaults :: str_map where
  "config_defaults = [
     (''env_injector_image'', ''trublast/env-injector:v0.0.1''),
     (''env_injector_pull_policy'', ''IfNotPresent''),
     (''addr'', ''https://stronghold.d8-stronghold:8300''),
     (''tls_skip_verify'', ''false''),
     (''skip_mutate_containers'', ''''),
     (''auth_path'', ''kubernetes_local''),
     (''auth_method'', ''jwt''),
     (''role'', ''''),
     (''tls_secret'', ''''),
     (''cacert_bytes'', ''''),
     (''client_timeout'', ''10s''),
     (''ignore_missing_secrets'', ''false''),
     (''tls_cert_file'', ''''),
     (''tls_private_key_file'', ''''),
     (''listen_address'', '':8443''),
     (''telemetry_listen_address'', ''''),
     (''registry_skip_verify'', ''false''),
     (''enable_json_log'', ''false''),
     (''log_level'', ''info'')]"

lemma parse_vault_config_skip:
  "vc_skip (parse_vault_config pd Z ann ns) \<longleftrightarrow> map_of ann (annotation ''role'') = None"
  by (simp add: parse_vault_config_def empty_config_def split: option.split)

lemma restart_mode_cases: "restart_mode a \<in> {''none'', ''watch-for-lease'', ''watch-for-data''}"
  by (auto simp: restart_mode_def split: option.split)

end
