(* ===== verification/Webhook_Registry.thy ===== *)
theory Webhook_Registry
  imports Pod_Types
begin

text \<open>
  \<^verbatim>\<open>pkg/webhook/registry.go\<close>: the image configuration (entrypoint and command) of a container's image,
  with a cache and with several attempts at the pull secrets.

  The calls of the container registry library are the record \<open>'w remote\<close>. The state of the registry is
  the world behind these calls and the image cache, which has no expiration.
\<close>

record image_config =
  entrypoint :: "string list"
  image_cmd :: "string list"

datatype registry_error =
    AuthChainFailed string
  | BadReference string
  | FetchFailed string
  | ConvertFailed string
  | ConfigFileFailed string
  | AllSecretsFailed registry_error

record container_info =
  info_namespace :: string
  info_pull_secrets :: "string list"
  info_service_account :: string
  info_image :: string

text \<open>
  \<open>parse_reference\<close> gives the identifier (tag or digest) of an image name. An authentication chain, a
  descriptor and an image are numbers that the library hands out.
\<close>

record 'w remote =
  parse_reference :: "string \<Rightarrow> string + string"
  auth_chain :: "string \<Rightarrow> string \<Rightarrow> string list \<Rightarrow> 'w \<Rightarrow> (string + nat) \<times> 'w"
  remote_get :: "string \<Rightarrow> nat \<Rightarrow> bool \<Rightarrow> 'w \<Rightarrow> (string + nat) \<times> 'w"
  descriptor_image :: "nat \<Rightarrow> 'w \<Rightarrow> (string + nat) \<times> 'w"
  image_config_file :: "nat \<Rightarrow> 'w \<Rightarrow> (string + image_config) \<times> 'w"

record 'w registry =
  reg_world :: 'w
  image_cache :: "string \<rightharpoonup> image_config"

definition new_registry :: "'w \<Rightarrow> 'w registry" where
  "new_registry w = \<lparr>reg_world = w, image_cache = Map.empty\<rparr>"

definition is_allowed_to_cache :: "'w remote \<Rightarrow> container \<Rightarrow> bool" where
  "is_allowed_to_cache R c =
     (if c_pull_policy c = PullAlways then False
      else (case parse_reference R (c_image c) of Inl _ \<Rightarrow> False | Inr i \<Rightarrow> i \<noteq> ''latest''))"

definition try_get_image_config ::
  "'w remote \<Rightarrow> container_info \<Rightarrow> bool \<Rightarrow> string list \<Rightarrow> 'w \<Rightarrow> (registry_error + image_config) \<times> 'w" where
  "try_get_image_config R ci skip_verify secrets w =
     (case auth_chain R (info_namespace ci) (info_service_account ci) secrets w of
        (Inl e, w1) \<Rightarrow> (Inl (AuthChainFailed e), w1)
      | (Inr auth, w1) \<Rightarrow>
          (case parse_reference R (info_image ci) of
             Inl e \<Rightarrow> (Inl (BadReference e), w1)
           | Inr _ \<Rightarrow>
               (case remote_get R (info_image ci) auth skip_verify w1 of
                  (Inl e, w2) \<Rightarrow> (Inl (FetchFailed e), w2)
                | (Inr d, w2) \<Rightarrow>
                    (case descriptor_image R d w2 of
                       (Inl e, w3) \<Rightarrow> (Inl (ConvertFailed e), w3)
                     | (Inr im, w3) \<Rightarrow>
                         (case image_config_file R im w3 of
                            (Inl e, w4) \<Rightarrow> (Inl (ConfigFileFailed e), w4)
                          | (Inr cfg, w4) \<Rightarrow> (Inr cfg, w4))))))"

text \<open>The attempts with one secret each; the caller passes the secrets from the last to the first.\<close>

fun try_each_secret ::
  "'w remote \<Rightarrow> container_info \<Rightarrow> bool \<Rightarrow> string list \<Rightarrow> 'w \<Rightarrow> image_config option \<times> 'w" where
  "try_each_secret R ci skip_verify [] w = (None, w)"
| "try_each_secret R ci skip_verify (s # ss) w =
     (case try_get_image_config R ci skip_verify [s] w of
        (Inr cfg, w1) \<Rightarrow> (Some cfg, w1)
      | (Inl _, w1) \<Rightarrow> try_each_secret R ci skip_verify ss w1)"

definition get_image_config_with_secrets ::
  "'w remote \<Rightarrow> container_info \<Rightarrow> bool \<Rightarrow> 'w \<Rightarrow> (registry_error + image_config) \<times> 'w" where
  "get_image_config_with_secrets R ci skip_verify w =
     (let secrets = info_pull_secrets ci
      in if secrets = [] then try_get_image_config R ci skip_verify [] w
         else (case try_get_image_config R ci skip_verify secrets w of
                 (Inr cfg, w1) \<Rightarrow> (Inr cfg, w1)
               | (Inl e, w1) \<Rightarrow>
                   if 2 \<le> length secrets then
                     (case try_each_secret R ci skip_verify (rev secrets) w1 of
                        (Some cfg, w2) \<Rightarrow> (Inr cfg, w2)
                      | (None, w2) \<Rightarrow> (Inl (AllSecretsFailed e), w2))
                   else (Inl (AllSecretsFailed e), w1)))"

text \<open>The pull secrets and the account to use: the pod's own, or the default ones when it has none.\<close>

definition container_info_for :: "settings \<Rightarrow> string \<Rightarrow> container \<Rightarrow> pod_spec \<Rightarrow> container_info" where
  "container_info_for Z ns c ps =
     (let ci = \<lparr>info_namespace = ns, info_pull_secrets = image_pull_secrets ps,
                info_service_account = service_account_name ps, info_image = c_image c\<rparr>;
          dns = setting Z ''default_image_pull_secret_namespace'';
          dsa = setting Z ''default_image_pull_secret_service_account'';
          dsec = setting Z ''default_image_pull_secret''
      in if info_pull_secrets ci = [] \<and> dns \<noteq> '''' \<and> dsec \<noteq> '''' \<and> dsa \<noteq> ''''
         then ci\<lparr>info_namespace := dns, info_service_account := dsa, info_pull_secrets := [dsec]\<rparr>
         else ci)"

definition get_image_config ::
  "'w remote \<Rightarrow> settings \<Rightarrow> string \<Rightarrow> bool \<Rightarrow> container \<Rightarrow> pod_spec \<Rightarrow> 'w registry \<Rightarrow>
   (registry_error + image_config) \<times> 'w registry" where
  "get_image_config R Z ns skip_verify c ps r =
     (let allowed = is_allowed_to_cache R c
      in case (if allowed then image_cache r (c_image c) else None) of
           Some cfg \<Rightarrow> (Inr cfg, r)
         | None \<Rightarrow>
             (case get_image_config_with_secrets R (container_info_for Z ns c ps) skip_verify (reg_world r) of
                (Inr cfg, w1) \<Rightarrow>
                  (Inr cfg, r\<lparr>reg_world := w1,
                     image_cache := (if allowed then (image_cache r)(c_image c \<mapsto> cfg) else image_cache r)\<rparr>)
              | (Inl e, w1) \<Rightarrow> (Inl e, r\<lparr>reg_world := w1\<rparr>)))"

subsection \<open>The interface ImageRegistry\<close>

text \<open>
  What the webhook expects of an image registry: an answer is the configuration of the image, whatever
  was asked before and whoever asked. \<open>truth\<close> is the configuration of the images, \<open>inv\<close> holds of the
  states the registry gets into.
\<close>

locale image_registry =
  fixes get :: "string \<Rightarrow> bool \<Rightarrow> container \<Rightarrow> pod_spec \<Rightarrow> 's \<Rightarrow> (registry_error + image_config) \<times> 's"
    and inv :: "'s \<Rightarrow> bool"
    and truth :: "string \<Rightarrow> image_config"
  assumes get_truth: "inv s \<Longrightarrow> get ns b c ps s = (Inr cfg, s') \<Longrightarrow> cfg = truth (c_image c)"
    and get_inv: "inv s \<Longrightarrow> get ns b c ps s = (r, s') \<Longrightarrow> inv s'"

subsection \<open>The registry implements it\<close>

text \<open>A registry whose images do not change: an attempt that succeeds gives the image's configuration.\<close>

definition stable_images :: "'w remote \<Rightarrow> (string \<Rightarrow> image_config) \<Rightarrow> bool" where
  "stable_images R truth \<longleftrightarrow>
     (\<forall>ci b secrets w cfg w'. try_get_image_config R ci b secrets w = (Inr cfg, w') \<longrightarrow> cfg = truth (info_image ci))"

definition cache_truthful :: "(string \<Rightarrow> image_config) \<Rightarrow> 'w registry \<Rightarrow> bool" where
  "cache_truthful truth r \<longleftrightarrow> (\<forall>i cfg. image_cache r i = Some cfg \<longrightarrow> cfg = truth i)"

lemma stable_imagesD:
  "stable_images R truth \<Longrightarrow> try_get_image_config R ci b ss w = (Inr cfg, w') \<Longrightarrow> cfg = truth (info_image ci)"
  unfolding stable_images_def by blast

lemma try_each_secret_truth:
  "stable_images R truth \<Longrightarrow> try_each_secret R ci b ss w = (Some cfg, w') \<Longrightarrow> cfg = truth (info_image ci)"
proof (induction R ci b ss w rule: try_each_secret.induct)
  case (2 R ci b s ss w)
  show ?case
  proof (cases "try_get_image_config R ci b [s] w")
    case (Pair x w1)
    with 2 show ?thesis by (cases x) (auto dest: stable_imagesD)
  qed
qed simp

lemma get_image_config_with_secrets_truth:
  assumes "stable_images R truth" "get_image_config_with_secrets R ci b w = (Inr cfg, w')"
  shows "cfg = truth (info_image ci)"
proof -
  show ?thesis
    using assms(2) stable_imagesD [OF assms(1)] try_each_secret_truth [OF assms(1)]
    by (auto simp: get_image_config_with_secrets_def Let_def split: prod.splits sum.splits option.splits if_splits)
qed

lemma container_info_for_image [simp]: "info_image (container_info_for Z ns c ps) = c_image c"
  by (simp add: container_info_for_def Let_def)

lemma get_image_config_truth:
  assumes "stable_images R truth" "cache_truthful truth r" "get_image_config R Z ns b c ps r = (x, r')"
  shows "(\<forall>cfg. x = Inr cfg \<longrightarrow> cfg = truth (c_image c)) \<and> cache_truthful truth r'"
  using assms(2,3) get_image_config_with_secrets_truth [OF assms(1), of "container_info_for Z ns c ps"]
  by (auto simp: get_image_config_def Let_def cache_truthful_def split: option.splits prod.splits sum.splits if_splits)

interpretation registry: image_registry "get_image_config R Z"
    "\<lambda>r. stable_images R truth \<and> cache_truthful truth r" truth
  for R :: "'w remote" and Z truth
  using get_image_config_truth by unfold_locales blast+

end
