(* ===== verification/Webhook_Pod.thy ===== *)
theory Webhook_Pod
  imports Webhook_Config Webhook_Registry Inline_Ref
begin

text \<open>
  \<^verbatim>\<open>pkg/webhook/pod.go\<close> and the lookups of \<^verbatim>\<open>pkg/webhook/webhook.go\<close>: the mutation of a pod.

  Assignments to \<open>containers[i]\<close> and through the pointers of the probes change the pod in place, so a
  function over a list of containers returns the list in which the containers before an error are
  already changed. The image registry is the interface \<open>ImageRegistry\<close>: a function \<open>get\<close> with its state.
\<close>

datatype webhook_error =
    LookupFailed k8s_error
  | ImageConfigFailed registry_error
  | RoleParseFailed string
  | RoleTemplateFailed string

subsection \<open>Does a container use secrets?\<close>

definition wants_injection :: "string \<Rightarrow> bool" where
  "wants_injection v \<longleftrightarrow> has_vault_prefix v \<or> has_inline_vault_delimiters v"

definition vault_entries :: "str_map \<Rightarrow> env_var list" where
  "vault_entries d = map (\<lambda>(k, v). plain_env k v) (filter (\<lambda>(k, v). wants_injection v) d)"

definition is_optional :: "bool option \<Rightarrow> bool" where
  "is_optional b = (b = Some True)"

text \<open>
  One reference of \<open>envFrom\<close>: \<open>None\<close> is the \<open>continue\<close> for an object that may be missing.
\<close>

definition ref_entries :: "(string \<Rightarrow> k8s_error + str_map) \<Rightarrow> string \<times> bool option \<Rightarrow> k8s_error + env_var list option" where
  "ref_entries get r =
     (case get (fst r) of
        Inl e \<Rightarrow> if e = NotFound \<or> is_optional (snd r) then Inr None else Inl e
      | Inr d \<Rightarrow> Inr (Some (vault_entries d)))"

fun look_for_env_from :: "cluster \<Rightarrow> string \<Rightarrow> env_from list \<Rightarrow> k8s_error + env_var list" where
  "look_for_env_from K ns [] = Inr []"
| "look_for_env_from K ns (ef # efs) =
     (case (case config_map_ref ef of None \<Rightarrow> Inr (Some []) | Some r \<Rightarrow> ref_entries (get_config_map K ns) r) of
        Inl e \<Rightarrow> Inl e
      | Inr None \<Rightarrow> look_for_env_from K ns efs
      | Inr (Some vs) \<Rightarrow>
          (case (case secret_ref ef of None \<Rightarrow> Inr (Some []) | Some r \<Rightarrow> ref_entries (get_secret K ns) r) of
             Inl e \<Rightarrow> Inl e
           | Inr vs' \<Rightarrow>
               (case look_for_env_from K ns efs of
                  Inl e \<Rightarrow> Inl e
                | Inr rest \<Rightarrow> Inr (vs @ (case vs' of None \<Rightarrow> [] | Some l \<Rightarrow> l) @ rest))))"

text \<open>\<open>lookForValueFrom\<close>: the config map entry, then the secret entry.\<close>

definition look_for_value_from :: "cluster \<Rightarrow> string \<Rightarrow> string \<Rightarrow> env_source \<Rightarrow> k8s_error + env_var option" where
  "look_for_value_from K ns name src =
     (case (case config_map_key_ref src of
              None \<Rightarrow> Inr (False, None)
            | Some (n, k) \<Rightarrow>
                (case get_config_map K ns n of
                   Inl e \<Rightarrow> if e = NotFound then Inr (True, None) else Inl e
                 | Inr d \<Rightarrow> if wants_injection (str_get d k) then Inr (True, Some (plain_env name (str_get d k)))
                           else Inr (False, None))) of
        Inl e \<Rightarrow> Inl e
      | Inr (True, r) \<Rightarrow> Inr r
      | Inr (False, _) \<Rightarrow>
          (case secret_key_ref src of
             None \<Rightarrow> Inr None
           | Some (n, k) \<Rightarrow>
               (case get_secret K ns n of
                  Inl e \<Rightarrow> if e = NotFound then Inr None else Inl e
                | Inr d \<Rightarrow> if wants_injection (str_get d k) then Inr (Some (plain_env name (str_get d k)))
                          else Inr None)))"

fun look_for_env :: "cluster \<Rightarrow> string \<Rightarrow> env_var list \<Rightarrow> k8s_error + env_var list" where
  "look_for_env K ns [] = Inr []"
| "look_for_env K ns (e # es) =
     (let own = (if wants_injection (env_value e) then [e] else [])
      in case (case value_from e of None \<Rightarrow> Inr None | Some src \<Rightarrow> look_for_value_from K ns (env_name e) src) of
           Inl er \<Rightarrow> Inl er
         | Inr v \<Rightarrow>
             (case look_for_env K ns es of
                Inl er \<Rightarrow> Inl er
              | Inr rest \<Rightarrow> Inr (own @ (case v of None \<Rightarrow> [] | Some x \<Rightarrow> [x]) @ rest)))"

definition secret_env_vars :: "cluster \<Rightarrow> string \<Rightarrow> container \<Rightarrow> k8s_error + env_var list" where
  "secret_env_vars K ns c =
     (case look_for_env_from K ns (c_env_from c) of
        Inl e \<Rightarrow> Inl e
      | Inr a \<Rightarrow> (case look_for_env K ns (c_env c) of Inl e \<Rightarrow> Inl e | Inr b \<Rightarrow> Inr (a @ b)))"

subsection \<open>The mutated container\<close>

definition vault_env_volume_name :: string where
  "vault_env_volume_name = ''stronghold-env''"

definition injector_path :: string where
  "injector_path = ''/vault/env-injector''"

definition has_tls_volume :: "volume list \<Rightarrow> bool" where
  "has_tls_volume vs = list_ex (\<lambda>v. vol_name v = ''vault-tls'') vs"

definition is_log_level_set :: "env_var list \<Rightarrow> bool" where
  "is_log_level_set es = list_ex (\<lambda>e. env_name e = ''VAULT_LOG_LEVEL'') es"

definition mutate_probe :: "probe option \<Rightarrow> probe option" where
  "mutate_probe p =
     (case p of
        None \<Rightarrow> None
      | Some q \<Rightarrow> (case probe_exec q of
                     None \<Rightarrow> Some q
                   | Some cmd \<Rightarrow> Some (q\<lparr>probe_exec := Some (injector_path # cmd)\<rparr>)))"

text \<open>The name and the mount path of the volume with the CA certificate.\<close>

definition tls_mount :: "volume list \<Rightarrow> string \<times> string" where
  "tls_mount vs = (if has_tls_volume vs then (''stronghold-env-tls'', ''/stronghold-env/tls/'')
                   else (''vault-tls'', ''/vault/tls/''))"

definition restart_env :: "vault_config \<Rightarrow> env_var list" where
  "restart_env V =
     (if vc_restart_on_secret_change V = ''watch-for-lease''
      then [plain_env ''VAULT_ENV_RESTART_ON_SECRET_CHANGE'' ''watch-for-lease'', plain_env ''VAULT_ENV_DAEMON'' ''true'']
      else if vc_restart_on_secret_change V = ''watch-for-data''
      then [plain_env ''VAULT_ENV_RESTART_ON_SECRET_CHANGE'' ''watch-for-data'',
            plain_env ''VAULT_ENV_SECRET_POLL_INTERVAL'' (vc_secret_poll_interval V)]
      else [])"

text \<open>What is appended to \<open>Env\<close>; \<open>duration_string\<close> is \<open>Duration.String\<close>.\<close>

definition injector_env ::
  "(int \<Rightarrow> string) \<Rightarrow> settings \<Rightarrow> vault_config \<Rightarrow> volume list \<Rightarrow> env_var list \<Rightarrow> env_var list" where
  "injector_env duration_string Z V vs env =
     [plain_env ''VAULT_ADDR'' (vc_addr V),
      plain_env ''VAULT_SKIP_VERIFY'' (format_bool (vc_skip_verify V)),
      plain_env ''VAULT_AUTH_METHOD'' (vc_auth_method V),
      plain_env ''VAULT_PATH'' (vc_path V),
      plain_env ''VAULT_ROLE'' (vc_role V),
      plain_env ''VAULT_IGNORE_MISSING_SECRETS'' (vc_ignore_missing_secrets V),
      plain_env ''VAULT_ENV_PASSTHROUGH'' (vc_env_passthrough V),
      plain_env ''VAULT_JSON_LOG'' (vc_enable_json_log V),
      plain_env ''VAULT_CLIENT_TIMEOUT'' (duration_string (vc_client_timeout V))] @
     (if vc_service_account_token_path V \<noteq> ''''
      then [plain_env ''VAULT_JWT_FILE'' (vc_service_account_token_path V)] else []) @
     (if vc_token V \<noteq> '''' then [plain_env ''VAULT_TOKEN'' (vc_token V)] else []) @
     (if \<not> is_log_level_set env \<and> vc_log_level V \<noteq> ''''
      then [plain_env ''VAULT_LOG_LEVEL'' (vc_log_level V)] else []) @
     (if vc_vault_namespace V \<noteq> '''' then [plain_env ''VAULT_NAMESPACE'' (vc_vault_namespace V)] else []) @
     (if vc_tls_secret V \<noteq> ''''
      then [plain_env ''VAULT_CACERT'' (snd (tls_mount vs) @ ''ca.crt'')]
      else if setting Z ''cacert_bytes'' \<noteq> ''''
      then [plain_env ''VAULT_CACERT_BYTES'' (setting Z ''cacert_bytes'')] else []) @
     (if vc_env_from_path V \<noteq> '''' then [plain_env ''VAULT_ENV_FROM_PATH'' (vc_env_from_path V)] else []) @
     restart_env V"

definition injector_mounts :: "vault_config \<Rightarrow> volume list \<Rightarrow> volume_mount list" where
  "injector_mounts V vs =
     \<lparr>mount_name = vault_env_volume_name, mount_path = ''/vault/''\<rparr> #
     (if vc_tls_secret V \<noteq> ''''
      then [\<lparr>mount_name = fst (tls_mount vs), mount_path = snd (tls_mount vs)\<rparr>] else [])"

text \<open>The command line of the container, with the image's entrypoint and command where needed.\<close>

definition container_args :: "container \<Rightarrow> image_config option \<Rightarrow> string list" where
  "container_args c cfg =
     (case cfg of
        None \<Rightarrow> c_command c
      | Some i \<Rightarrow> entrypoint i @ (if c_args c = [] then image_cmd i else [])) @ c_args c"

definition inject_container ::
  "(int \<Rightarrow> string) \<Rightarrow> settings \<Rightarrow> vault_config \<Rightarrow> volume list \<Rightarrow> image_config option \<Rightarrow> container \<Rightarrow> container" where
  "inject_container ds Z V vs cfg c =
     c\<lparr>c_command := [injector_path],
       c_args := container_args c cfg,
       c_liveness := (if vc_mutate_probes V then mutate_probe (c_liveness c) else c_liveness c),
       c_readiness := (if vc_mutate_probes V then mutate_probe (c_readiness c) else c_readiness c),
       c_startup := (if vc_mutate_probes V then mutate_probe (c_startup c) else c_startup c),
       c_mounts := c_mounts c @ injector_mounts V vs,
       c_env := c_env c @ injector_env ds Z V vs (c_env c)\<rparr>"

text \<open>One turn of the loop: the changed container, \<open>None\<close> for \<open>continue\<close>.\<close>

definition mutate_container ::
  "(int \<Rightarrow> string) \<Rightarrow> settings \<Rightarrow> cluster \<Rightarrow>
   (string \<Rightarrow> bool \<Rightarrow> container \<Rightarrow> pod_spec \<Rightarrow> 's \<Rightarrow> (registry_error + image_config) \<times> 's) \<Rightarrow>
   vault_config \<Rightarrow> pod_spec \<Rightarrow> container \<Rightarrow> 's \<Rightarrow> (webhook_error + container option) \<times> 's" where
  "mutate_container ds Z K get V ps c r =
     (case secret_env_vars K (vc_object_namespace V) c of
        Inl e \<Rightarrow> (Inl (LookupFailed e), r)
      | Inr vars \<Rightarrow>
          if vars = [] \<and> vc_env_from_path V = '''' then (Inr None, r)
          else if c_name c \<in> set (vc_skip_mutate_containers V) then (Inr None, r)
          else if c_command c = [] then
            (case get (vc_object_namespace V) (vc_registry_skip_verify V) c ps r of
               (Inl e, r1) \<Rightarrow> (Inl (ImageConfigFailed e), r1)
             | (Inr cfg, r1) \<Rightarrow> (Inr (Some (inject_container ds Z V (volumes ps) (Some cfg) c)), r1))
          else (Inr (Some (inject_container ds Z V (volumes ps) None c)), r))"

fun mutate_containers ::
  "(int \<Rightarrow> string) \<Rightarrow> settings \<Rightarrow> cluster \<Rightarrow>
   (string \<Rightarrow> bool \<Rightarrow> container \<Rightarrow> pod_spec \<Rightarrow> 's \<Rightarrow> (registry_error + image_config) \<times> 's) \<Rightarrow>
   vault_config \<Rightarrow> pod_spec \<Rightarrow> container list \<Rightarrow> 's \<Rightarrow> (webhook_error + bool) \<times> container list \<times> 's" where
  "mutate_containers ds Z K get V ps [] r = (Inr False, [], r)"
| "mutate_containers ds Z K get V ps (c # cs) r =
     (case mutate_container ds Z K get V ps c r of
        (Inl e, r1) \<Rightarrow> (Inl e, c # cs, r1)
      | (Inr x, r1) \<Rightarrow>
          (case mutate_containers ds Z K get V ps cs r1 of
             (res, cs', r2) \<Rightarrow>
               ((case res of Inl e \<Rightarrow> Inl e | Inr m \<Rightarrow> Inr (x \<noteq> None \<or> m)),
                (case x of None \<Rightarrow> c | Some c' \<Rightarrow> c') # cs', r2)))"

subsection \<open>The pod\<close>

definition is_pod_already_mutated :: "pod \<Rightarrow> bool" where
  "is_pod_already_mutated p = list_ex (\<lambda>v. vol_name v = vault_env_volume_name) (volumes (spec p))"

definition get_volumes :: "volume list \<Rightarrow> vault_config \<Rightarrow> volume list" where
  "get_volumes existing V =
     \<lparr>vol_name = vault_env_volume_name, vol_source = EmptyDirMemory\<rparr> #
     (if vc_tls_secret V \<noteq> ''''
      then [\<lparr>vol_name = (if has_tls_volume existing then ''stronghold-env-tls'' else ''vault-tls''),
             vol_source = ProjectedSecret (vc_tls_secret V) [(''ca.crt'', ''ca.crt'')]\<rparr>]
      else [])"

definition get_base_security_context :: "int option option \<Rightarrow> vault_config \<Rightarrow> security_context" where
  "get_base_security_context pod_user V =
     \<lparr>sc_allow_privilege_escalation = Some (vc_psp_allow_privilege_escalation V),
      sc_read_only_root = Some (vc_read_only_root V),
      sc_drop_capabilities = [''ALL''],
      sc_run_as_user = (if vc_run_as_user V > 0 then Some (vc_run_as_user V)
                        else case pod_user of Some (Some u) \<Rightarrow> Some u | _ \<Rightarrow> None),
      sc_run_as_non_root = (if vc_run_as_non_root V then Some (vc_run_as_non_root V) else None),
      sc_run_as_group = (if vc_run_as_group V > 0 then Some (vc_run_as_group V) else None)\<rparr>"

definition copy_container :: "int option option \<Rightarrow> vault_config \<Rightarrow> container" where
  "copy_container pod_user V =
     \<lparr>c_name = ''copy-env-injector'', c_image = vc_env_image V, c_pull_policy = vc_env_image_pull_policy V,
      c_command = [''/bin/env-injector'', ''--self-copy''], c_args = [], c_env_from = [], c_env = [],
      c_mounts = [\<lparr>mount_name = vault_env_volume_name, mount_path = ''/vault/''\<rparr>],
      c_liveness = None, c_readiness = None, c_startup = None,
      c_security = Some (get_base_security_context pod_user V),
      c_limits = [(''cpu'', vc_env_cpu_limit V), (''memory'', vc_env_memory_limit V)],
      c_requests = [(''cpu'', vc_env_cpu_request V), (''memory'', vc_env_memory_request V)]\<rparr>"

definition get_init_containers :: "int option option \<Rightarrow> vault_config \<Rightarrow> bool \<Rightarrow> bool \<Rightarrow> container list" where
  "get_init_containers pod_user V init_mutated mutated =
     (if init_mutated \<or> mutated then [copy_container pod_user V] else [])"

definition mutate_pod ::
  "(int \<Rightarrow> string) \<Rightarrow> settings \<Rightarrow> cluster \<Rightarrow>
   (string \<Rightarrow> bool \<Rightarrow> container \<Rightarrow> pod_spec \<Rightarrow> 's \<Rightarrow> (registry_error + image_config) \<times> 's) \<Rightarrow>
   vault_config \<Rightarrow> pod \<Rightarrow> 's \<Rightarrow> webhook_error option \<times> pod \<times> 's" where
  "mutate_pod ds Z K get V p r =
     (if is_pod_already_mutated p then (None, p, r)
      else case mutate_containers ds Z K get V (spec p) (init_containers (spec p)) r of
             (Inl e, ics, r1) \<Rightarrow> (Some e, p\<lparr>spec := (spec p)\<lparr>init_containers := ics\<rparr>\<rparr>, r1)
           | (Inr mi, ics, r1) \<Rightarrow>
               (let ps = (spec p)\<lparr>init_containers := ics\<rparr>
                in case mutate_containers ds Z K get V ps (containers ps) r1 of
                     (Inl e, cs, r2) \<Rightarrow> (Some e, p\<lparr>spec := ps\<lparr>containers := cs\<rparr>\<rparr>, r2)
                   | (Inr mc, cs, r2) \<Rightarrow>
                       (let ps1 = ps\<lparr>containers := cs\<rparr>
                        in (None,
                            p\<lparr>spec := (if mi \<or> mc
                               then ps1\<lparr>init_containers := get_init_containers (pod_run_as_user ps1) V mi mc @ init_containers ps1,
                                        volumes := volumes ps1 @ get_volumes (volumes ps1) V\<rparr>
                               else ps1)\<rparr>, r2))))"

end
