(* ===== verification/Webhook_Mutator.thy ===== *)
theory Webhook_Mutator
  imports Webhook_Pod Go_Env
begin

text \<open>
  \<^verbatim>\<open>pkg/webhook/webhook.go\<close>: the entry point of the admission webhook, its namespace, and the login
  parameters of its own Vault client.
\<close>

subsection \<open>VaultSecretsMutator\<close>

datatype kube_object =
    PodObject pod
  | OtherObject string str_map

definition object_name :: "kube_object \<Rightarrow> string" where
  "object_name ob = (case ob of PodObject p \<Rightarrow> pod_name p | OtherObject n _ \<Rightarrow> n)"

definition object_annotations :: "kube_object \<Rightarrow> str_map" where
  "object_annotations ob = (case ob of PodObject p \<Rightarrow> pod_annotations p | OtherObject _ a \<Rightarrow> a)"

text \<open>
  The package \<open>text/template\<close> with \<open>missingkey=error\<close>: the error of \<open>Parse\<close>, if any, and the outcome of
  \<open>Execute\<close> on a map of fields.
\<close>

record role_template =
  template_error :: "string \<Rightarrow> string option"
  template_execute :: "string \<Rightarrow> str_map \<Rightarrow> string + string"

definition role_fields :: "vault_config \<Rightarrow> string \<Rightarrow> str_map" where
  "role_fields V name =
     [(''authmethod'', vc_auth_method V), (''name'', name), (''namespace'', vc_object_namespace V),
      (''path'', vc_path V), (''serviceaccount'', vc_vault_service_account V)]"

text \<open>\<open>MutatorResult\<close>: the mutated object, if the result has one.\<close>

definition vault_secrets_mutator ::
  "(string \<Rightarrow> int option) \<Rightarrow> (int \<Rightarrow> string) \<Rightarrow> role_template \<Rightarrow> settings \<Rightarrow> cluster \<Rightarrow>
   (string \<Rightarrow> bool \<Rightarrow> container \<Rightarrow> pod_spec \<Rightarrow> 's \<Rightarrow> (registry_error + image_config) \<times> 's) \<Rightarrow>
   string \<Rightarrow> kube_object \<Rightarrow> 's \<Rightarrow> webhook_error option \<times> pod option \<times> 's" where
  "vault_secrets_mutator parse_duration ds T Z K get ns ob r =
     (let V = parse_vault_config parse_duration Z (object_annotations ob) ns
      in if vc_skip V then (None, None, r)
         else case template_error T (vc_role V) of
                Some e \<Rightarrow> (Some (RoleParseFailed e), None, r)
              | None \<Rightarrow>
                  (case template_execute T (vc_role V) (role_fields V (object_name ob)) of
                     Inl e \<Rightarrow> (Some (RoleTemplateFailed e), None, r)
                   | Inr role \<Rightarrow>
                       (case ob of
                          PodObject p \<Rightarrow>
                            (case mutate_pod ds Z K get (V\<lparr>vc_role := role\<rparr>) p r of
                               (e, p', r') \<Rightarrow> (e, Some p', r'))
                        | OtherObject _ _ \<Rightarrow> (None, None, r))))"

subsection \<open>NewMutatingWebhook\<close>

text \<open>The namespace: the variable, otherwise the file of the service account; \<open>None\<close> is the read error.\<close>

definition webhook_namespace :: "environ \<Rightarrow> string option \<Rightarrow> string option" where
  "webhook_namespace env file =
     (if getenv env ''KUBERNETES_NAMESPACE'' = '''' then file else Some (getenv env ''KUBERNETES_NAMESPACE''))"

subsection \<open>newVaultClient\<close>

datatype login_error =
    DefaultConfigFailed string
  | TlsConfigFailed string
  | TlsSecretFailed k8s_error
  | BadCaPem string
  | ServiceAccountFailed k8s_error
  | AccountSecretFailed k8s_error
  | CreateTokenFailed string

datatype webhook_auth = NamespacedSecret string | AuthMethod string

record login_params =
  lp_addr :: string
  lp_insecure :: bool
  lp_root_ca :: "string option"
  lp_role :: string
  lp_auth_path :: string
  lp_auth :: webhook_auth
  lp_namespace :: string

text \<open>The calls outside of the repository; the cluster gives the secrets.\<close>

record login_api =
  default_config_error :: "string option"
  configure_tls_error :: "bool \<Rightarrow> string option"
  pem_accepted :: "string \<Rightarrow> bool"
  get_service_account :: "string \<Rightarrow> string \<Rightarrow> k8s_error + string list"
  create_token :: "string \<Rightarrow> string \<Rightarrow> string list \<Rightarrow> int \<Rightarrow> string + string"

definition load_root_ca :: "login_api \<Rightarrow> cluster \<Rightarrow> string \<Rightarrow> string \<Rightarrow> login_error + string option" where
  "load_root_ca A K ns tls_secret =
     (if tls_secret = '''' then Inr None
      else case get_secret K ns tls_secret of
             Inl e \<Rightarrow> Inl (TlsSecretFailed e)
           | Inr d \<Rightarrow> if pem_accepted A (str_get d ''ca.crt'') then Inr (Some (str_get d ''ca.crt''))
                     else Inl (BadCaPem tls_secret))"

text \<open>The token of a service account: of its first secret, otherwise a new one for ten minutes.\<close>

definition service_account_token :: "login_api \<Rightarrow> cluster \<Rightarrow> string \<Rightarrow> string \<Rightarrow> login_error + string" where
  "service_account_token A K ns sa =
     (case get_service_account A ns sa of
        Inl e \<Rightarrow> Inl (ServiceAccountFailed e)
      | Inr secrets \<Rightarrow>
          (case (case secrets of
                   [] \<Rightarrow> Inr ''''
                 | s # _ \<Rightarrow> (case get_secret K ns s of
                               Inl e \<Rightarrow> Inl (AccountSecretFailed e)
                             | Inr d \<Rightarrow> Inr (str_get d ''token''))) of
             Inl e \<Rightarrow> Inl e
           | Inr t \<Rightarrow>
               if t \<noteq> '''' then Inr t
               else (case create_token A ns sa [''https://kubernetes.default.svc''] 600 of
                       Inl e \<Rightarrow> Inl (CreateTokenFailed e)
                     | Inr t' \<Rightarrow> Inr t')))"

definition webhook_vault_client :: "login_api \<Rightarrow> cluster \<Rightarrow> string \<Rightarrow> vault_config \<Rightarrow> login_error + login_params" where
  "webhook_vault_client A K mw_namespace V =
     (case default_config_error A of
        Some e \<Rightarrow> Inl (DefaultConfigFailed e)
      | None \<Rightarrow>
          (case configure_tls_error A (vc_skip_verify V) of
             Some e \<Rightarrow> Inl (TlsConfigFailed e)
           | None \<Rightarrow>
               (case load_root_ca A K mw_namespace (vc_tls_secret V) of
                  Inl e \<Rightarrow> Inl e
                | Inr ca \<Rightarrow>
                    (case (if vc_vault_service_account V \<noteq> ''''
                           then map_sum id NamespacedSecret
                                  (service_account_token A K (vc_object_namespace V) (vc_vault_service_account V))
                           else Inr (AuthMethod (vc_auth_method V))) of
                       Inl e \<Rightarrow> Inl e
                     | Inr auth \<Rightarrow>
                         Inr \<lparr>lp_addr = vc_addr V, lp_insecure = vc_skip_verify V, lp_root_ca = ca,
                              lp_role = vc_role V, lp_auth_path = vc_path V, lp_auth = auth,
                              lp_namespace = vc_vault_namespace V\<rparr>))))"

end
