(* ===== verification/Webhook_Props.thy ===== *)
theory Webhook_Props
  imports Webhook_Pod
begin

text \<open>
  What the mutation of a pod promises: a pure specification of the resulting pod, which the code meets
  with every image registry that answers with the truth, and what follows for the pod that starts.
\<close>

subsection \<open>The specification\<close>

text \<open>The containers that get the injector.\<close>

definition selected :: "cluster \<Rightarrow> vault_config \<Rightarrow> container \<Rightarrow> bool" where
  "selected K V c \<longleftrightarrow>
     (case secret_env_vars K (vc_object_namespace V) c of
        Inl _ \<Rightarrow> False
      | Inr vars \<Rightarrow> vars \<noteq> [] \<or> vc_env_from_path V \<noteq> '''') \<and>
     c_name c \<notin> set (vc_skip_mutate_containers V)"

text \<open>The command line Kubernetes runs for a container.\<close>

definition effective_argv :: "(string \<Rightarrow> image_config) \<Rightarrow> container \<Rightarrow> string list" where
  "effective_argv truth c =
     (if c_command c \<noteq> [] then c_command c @ c_args c
      else if c_args c \<noteq> [] then entrypoint (truth (c_image c)) @ c_args c
      else entrypoint (truth (c_image c)) @ image_cmd (truth (c_image c)))"

definition expected_container ::
  "(int \<Rightarrow> string) \<Rightarrow> settings \<Rightarrow> cluster \<Rightarrow> (string \<Rightarrow> image_config) \<Rightarrow> vault_config \<Rightarrow> volume list \<Rightarrow> container \<Rightarrow> container" where
  "expected_container ds Z K truth V vs c =
     (if selected K V c
      then inject_container ds Z V vs (if c_command c = [] then Some (truth (c_image c)) else None) c
      else c)"

definition expected_pod ::
  "(int \<Rightarrow> string) \<Rightarrow> settings \<Rightarrow> cluster \<Rightarrow> (string \<Rightarrow> image_config) \<Rightarrow> vault_config \<Rightarrow> pod \<Rightarrow> pod" where
  "expected_pod ds Z K truth V p =
     (let ps = spec p; f = expected_container ds Z K truth V (volumes ps);
          some = list_ex (selected K V) (init_containers ps @ containers ps)
      in if is_pod_already_mutated p then p
         else p\<lparr>spec := ps\<lparr>
           init_containers := (if some then [copy_container (pod_run_as_user ps) V] else []) @ map f (init_containers ps),
           containers := map f (containers ps),
           volumes := volumes ps @ (if some then get_volumes (volumes ps) V else [])\<rparr>\<rparr>)"

subsection \<open>One container\<close>

lemma mutate_container_cases:
  assumes "mutate_container ds Z K get V ps c r = (Inr x, r')"
  shows "(x = None \<and> \<not> selected K V c \<and> r' = r) \<or>
         (selected K V c \<and> c_command c \<noteq> [] \<and> x = Some (inject_container ds Z V (volumes ps) None c) \<and> r' = r) \<or>
         (\<exists>cfg. selected K V c \<and> c_command c = [] \<and>
            get (vc_object_namespace V) (vc_registry_skip_verify V) c ps r = (Inr cfg, r') \<and>
            x = Some (inject_container ds Z V (volumes ps) (Some cfg) c))"
  using assms by (auto simp: mutate_container_def selected_def split: sum.splits prod.splits if_splits)

lemma mutate_container_unselected:
  "secret_env_vars K (vc_object_namespace V) c = Inr vars \<Longrightarrow> \<not> selected K V c \<Longrightarrow>
   mutate_container ds Z K get V ps c r = (Inr None, r)"
  by (auto simp: mutate_container_def selected_def)

lemma mutate_container_lookup:
  "mutate_container ds Z K get V ps c r = (Inr x, r') \<Longrightarrow> \<exists>vars. secret_env_vars K (vc_object_namespace V) c = Inr vars"
  by (auto simp: mutate_container_def split: sum.splits)

text \<open>If nothing was mutated, then nothing is mutated by any other run.\<close>

lemma mutate_containers_none:
  "mutate_containers ds Z K get V ps cs r = (Inr False, cs', r') \<Longrightarrow>
   cs' = cs \<and> r' = r \<and> (\<forall>c\<in>set cs. \<not> selected K V c \<and> (\<exists>vars. secret_env_vars K (vc_object_namespace V) c = Inr vars))"
proof (induction cs arbitrary: r cs' r')
  case (Cons c cs)
  then show ?case
    by (auto split: prod.splits sum.splits option.splits dest: mutate_container_cases mutate_container_lookup)
qed simp

lemma mutate_containers_unselected:
  "\<forall>c\<in>set cs. \<not> selected K V c \<and> (\<exists>vars. secret_env_vars K (vc_object_namespace V) c = Inr vars) \<Longrightarrow>
   mutate_containers ds Z K get V ps cs r = (Inr False, cs, r)"
  by (induction cs) (auto simp: mutate_container_unselected)

lemma mutate_containers_flag:
  "mutate_containers ds Z K get V ps cs r = (Inr m, cs', r') \<Longrightarrow> m = list_ex (selected K V) cs"
proof (induction cs arbitrary: r cs' r' m)
  case (Cons c cs)
  then show ?case
    by (auto split: prod.splits sum.splits option.splits dest: mutate_container_cases)
qed simp

subsection \<open>With a registry that tells the truth\<close>

context image_registry
begin

lemma mutate_container_expected:
  assumes "inv r" "mutate_container ds Z K get V ps c r = (Inr x, r')"
  shows "inv r' \<and> (case x of None \<Rightarrow> c | Some c' \<Rightarrow> c') = expected_container ds Z K truth V (volumes ps) c"
  using mutate_container_cases [OF assms(2)] assms(1) get_truth get_inv
  by (auto simp: expected_container_def)

lemma mutate_containers_expected:
  "inv r \<Longrightarrow> mutate_containers ds Z K get V ps cs r = (Inr m, cs', r') \<Longrightarrow>
   inv r' \<and> cs' = map (expected_container ds Z K truth V (volumes ps)) cs"
proof (induction cs arbitrary: r cs' r' m)
  case (Cons c cs)
  from Cons.prems(2) obtain x r1 m' cs1 where
    h: "mutate_container ds Z K get V ps c r = (Inr x, r1)" and
    t: "mutate_containers ds Z K get V ps cs r1 = (Inr m', cs1, r')" and
    e: "cs' = (case x of None \<Rightarrow> c | Some c' \<Rightarrow> c') # cs1"
    by (auto split: prod.splits sum.splits)
  show ?case
    using mutate_container_expected [OF Cons.prems(1) h] Cons.IH [OF _ t] e by simp
qed simp

lemma mutate_pod_expected:
  assumes "inv r" "mutate_pod ds Z K get V p r = (None, p', r')"
  shows "p' = expected_pod ds Z K truth V p \<and> inv r'"
proof (cases "is_pod_already_mutated p")
  case True
  with assms show ?thesis by (simp add: mutate_pod_def expected_pod_def)
next
  case False
  let ?f = "expected_container ds Z K truth V (volumes (spec p))"
  from assms(2) False obtain mi ics r1 mc cs r2 where
    i: "mutate_containers ds Z K get V (spec p) (init_containers (spec p)) r = (Inr mi, ics, r1)" and
    c: "mutate_containers ds Z K get V ((spec p)\<lparr>init_containers := ics\<rparr>) (containers (spec p)) r1 = (Inr mc, cs, r2)"
    by (auto simp: mutate_pod_def Let_def split: prod.splits sum.splits)
  have "inv r1" and ics: "ics = map ?f (init_containers (spec p))"
    using mutate_containers_expected [OF assms(1) i] by auto
  then have cs: "cs = map ?f (containers (spec p))" and "inv r2"
    using mutate_containers_expected [OF \<open>inv r1\<close> c] by auto
  show ?thesis
    using assms(2) False i c mutate_containers_flag [OF i] mutate_containers_flag [OF c] ics cs \<open>inv r2\<close>
    by (auto simp: mutate_pod_def expected_pod_def Let_def get_init_containers_def)
qed

end

text \<open>Only these containers get a command line with the injector in front.\<close>

lemma expected_container_argv:
  "effective_argv truth (expected_container ds Z K truth V vs c) =
     (if selected K V c then injector_path # effective_argv truth c else effective_argv truth c)"
  by (simp add: expected_container_def inject_container_def effective_argv_def container_args_def)

subsection \<open>An example\<close>

text \<open>A pod with one container that has a reference to a secret, and a registry with one image.\<close>

definition example_image :: image_config where
  "example_image = \<lparr>entrypoint = [''/run''], image_cmd = [''serve'']\<rparr>"

definition example_remote :: "unit remote" where
  "example_remote = \<lparr>parse_reference = (\<lambda>_. Inr ''1''), auth_chain = (\<lambda>_ _ _ w. (Inr 0, w)),
     remote_get = (\<lambda>_ _ _ w. (Inr 0, w)), descriptor_image = (\<lambda>_ w. (Inr 0, w)),
     image_config_file = (\<lambda>_ w. (Inr example_image, w))\<rparr>"

definition example_cluster :: cluster where
  "example_cluster = \<lparr>get_config_map = (\<lambda>_ n. if n = ''broken'' then Inl (ApiFailed ''x'') else Inl NotFound),
     get_secret = (\<lambda>_ _. Inl NotFound)\<rparr>"

definition example_settings :: settings where
  "example_settings = \<lparr>setting = (\<lambda>_. ''''), setting_bool = (\<lambda>_. False), setting_list = (\<lambda>_. [])\<rparr>"

definition example_container :: container where
  "example_container = \<lparr>c_name = ''app'', c_image = ''app:1'', c_pull_policy = PullIfNotPresent, c_command = [],
     c_args = [], c_env_from = [], c_env = [plain_env ''DB'' ''secrets-store:db#pass''],
     c_mounts = [\<lparr>mount_name = ''data'', mount_path = ''/data''\<rparr>],
     c_liveness = None, c_readiness = None, c_startup = None, c_security = None, c_limits = [], c_requests = []\<rparr>"

definition example_pod :: pod where
  "example_pod = \<lparr>pod_name = ''web'', pod_annotations = [],
     spec = \<lparr>init_containers = [], containers = [example_container],
             volumes = [\<lparr>vol_name = ''data'', vol_source = OtherSource ''''\<rparr>], pod_run_as_user = None,
             service_account_name = '''', image_pull_secrets = []\<rparr>\<rparr>"

definition example_config :: vault_config where
  "example_config = (empty_config ''ns'')\<lparr>vc_tls_secret := ''ca''\<rparr>"

definition example_run :: "pod \<Rightarrow> webhook_error option \<times> pod \<times> unit registry" where
  "example_run p = mutate_pod (\<lambda>_. ''10s'') example_settings example_cluster
     (get_image_config example_remote example_settings) example_config p (new_registry ())"

lemma example_stable: "stable_images example_remote (\<lambda>_. example_image)"
  by (simp add: stable_images_def try_get_image_config_def example_remote_def)

lemma example_cache: "cache_truthful truth (new_registry w)"
  by (simp add: cache_truthful_def new_registry_def)

lemma example_run_ok: "fst (example_run example_pod) = None"
  by code_simp

subsection \<open>The code meets the specification\<close>

text \<open>C2: with a registry whose images do not change, the pod that an admission returns is the one of the
  pure specification, whatever the cache of the registry holds by then.\<close>

theorem mutate_pod_refines_spec:
  assumes "stable_images R truth" "cache_truthful truth r"
    and "mutate_pod ds Z K (get_image_config R Z) V p r = (None, p', r')"
  shows "p' = expected_pod ds Z K truth V p \<and> cache_truthful truth r'"
  using registry.mutate_pod_expected [OF _ assms(3), of truth] assms(1,2) by simp

theorem mutate_pod_refines_spec_witness:
  "fst (snd (example_run example_pod)) = expected_pod (\<lambda>_. ''10s'') example_settings example_cluster
     (\<lambda>_. example_image) example_config example_pod"
  using mutate_pod_refines_spec [OF example_stable example_cache, of "\<lambda>_. ''10s''" example_settings example_cluster
      example_config example_pod "()" "fst (snd (example_run example_pod))" "snd (snd (example_run example_pod))"]
    example_run_ok
  by (simp add: example_run_def prod_eq_iff)

text \<open>C6: the injector in a container runs exactly the command line that Kubernetes would have run without
  it, the entrypoint and command of the image included; other containers keep theirs.\<close>

theorem injector_gets_effective_argv:
  assumes "stable_images R truth" "cache_truthful truth r" "\<not> is_pod_already_mutated p"
    and "mutate_pod ds Z K (get_image_config R Z) V p r = (None, p', r')"
  shows "map (effective_argv truth) (containers (spec p')) =
           map (\<lambda>c. (if selected K V c then [injector_path] else []) @ effective_argv truth c) (containers (spec p)) \<and>
         (\<exists>pre. init_containers (spec p') = pre @ drop (length pre) (init_containers (spec p')) \<and>
            (pre = [] \<or> pre = [copy_container (pod_run_as_user (spec p)) V]) \<and>
            map (effective_argv truth) (drop (length pre) (init_containers (spec p'))) =
              map (\<lambda>c. (if selected K V c then [injector_path] else []) @ effective_argv truth c) (init_containers (spec p)))"
proof -
  let ?ps = "spec p"
  let ?pre = "if list_ex (selected K V) (init_containers ?ps @ containers ?ps)
              then [copy_container (pod_run_as_user ?ps) V] else []"
  have p': "p' = expected_pod ds Z K truth V p"
    using registry.mutate_pod_expected [OF _ assms(4), of truth] assms(1,2) by simp
  then have "map (effective_argv truth) (containers (spec p')) =
      map (\<lambda>c. (if selected K V c then [injector_path] else []) @ effective_argv truth c) (containers ?ps)"
    using assms(3) by (simp add: expected_pod_def Let_def expected_container_argv o_def cong: map_cong)
  moreover have "init_containers (spec p') =
      ?pre @ map (expected_container ds Z K truth V (volumes ?ps)) (init_containers ?ps)"
    using p' assms(3) by (simp add: expected_pod_def Let_def)
  ultimately show ?thesis
    by (intro conjI exI [of _ ?pre]) (auto simp: expected_container_argv o_def)
qed

theorem injector_gets_effective_argv_witness:
  "map (effective_argv (\<lambda>_. example_image)) (containers (spec (fst (snd (example_run example_pod))))) =
     [[''/vault/env-injector'', ''/run'', ''serve'']]"
proof -
  have "\<not> is_pod_already_mutated example_pod" by code_simp
  moreover have "map (\<lambda>c. (if selected example_cluster example_config c then [injector_path] else []) @
      effective_argv (\<lambda>_. example_image) c) (containers (spec example_pod)) = [[''/vault/env-injector'', ''/run'', ''serve'']]"
    by code_simp
  ultimately show ?thesis
    using injector_gets_effective_argv [OF example_stable example_cache, of example_pod "\<lambda>_. ''10s''" example_settings
        example_cluster example_config "()" "fst (snd (example_run example_pod))" "snd (snd (example_run example_pod))"]
      example_run_ok
    by (simp add: example_run_def prod_eq_iff)
qed

subsection \<open>Any registry\<close>

lemma mutate_pod_cases:
  assumes "mutate_pod ds Z K get V p r = (None, p', r')" "\<not> is_pod_already_mutated p"
  obtains mi ics r1 mc cs where
    "mutate_containers ds Z K get V (spec p) (init_containers (spec p)) r = (Inr mi, ics, r1)"
    "mutate_containers ds Z K get V ((spec p)\<lparr>init_containers := ics\<rparr>) (containers (spec p)) r1 = (Inr mc, cs, r')"
    "p' = p\<lparr>spec := (spec p)\<lparr>
       init_containers := get_init_containers (pod_run_as_user (spec p)) V mi mc @ ics, containers := cs,
       volumes := volumes (spec p) @ (if mi \<or> mc then get_volumes (volumes (spec p)) V else [])\<rparr>\<rparr>"
  using assms by (auto simp: mutate_pod_def Let_def get_init_containers_def split: prod.splits sum.splits if_splits)

text \<open>Every container of the result is an old one, or an old one with the injector.\<close>

lemma mutate_containers_origin:
  "mutate_containers ds Z K get V ps cs r = (Inr m, cs', r') \<Longrightarrow> c' \<in> set cs' \<Longrightarrow>
   \<exists>c\<in>set cs. c' = c \<or> m \<and> (\<exists>cfg. c' = inject_container ds Z V (volumes ps) cfg c)"
proof (induction cs arbitrary: r cs' r' m)
  case (Cons c cs)
  from Cons.prems(1) obtain x r1 m' cs1 where
    h: "mutate_container ds Z K get V ps c r = (Inr x, r1)" and
    t: "mutate_containers ds Z K get V ps cs r1 = (Inr m', cs1, r')" and
    e: "cs' = (case x of None \<Rightarrow> c | Some c' \<Rightarrow> c') # cs1" "m \<longleftrightarrow> x \<noteq> None \<or> m'"
    by (auto split: prod.splits sum.splits)
  show ?case
    using mutate_container_cases [OF h] Cons.IH [OF t] Cons.prems(2) e by auto
qed simp

definition pod_containers :: "pod_spec \<Rightarrow> container list" where
  "pod_containers ps = init_containers ps @ containers ps"

definition mounts_resolve :: "pod_spec \<Rightarrow> bool" where
  "mounts_resolve ps \<longleftrightarrow>
     (\<forall>c\<in>set (pod_containers ps). \<forall>m\<in>set (c_mounts c). mount_name m \<in> vol_name ` set (volumes ps))"

lemma injector_mounts_volumes:
  "m \<in> set (injector_mounts V vs) \<Longrightarrow> mount_name m \<in> vol_name ` set (get_volumes vs V)"
  by (auto simp: injector_mounts_def get_volumes_def tls_mount_def split: if_splits)

lemma vault_env_volume: "vault_env_volume_name \<in> vol_name ` set (get_volumes vs V)"
  by (simp add: get_volumes_def)

text \<open>C19: the mutation keeps a pod well-formed: the mounts of all containers, the copying one included,
  name volumes of the pod, and the names of the volumes stay distinct (the name for the second TLS volume
  being free).\<close>

theorem mutation_keeps_pod_well_formed:
  assumes m: "mutate_pod ds Z K get V p r = (None, p', r')" and ok: "mounts_resolve (spec p)"
    and d: "distinct (map vol_name (volumes (spec p)))"
    and free: "''stronghold-env-tls'' \<notin> vol_name ` set (volumes (spec p))"
  shows "mounts_resolve (spec p') \<and> distinct (map vol_name (volumes (spec p')))"
proof (cases "is_pod_already_mutated p")
  case True
  with m ok d show ?thesis by (simp add: mutate_pod_def)
next
  case False
  obtain mi ics r1 mc cs where
    i: "mutate_containers ds Z K get V (spec p) (init_containers (spec p)) r = (Inr mi, ics, r1)" and
    c: "mutate_containers ds Z K get V ((spec p)\<lparr>init_containers := ics\<rparr>) (containers (spec p)) r1 = (Inr mc, cs, r')" and
    p': "p' = p\<lparr>spec := (spec p)\<lparr>
       init_containers := get_init_containers (pod_run_as_user (spec p)) V mi mc @ ics, containers := cs,
       volumes := volumes (spec p) @ (if mi \<or> mc then get_volumes (volumes (spec p)) V else [])\<rparr>\<rparr>"
    using mutate_pod_cases [OF m False] by metis
  let ?vs = "volumes (spec p) @ (if mi \<or> mc then get_volumes (volumes (spec p)) V else [])"
  have old: "mount_name mt \<in> vol_name ` set ?vs"
    if "x \<in> set (pod_containers (spec p))" "mt \<in> set (c_mounts x)" for x mt
    using ok that by (auto simp: mounts_resolve_def)
  have new: "mount_name mt \<in> vol_name ` set ?vs" if "mt \<in> set (injector_mounts V (volumes (spec p)))" "mi \<or> mc" for mt
    using injector_mounts_volumes [OF that(1)] that(2) by auto
  have step: "mount_name mt \<in> vol_name ` set ?vs" if "x \<in> set (ics @ cs)" "mt \<in> set (c_mounts x)" for x mt
    using that mutate_containers_origin [OF i] mutate_containers_origin [OF c] old new
    by (fastforce simp: pod_containers_def inject_container_def)
  have copy: "mount_name mt \<in> vol_name ` set ?vs"
    if "x \<in> set (get_init_containers (pod_run_as_user (spec p)) V mi mc)" "mt \<in> set (c_mounts x)" for x mt
    using that vault_env_volume [of "volumes (spec p)" V]
    by (auto simp: get_init_containers_def copy_container_def split: if_splits)
  have "mounts_resolve (spec p')"
    using step copy by (auto simp: p' mounts_resolve_def pod_containers_def)
  moreover have "\<forall>x\<in>set (volumes (spec p)). vol_name x \<noteq> ''stronghold-env-tls''"
    using free by (metis image_eqI)
  then have "distinct (map vol_name ?vs)"
    using d False
    by (auto simp: get_volumes_def is_pod_already_mutated_def list_ex_iff has_tls_volume_def vault_env_volume_name_def)
  ultimately show ?thesis by (simp add: p')
qed

text \<open>C18: mutating an admitted pod again, with any registry in any state, changes nothing.\<close>

theorem mutate_pod_idempotent:
  assumes m: "mutate_pod ds Z K get V p r = (None, p', r')"
  shows "mutate_pod ds Z K get2 V p' r2 = (None, p', r2)"
proof (cases "is_pod_already_mutated p")
  case True
  with m show ?thesis by (simp add: mutate_pod_def)
next
  case False
  obtain mi ics r1 mc cs where
    i: "mutate_containers ds Z K get V (spec p) (init_containers (spec p)) r = (Inr mi, ics, r1)" and
    c: "mutate_containers ds Z K get V ((spec p)\<lparr>init_containers := ics\<rparr>) (containers (spec p)) r1 = (Inr mc, cs, r')" and
    p': "p' = p\<lparr>spec := (spec p)\<lparr>
       init_containers := get_init_containers (pod_run_as_user (spec p)) V mi mc @ ics, containers := cs,
       volumes := volumes (spec p) @ (if mi \<or> mc then get_volumes (volumes (spec p)) V else [])\<rparr>\<rparr>"
    using mutate_pod_cases [OF m False] by metis
  show ?thesis
  proof (cases "mi \<or> mc")
    case True
    then have "is_pod_already_mutated p'"
      by (auto simp: p' is_pod_already_mutated_def get_volumes_def)
    then show ?thesis by (simp add: mutate_pod_def)
  next
    case none: False
    then have n: "\<not> mi" "\<not> mc" by auto
    note ui = mutate_containers_none [OF i [simplified n]]
    note uc = mutate_containers_none [OF c [simplified n]]
    have "p' = p" using ui uc n by (simp add: p' get_init_containers_def)
    then show ?thesis
      using False ui uc by (simp add: mutate_pod_def get_init_containers_def mutate_containers_unselected)
  qed
qed

theorem mutation_keeps_pod_well_formed_witness:
  "mounts_resolve (spec (fst (snd (example_run example_pod)))) \<and>
   distinct (map vol_name (volumes (spec (fst (snd (example_run example_pod))))))"
proof -
  have "mounts_resolve (spec example_pod)" "distinct (map vol_name (volumes (spec example_pod)))"
    "''stronghold-env-tls'' \<notin> vol_name ` set (volumes (spec example_pod))"
    by code_simp+
  then show ?thesis
    using mutation_keeps_pod_well_formed [of "\<lambda>_. ''10s''" example_settings example_cluster
        "get_image_config example_remote example_settings" example_config example_pod "new_registry ()"
        "fst (snd (example_run example_pod))" "snd (snd (example_run example_pod))"] example_run_ok
    by (simp add: example_run_def prod_eq_iff)
qed

theorem mutate_pod_idempotent_witness:
  "example_run (fst (snd (example_run example_pod))) = (None, fst (snd (example_run example_pod)), new_registry ())"
  using mutate_pod_idempotent [of "\<lambda>_. ''10s''" example_settings example_cluster
        "get_image_config example_remote example_settings" example_config example_pod "new_registry ()"
        "fst (snd (example_run example_pod))" "snd (snd (example_run example_pod))"
        "get_image_config example_remote example_settings" "new_registry ()"] example_run_ok
  by (simp add: example_run_def prod_eq_iff)

subsection \<open>Errors\<close>

lemma look_for_env_from_error: "look_for_env_from K ns efs = Inl e \<Longrightarrow> e \<noteq> NotFound"
  by (induction K ns efs rule: look_for_env_from.induct)
     (auto simp: ref_entries_def split: option.splits sum.splits if_splits)

lemma look_for_value_from_error: "look_for_value_from K ns n src = Inl e \<Longrightarrow> e \<noteq> NotFound"
  by (auto simp: look_for_value_from_def split: option.splits sum.splits if_splits)

lemma look_for_env_error: "look_for_env K ns es = Inl e \<Longrightarrow> e \<noteq> NotFound"
proof (induction es arbitrary: e)
  case (Cons x es)
  then show ?case
    using look_for_value_from_error by (auto simp: Let_def split: option.splits sum.splits)
qed simp

lemma mutate_containers_error:
  "mutate_containers ds Z K get V ps cs r = (Inl e, cs', r') \<Longrightarrow>
   (\<exists>msg. e = LookupFailed (ApiFailed msg)) \<or> (\<exists>x. e = ImageConfigFailed x)"
proof (induction cs arbitrary: r cs' r')
  case (Cons c cs)
  have "\<exists>m. k = ApiFailed m" if "secret_env_vars K (vc_object_namespace V) c = Inl k" for k
    using that by (cases k) (auto simp: secret_env_vars_def split: sum.splits dest: look_for_env_from_error look_for_env_error)
  then have "(\<exists>msg. e = LookupFailed (ApiFailed msg)) \<or> (\<exists>x. e = ImageConfigFailed x)"
    if "mutate_container ds Z K get V ps c r = (Inl e, r1)" for r1
    using that by (cases e) (auto simp: mutate_container_def split: sum.splits prod.splits if_splits)
  with Cons show ?case
    by (auto split: prod.splits sum.splits)
qed simp

text \<open>C26: a config map or secret that does not exist never rejects a pod: an admission fails only because
  the API server failed otherwise or because the configuration of an image could not be read.\<close>

theorem missing_objects_never_reject:
  assumes "mutate_pod ds Z K get V p r = (Some e, p', r')"
  shows "(\<exists>msg. e = LookupFailed (ApiFailed msg)) \<or> (\<exists>x. e = ImageConfigFailed x)"
  using assms
  by (auto simp: mutate_pod_def Let_def split: prod.splits sum.splits if_splits dest: mutate_containers_error)

definition broken_pod :: pod where
  "broken_pod = example_pod\<lparr>spec := (spec example_pod)\<lparr>containers :=
     [example_container\<lparr>c_env_from := [\<lparr>config_map_ref = Some (''broken'', None), secret_ref = None\<rparr>]\<rparr>]\<rparr>\<rparr>"

theorem missing_objects_never_reject_witness:
  "\<exists>e. fst (example_run broken_pod) = Some e \<and> ((\<exists>msg. e = LookupFailed (ApiFailed msg)) \<or> (\<exists>x. e = ImageConfigFailed x))"
proof -
  have e: "fst (example_run broken_pod) = Some (LookupFailed (ApiFailed ''x''))" by code_simp
  then show ?thesis
    using missing_objects_never_reject [of "\<lambda>_. ''10s''" example_settings example_cluster
        "get_image_config example_remote example_settings" example_config broken_pod "new_registry ()"
        "LookupFailed (ApiFailed ''x'')" "fst (snd (example_run broken_pod))" "snd (snd (example_run broken_pod))"]
    by (simp add: example_run_def prod_eq_iff)
qed

end
