(* ===== verification/Go_Time.thy ===== *)
theory Go_Time
  imports Jitter
begin

text \<open>
  \<open>time.ParseDuration\<close> and \<open>Duration.String\<close>, which the webhook uses for the timeout of the Vault client.

  A duration is a number of nanoseconds in the range of \<open>int64\<close>; the intermediate numbers of the parser are
  \<open>uint64\<close>. The fraction of a unit is computed in \<open>float64\<close>: the quotient of unit and scale and the product
  with the digits are rounded to 53 significant bits.
\<close>

definition is_digit :: "char \<Rightarrow> bool" where
  "is_digit c \<longleftrightarrow> 48 \<le> (of_char c :: nat) \<and> (of_char c :: nat) \<le> 57"

definition digit_value :: "char \<Rightarrow> int" where
  "digit_value c = int (of_char c) - 48"

definition digit_char :: "int \<Rightarrow> char" where
  "digit_char d = char_of (nat d + 48)"

subsection \<open>Duration.String\<close>

text \<open>\<open>fmtFrac\<close>: the digits of the fraction from the last one, zeros at the end left out.\<close>

fun fmt_frac_loop :: "nat \<Rightarrow> int \<Rightarrow> bool \<Rightarrow> string \<Rightarrow> bool \<times> string \<times> int" where
  "fmt_frac_loop 0 v pr acc = (pr, acc, v)"
| "fmt_frac_loop (Suc n) v pr acc =
     (let digit = v mod 10; pr' = (pr \<or> digit \<noteq> 0)
      in fmt_frac_loop n (v div 10) pr' (if pr' then digit_char digit # acc else acc))"

definition fmt_frac :: "int \<Rightarrow> nat \<Rightarrow> string \<times> int" where
  "fmt_frac v prec =
     (case fmt_frac_loop prec v False [] of (pr, acc, v') \<Rightarrow> (if pr then CHR ''.'' # acc else acc, v'))"

function fmt_int_loop :: "int \<Rightarrow> string \<Rightarrow> string" where
  "fmt_int_loop v acc = (if v \<le> 0 then acc else fmt_int_loop (v div 10) (digit_char (v mod 10) # acc))"
  by pat_completeness auto
termination
  by (relation "measure (nat \<circ> fst)") auto

declare fmt_int_loop.simps [simp del]

definition fmt_int :: "int \<Rightarrow> string" where
  "fmt_int v = (if v = 0 then ''0'' else fmt_int_loop v [])"

text \<open>The part in seconds, minutes and hours, and the part below a second with its unit.\<close>

definition seconds_string :: "int \<Rightarrow> string" where
  "seconds_string u =
     (case fmt_frac u 9 of
        (frac, sec) \<Rightarrow>
          (let s = fmt_int (sec mod 60) @ frac @ ''s''; m = sec div 60
           in if m > 0 then
                (let s' = fmt_int (m mod 60) @ ''m'' @ s; h = m div 60
                 in if h > 0 then fmt_int h @ ''h'' @ s' else s')
              else s))"

definition micro_unit :: string where
  "micro_unit = [char_of (0xC2 :: nat), char_of (0xB5 :: nat), CHR ''s'']"

definition small_string :: "int \<Rightarrow> string" where
  "small_string u =
     (if u = 0 then ''0s''
      else if u < 10 ^ 3 then (case fmt_frac u 0 of (frac, v) \<Rightarrow> fmt_int v @ frac @ ''ns'')
      else if u < 10 ^ 6 then (case fmt_frac u 3 of (frac, v) \<Rightarrow> fmt_int v @ frac @ micro_unit)
      else (case fmt_frac u 6 of (frac, v) \<Rightarrow> fmt_int v @ frac @ ''ms''))"

definition duration_string :: "int \<Rightarrow> string" where
  "duration_string d =
     (if d < 0 then ''-'' else []) @ (if \<bar>d\<bar> < 10 ^ 9 then small_string \<bar>d\<bar> else seconds_string \<bar>d\<bar>)"

subsection \<open>ParseDuration\<close>

fun leading_int :: "int \<Rightarrow> string \<Rightarrow> (int \<times> string) option" where
  "leading_int x [] = Some (x, [])"
| "leading_int x (c # s) =
     (if \<not> is_digit c then Some (x, c # s)
      else if x > 2 ^ 63 div 10 then None
      else let y = x * 10 + digit_value c
           in if y > 2 ^ 63 then None else leading_int y s)"

text \<open>Digits after an overflow are skipped; the scale is a power of ten that \<open>float64\<close> represents.\<close>

fun leading_fraction :: "int \<Rightarrow> int \<Rightarrow> bool \<Rightarrow> string \<Rightarrow> int \<times> int \<times> string" where
  "leading_fraction x scale ov [] = (x, scale, [])"
| "leading_fraction x scale ov (c # s) =
     (if \<not> is_digit c then (x, scale, c # s)
      else if ov then leading_fraction x scale ov s
      else if x > (2 ^ 63 - 1) div 10 then leading_fraction x scale True s
      else let y = x * 10 + digit_value c
           in if y > 2 ^ 63 then leading_fraction x scale True s
              else leading_fraction y (scale * 10) False s)"

definition unit_map :: "string \<Rightarrow> int option" where
  "unit_map = map_of
     [(''ns'', 1), (''us'', 10 ^ 3), (micro_unit, 10 ^ 3),
      ([char_of (0xCE :: nat), char_of (0xBC :: nat), CHR ''s''], 10 ^ 3),
      (''ms'', 10 ^ 6), (''s'', 10 ^ 9), (''m'', 60 * 10 ^ 9), (''h'', 3600 * 10 ^ 9)]"

text \<open>
  \<open>uint64(float64(f) * (float64(unit) / scale))\<close>. The quotient is carried as an integer scaled by
  \<open>2 ^ 201\<close>, with a sticky bit for the remainder, which keeps the rounding to 53 bits exact.
\<close>

definition float_fraction :: "int \<Rightarrow> int \<Rightarrow> int \<Rightarrow> int" where
  "float_fraction f unt scale =
     (let q = unt * 2 ^ 200 div scale;
          r = round_sig (2 * q + (if unt * 2 ^ 200 mod scale = 0 then 0 else 1))
      in round_sig (round_sig f * r) div 2 ^ 201)"

definition in_unit :: "char \<Rightarrow> bool" where
  "in_unit c \<longleftrightarrow> c \<noteq> CHR ''.'' \<and> \<not> is_digit c"

text \<open>One number with its unit: the nanoseconds and the rest of the text.\<close>

definition parse_segment :: "string \<Rightarrow> (int \<times> string) option" where
  "parse_segment s =
     (if s = [] \<or> in_unit (hd s) then None
      else case leading_int 0 s of
             None \<Rightarrow> None
           | Some (v, s1) \<Rightarrow>
               (let pre = (length s1 \<noteq> length s);
                    dot = (s1 \<noteq> [] \<and> hd s1 = CHR ''.'');
                    fr = (if dot then leading_fraction 0 1 False (tl s1) else (0, 1, s1));
                    f = fst fr; scale = fst (snd fr); s2 = snd (snd fr);
                    post = (dot \<and> length s2 \<noteq> length (tl s1));
                    u = takeWhile in_unit s2; rest = dropWhile in_unit s2
                in if \<not> pre \<and> \<not> post \<or> u = [] then None
                   else case unit_map u of
                          None \<Rightarrow> None
                        | Some unt \<Rightarrow>
                            if v > 2 ^ 63 div unt then None
                            else let w = v * unt + (if f > 0 then float_fraction f unt scale else 0)
                                 in if w > 2 ^ 63 then None else Some (w, rest)))"

lemma leading_int_length: "leading_int x s = Some (v, r) \<Longrightarrow> length r \<le> length s"
  by (induction x s rule: leading_int.induct) (auto simp: Let_def split: if_splits)

lemma leading_fraction_length: "length (snd (snd (leading_fraction x sc ov s))) \<le> length s"
  by (induction x sc ov s rule: leading_fraction.induct) (auto simp: Let_def intro: le_SucI)

lemma parse_segment_shorter:
  assumes "parse_segment s = Some (w, r)"
  shows "length r < length s"
proof -
  obtain s1 s2 :: string where 1: "length s1 \<le> length s" and 2: "length s2 \<le> length s1"
    and u: "takeWhile in_unit s2 \<noteq> []" and r: "r = dropWhile in_unit s2"
  proof -
    from assms obtain v s1 where l: "leading_int 0 s = Some (v, s1)"
      by (auto simp: parse_segment_def split: option.splits if_splits)
    let ?dot = "s1 \<noteq> [] \<and> hd s1 = CHR ''.''"
    let ?s2 = "snd (snd (if ?dot then leading_fraction 0 1 False (tl s1) else (0, 1, s1)))"
    have "length ?s2 \<le> length s1"
      using leading_fraction_length [of 0 1 False "tl s1"] by (auto intro: order.trans)
    moreover have "takeWhile in_unit ?s2 \<noteq> []" "r = dropWhile in_unit ?s2"
      using assms l by (auto simp: parse_segment_def Let_def split: option.splits if_splits)
    ultimately show thesis by (rule that [OF leading_int_length [OF l]])
  qed
  have "length s2 = length (takeWhile in_unit s2) + length (dropWhile in_unit s2)"
    by (metis length_append takeWhile_dropWhile_id)
  with u have "length (dropWhile in_unit s2) < length s2" by (cases "takeWhile in_unit s2") auto
  with 1 2 r show ?thesis by simp
qed

function parse_segments :: "int \<Rightarrow> string \<Rightarrow> int option" where
  "parse_segments d s =
     (if s = [] then Some d
      else case parse_segment s of
             None \<Rightarrow> None
           | Some (w, r) \<Rightarrow>
               (let d' = (d + w) mod 2 ^ 64 in if d' > 2 ^ 63 then None else parse_segments d' r))"
  by pat_completeness auto
termination
  by (relation "measure (\<lambda>(d, s). length s)") (auto dest: parse_segment_shorter)

declare parse_segments.simps [simp del]

definition parse_duration :: "string \<Rightarrow> int option" where
  "parse_duration s0 =
     (let neg = (s0 \<noteq> [] \<and> hd s0 = CHR ''-'');
          s = (if s0 \<noteq> [] \<and> (hd s0 = CHR ''-'' \<or> hd s0 = CHR ''+'') then tl s0 else s0)
      in if s = ''0'' then Some 0
         else if s = [] then None
         else case parse_segments 0 s of
                None \<Rightarrow> None
              | Some d \<Rightarrow> if neg then Some (- d) else if d > 2 ^ 63 - 1 then None else Some d)"

subsection \<open>Rounding is exact on short numbers\<close>

lemma bit_count_double: "0 \<le> m \<Longrightarrow> bit_count (m * 2 ^ k) \<le> bit_count m + k"
proof (induction k)
  case (Suc k)
  show ?case
  proof (cases "m = 0")
    case True
    then show ?thesis by (simp add: bit_count.simps)
  next
    case False
    with Suc have "0 < m * 2 ^ Suc k" by simp
    then have "bit_count (m * 2 ^ Suc k) = Suc (bit_count (m * 2 ^ Suc k div 2))"
      by (subst bit_count.simps) simp
    also have "m * 2 ^ Suc k div 2 = m * 2 ^ k" by simp
    finally show ?thesis using Suc by simp
  qed
qed simp

lemma round_sig_short:
  assumes "0 \<le> m" "m < 2 ^ 53"
  shows "round_sig (m * 2 ^ k) = m * 2 ^ k"
proof (cases "bit_count (m * 2 ^ k) \<le> 53")
  case True
  then show ?thesis by (simp add: round_sig_def)
next
  case False
  have "bit_count m \<le> 53" using assms by (rule bit_count_le)
  then have "bit_count (m * 2 ^ k) - 53 \<le> k" using bit_count_double [OF assms(1), of k] by linarith
  then have "(2 :: int) ^ (bit_count (m * 2 ^ k) - 53) dvd m * 2 ^ k"
    by (intro dvd_mult le_imp_power_dvd)
  then show ?thesis by (auto simp: round_sig_def Let_def)
qed

text \<open>A fraction that the unit can hold exactly is converted exactly.\<close>

lemma float_fraction_exact:
  assumes "0 \<le> f" "f < scale" "scale * c = unt" "0 < c" "unt < 2 ^ 53"
  shows "float_fraction f unt scale = f * c"
proof -
  have pos: "0 < scale" using assms by linarith
  have c: "c < 2 ^ 53"
  proof -
    have "c * 1 \<le> c * scale" using pos assms(4) by (intro mult_left_mono) auto
    then show ?thesis using assms(3,5) by (simp add: mult.commute)
  qed
  have fc: "f * c < 2 ^ 53"
  proof -
    have "f * c \<le> scale * c" using assms(2,4) by (intro mult_right_mono) auto
    then show ?thesis using assms(3,5) by simp
  qed
  have f: "f < 2 ^ 53"
  proof -
    have "f * 1 \<le> f * c" using assms(1,4) by (intro mult_left_mono) auto
    then show ?thesis using fc by simp
  qed
  have q: "unt * 2 ^ 200 = scale * (c * 2 ^ 200)" using assms(3) by simp
  have "unt * 2 ^ 200 div scale = c * 2 ^ 200" "unt * 2 ^ 200 mod scale = 0"
    unfolding q using pos by simp_all
  then have "float_fraction f unt scale = round_sig (round_sig f * round_sig (c * 2 ^ 201)) div 2 ^ 201"
    by (simp add: float_fraction_def Let_def mult.commute mult.left_commute flip: power_Suc)
  also have "round_sig (c * 2 ^ 201) = c * 2 ^ 201" using assms(4) c by (intro round_sig_short) auto
  also have "round_sig f = f" using round_sig_short [of f 0] assms(1) f by simp
  also have "f * (c * 2 ^ 201) = (f * c) * 2 ^ 201" by simp
  also have "round_sig \<dots> = (f * c) * 2 ^ 201" using assms(1,4) fc by (intro round_sig_short) auto
  finally show ?thesis by simp
qed

subsection \<open>Digits\<close>

definition dval :: "int \<Rightarrow> string \<Rightarrow> int" where
  "dval x ds = foldl (\<lambda>a c. a * 10 + digit_value c) x ds"

lemma digit_char_props:
  assumes "0 \<le> d" "d < 10"
  shows "is_digit (digit_char d)" "digit_value (digit_char d) = d"
  using assms by (simp_all add: is_digit_def digit_char_def digit_value_def of_char_of nat_less_iff)

lemma digit_value_bounds: "is_digit c \<Longrightarrow> 0 \<le> digit_value c \<and> digit_value c \<le> 9"
  by (auto simp: is_digit_def digit_value_def)

lemma dval_Cons [simp]: "dval x (c # ds) = dval (x * 10 + digit_value c) ds" and dval_Nil [simp]: "dval x [] = x"
  by (simp_all add: dval_def)

lemma dval_append: "dval x (as @ bs) = dval (dval x as) bs"
  by (simp add: dval_def)

lemma dval_shift: "dval x ds = x * 10 ^ length ds + dval 0 ds"
proof (induction ds arbitrary: x)
  case (Cons c ds)
  have "dval x (c # ds) = (x * 10 + digit_value c) * 10 ^ length ds + dval 0 ds"
    using Cons [of "x * 10 + digit_value c"] by simp
  moreover have "dval 0 (c # ds) = digit_value c * 10 ^ length ds + dval 0 ds"
    using Cons [of "digit_value c"] by simp
  ultimately show ?case by (simp add: algebra_simps)
qed simp

lemma dval_nonneg: "list_all is_digit ds \<Longrightarrow> 0 \<le> x \<Longrightarrow> x \<le> dval x ds"
proof (induction ds arbitrary: x)
  case (Cons c ds)
  with digit_value_bounds [of c] have "x \<le> x * 10 + digit_value c" "0 \<le> x * 10 + digit_value c" by auto
  with Cons show ?case by fastforce
qed simp

lemma dval_less: "list_all is_digit ds \<Longrightarrow> dval 0 ds < 10 ^ length ds"
proof (induction ds rule: rev_induct)
  case (snoc c ds)
  with digit_value_bounds [of c] show ?case by (simp add: dval_append)
qed simp

subsection \<open>Printing\<close>

lemma fmt_int_loop_digits:
  "0 \<le> v \<Longrightarrow> \<exists>ds. list_all is_digit ds \<and> dval 0 ds = v \<and> (0 < v \<longrightarrow> ds \<noteq> []) \<and> fmt_int_loop v acc = ds @ acc"
proof (induction v acc rule: fmt_int_loop.induct)
  case (1 v acc)
  show ?case
  proof (cases "v = 0")
    case True
    then show ?thesis by (intro exI [of _ "[]"]) (simp add: fmt_int_loop.simps [of 0])
  next
    case False
    have "0 \<le> v div 10" using "1.prems" by (simp add: pos_imp_zdiv_nonneg_iff)
    with 1 False obtain ds where ds: "list_all is_digit ds" "dval 0 ds = v div 10"
      "fmt_int_loop (v div 10) (digit_char (v mod 10) # acc) = ds @ digit_char (v mod 10) # acc"
      by auto
    with False "1.prems" digit_char_props [of "v mod 10"] show ?thesis
      by (intro exI [of _ "ds @ [digit_char (v mod 10)]"])
         (simp add: fmt_int_loop.simps [of v acc] dval_append)
  qed
qed

lemma fmt_int_digits:
  assumes "0 \<le> v"
  shows "list_all is_digit (fmt_int v) \<and> dval 0 (fmt_int v) = v \<and> fmt_int v \<noteq> []"
proof (cases "v = 0")
  case True
  then show ?thesis by (simp add: fmt_int_def is_digit_def digit_value_def)
next
  case False
  with fmt_int_loop_digits [OF assms, of "[]"] assms show ?thesis by (auto simp: fmt_int_def)
qed

lemma mod_ten_Suc: "v mod 10 ^ Suc n = v div 10 mod 10 ^ n * 10 + v mod (10 :: int)"
  using zmod_zmult2_eq [of "10 ^ n" v 10] by (simp add: mult.commute)

lemma div_ten_Suc: "v div 10 div 10 ^ n = v div (10 ^ Suc n :: int)"
  by (simp add: zdiv_zmult2_eq)

lemma fmt_frac_loop_on:
  "\<exists>ds. list_all is_digit ds \<and> length ds = n \<and> dval 0 ds = v mod 10 ^ n \<and>
     fmt_frac_loop n v True acc = (True, ds @ acc, v div 10 ^ n)"
proof (induction n arbitrary: v acc)
  case (Suc n)
  obtain ds where "list_all is_digit ds" "length ds = n" "dval 0 ds = v div 10 mod 10 ^ n"
    "fmt_frac_loop n (v div 10) True (digit_char (v mod 10) # acc) =
       (True, ds @ digit_char (v mod 10) # acc, v div 10 div 10 ^ n)"
    using Suc by metis
  with digit_char_props [of "v mod 10"] show ?case
    by (intro exI [of _ "ds @ [digit_char (v mod 10)]"])
       (simp add: dval_append mod_ten_Suc div_ten_Suc del: power_Suc)
qed simp

lemma fmt_frac_loop_off:
  "if v mod 10 ^ n = 0 then fmt_frac_loop n v False [] = (False, [], v div 10 ^ n)
   else \<exists>ds. list_all is_digit ds \<and> ds \<noteq> [] \<and> length ds \<le> n \<and> dval 0 ds * 10 ^ (n - length ds) = v mod 10 ^ n \<and>
     fmt_frac_loop n v False [] = (True, ds, v div 10 ^ n)"
proof (induction n arbitrary: v)
  case (Suc n)
  show ?case
  proof (cases "v mod 10 = 0")
    case True
    then have m: "v mod 10 ^ Suc n = v div 10 mod 10 ^ n * 10" using mod_ten_Suc [of v n] by simp
    show ?thesis
    proof (cases "v div 10 mod 10 ^ n = 0")
      case z: True
      then show ?thesis using Suc [of "v div 10"] m True by (simp add: Let_def div_ten_Suc del: power_Suc)
    next
      case False
      with Suc [of "v div 10"] obtain ds where ds: "list_all is_digit ds" "ds \<noteq> []" "length ds \<le> n"
        "dval 0 ds * 10 ^ (n - length ds) = v div 10 mod 10 ^ n"
        "fmt_frac_loop n (v div 10) False [] = (True, ds, v div 10 div 10 ^ n)"
        by auto
      moreover have "dval 0 ds * 10 ^ (Suc n - length ds) = v mod 10 ^ Suc n"
        using ds(3,4) m by (simp add: Suc_diff_le)
      ultimately show ?thesis
        using m False True by (simp add: Let_def div_ten_Suc del: power_Suc)
    qed
  next
    case False
    obtain ds where ds: "list_all is_digit ds" "length ds = n" "dval 0 ds = v div 10 mod 10 ^ n"
      "fmt_frac_loop n (v div 10) True [digit_char (v mod 10)] = (True, ds @ [digit_char (v mod 10)], v div 10 div 10 ^ n)"
      using fmt_frac_loop_on [of n "v div 10" "[digit_char (v mod 10)]"] by auto
    have "0 \<le> v div 10 mod 10 ^ n * 10" by simp
    with False have "v mod 10 ^ Suc n \<noteq> 0" using mod_ten_Suc [of v n] pos_mod_sign [of 10 v] by linarith
    with False ds digit_char_props [of "v mod 10"] show ?thesis
      by (simp add: Let_def div_ten_Suc mod_ten_Suc dval_append del: power_Suc)
  qed
qed simp

subsection \<open>Parsing what was printed\<close>

abbreviation no_digit_first :: "string \<Rightarrow> bool" where
  "no_digit_first r \<equiv> r = [] \<or> \<not> is_digit (hd r)"

lemma leading_int_digits:
  "list_all is_digit ds \<Longrightarrow> 0 \<le> x \<Longrightarrow> dval x ds \<le> 2 ^ 63 \<Longrightarrow> no_digit_first r \<Longrightarrow>
   leading_int x (ds @ r) = Some (dval x ds, r)"
proof (induction ds arbitrary: x)
  case Nil
  then show ?case by (cases r) auto
next
  case (Cons c ds)
  let ?y = "x * 10 + digit_value c"
  have y: "0 \<le> ?y" "?y \<le> 2 ^ 63"
    using Cons.prems digit_value_bounds [of c] dval_nonneg [of ds ?y] by auto
  moreover have "\<not> x > 2 ^ 63 div 10" using y digit_value_bounds [of c] Cons.prems by auto
  ultimately show ?case using Cons by (simp add: Let_def)
qed

lemma leading_fraction_digits:
  "list_all is_digit ds \<Longrightarrow> 0 \<le> x \<Longrightarrow> dval x ds \<le> 10 ^ 18 \<Longrightarrow> no_digit_first r \<Longrightarrow>
   leading_fraction x sc False (ds @ r) = (dval x ds, sc * 10 ^ length ds, r)"
proof (induction ds arbitrary: x sc)
  case Nil
  then show ?case by (cases r) auto
next
  case (Cons c ds)
  let ?y = "x * 10 + digit_value c"
  have "0 \<le> ?y" "?y \<le> 10 ^ 18"
    using Cons.prems digit_value_bounds [of c] dval_nonneg [of ds ?y] by auto
  with Cons digit_value_bounds [of c] show ?case by (simp add: Let_def)
qed

text \<open>A number, the printed fraction and a unit are one segment.\<close>

lemma parse_segment_printed:
  assumes v: "0 \<le> v" and frac: "fmt_frac v prec = (frac, v')" and prec: "prec \<le> 9"
    and unt: "unit_map u = Some (10 ^ prec)" "u \<noteq> []" "list_all in_unit u" and rest: "rest = [] \<or> \<not> in_unit (hd rest)"
    and i: "0 \<le> i" "i * 10 ^ prec + v mod 10 ^ prec \<le> 2 ^ 63"
  shows "parse_segment (fmt_int i @ frac @ u @ rest) = Some (i * 10 ^ prec + v mod 10 ^ prec, rest)"
proof -
  note int = fmt_int_digits [OF i(1)]
  have u1: "takeWhile in_unit (u @ rest) = u" "dropWhile in_unit (u @ rest) = rest"
    using unt(3) rest by (cases rest; auto simp: list_all_iff takeWhile_append2 dropWhile_append2)+
  have hu: "\<not> is_digit (hd u)" "hd u \<noteq> CHR ''.''" using unt(2,3) by (cases u; simp add: in_unit_def)+
  have m0: "0 \<le> v mod 10 ^ prec" by simp
  have p1: "(1 :: int) \<le> 10 ^ prec" by simp
  have i63: "i * 10 ^ prec \<le> 2 ^ 63" using i(2) m0 by linarith
  then have "i \<le> 2 ^ 63" using mult_left_mono [OF p1 i(1)] by linarith
  moreover have "no_digit_first (frac @ u @ rest)"
  proof -
    have "frac = [] \<or> hd frac = CHR ''.''" using frac fmt_frac_loop_off [of v prec] by (auto simp: fmt_frac_def split: prod.splits if_splits)
    then show ?thesis using hu unt(2) by (cases frac; cases u) (auto simp: is_digit_def)
  qed
  ultimately have li: "leading_int 0 (fmt_int i @ frac @ u @ rest) = Some (i, frac @ u @ rest)"
    using leading_int_digits [of "fmt_int i" 0 "frac @ u @ rest"] int by simp
  have hd: "\<not> in_unit (hd (fmt_int i @ frac @ u @ rest))" using int by (cases "fmt_int i") (auto simp: in_unit_def)
  have iu: "\<not> i > 2 ^ 63 div 10 ^ prec"
  proof -
    have "i = i * 10 ^ prec div 10 ^ prec" by simp
    also have "\<dots> \<le> 2 ^ 63 div 10 ^ prec" using i63 by (intro zdiv_mono1) auto
    finally show ?thesis by simp
  qed
  show ?thesis
  proof (cases "v mod 10 ^ prec = 0")
    case True
    with fmt_frac_loop_off [of v prec] frac have f: "frac = []" by (auto simp: fmt_frac_def)
    show ?thesis
      using li hd int unt u1 hu iu True i63 unfolding parse_segment_def f by (simp add: Let_def)
  next
    case False
    with fmt_frac_loop_off [of v prec] obtain ds where ds: "list_all is_digit ds" "ds \<noteq> []" "length ds \<le> prec"
      "dval 0 ds * 10 ^ (prec - length ds) = v mod 10 ^ prec" and l: "fmt_frac_loop prec v False [] = (True, ds, v div 10 ^ prec)"
      by auto
    with frac have f: "frac = CHR ''.'' # ds" by (simp add: fmt_frac_def)
    have d0: "0 \<le> dval 0 ds" using dval_nonneg [OF ds(1), of 0] by simp
    have dl: "dval 0 ds < 10 ^ length ds" by (rule dval_less [OF ds(1)])
    have "(10 :: int) ^ length ds \<le> 10 ^ 18" using ds(3) prec by (intro power_increasing) auto
    with dl have lf: "leading_fraction 0 1 False (ds @ u @ rest) = (dval 0 ds, 10 ^ length ds, u @ rest)"
      using leading_fraction_digits [OF ds(1), of 0 "u @ rest" 1] hu unt(2) by auto
    have "(10 :: int) ^ prec < 2 ^ 53" using power_increasing [OF prec, of "10 :: int"] by simp
    then have ff: "float_fraction (dval 0 ds) (10 ^ prec) (10 ^ length ds) = v mod 10 ^ prec"
      using float_fraction_exact [OF d0 dl, of "10 ^ (prec - length ds)" "10 ^ prec"] ds(3,4) by (simp flip: power_add)
    have "0 < dval 0 ds" using d0 ds(4) False by (cases "dval 0 ds = 0") auto
    then show ?thesis
      using li hd int unt u1 iu lf ff i(2) ds(2) unfolding parse_segment_def f by (simp add: Let_def)
  qed
qed

lemma parse_segments_printed:
  assumes "0 \<le> v" "fmt_frac v prec = (frac, v')" "prec \<le> 9"
    and "unit_map u = Some (10 ^ prec)" "u \<noteq> []" "list_all in_unit u" "rest = [] \<or> \<not> in_unit (hd rest)"
    and "0 \<le> i" "0 \<le> d" "d + (i * 10 ^ prec + v mod 10 ^ prec) \<le> 2 ^ 63"
  shows "parse_segments d (fmt_int i @ frac @ u @ rest) = parse_segments (d + (i * 10 ^ prec + v mod 10 ^ prec)) rest"
proof -
  let ?w = "i * 10 ^ prec + v mod 10 ^ prec"
  have w: "0 \<le> ?w" "?w \<le> 2 ^ 63" "(d + ?w) mod 2 ^ 64 = d + ?w"
    using assms(8,9,10) by auto
  have ne: "(fmt_int i @ frac @ u @ rest = []) = False" using assms(5) by simp
  show ?thesis
    unfolding parse_segments.simps [of d] parse_segment_printed [OF assms(1-8) w(2)] option.case prod.case ne if_False Let_def w(3)
    using assms(10) by simp
qed

text \<open>Minutes and hours are segments without a fraction.\<close>

lemma parse_segments_whole:
  assumes "unit_map [c] = Some unt" "in_unit c" "rest = [] \<or> \<not> in_unit (hd rest)" "0 < unt"
    and "0 \<le> i" "0 \<le> d" "d + i * unt \<le> 2 ^ 63"
  shows "parse_segments d (fmt_int i @ c # rest) = parse_segments (d + i * unt) rest"
proof -
  note int = fmt_int_digits [OF assms(5)]
  have u1: "takeWhile in_unit (c # rest) = [c]" "dropWhile in_unit (c # rest) = rest"
    using assms(2,3) by (cases rest; auto)+
  have w: "0 \<le> i * unt" "i * unt \<le> 2 ^ 63" "(d + i * unt) mod 2 ^ 64 = d + i * unt"
    using assms(4-7) by auto
  have "i * 1 \<le> i * unt" using assms(4,5) by (intro mult_left_mono) auto
  then have li: "leading_int 0 (fmt_int i @ c # rest) = Some (i, c # rest)"
    using leading_int_digits [of "fmt_int i" 0 "c # rest"] int assms(2) w(2) by (simp add: in_unit_def)
  have iu: "\<not> i > 2 ^ 63 div unt"
  proof -
    have "i = i * unt div unt" using assms(4) by simp
    also have "\<dots> \<le> 2 ^ 63 div unt" using w(2) assms(4) by (intro zdiv_mono1) auto
    finally show ?thesis by simp
  qed
  have hd: "\<not> in_unit (hd (fmt_int i @ c # rest))" using int by (cases "fmt_int i") (auto simp: in_unit_def)
  have seg: "parse_segment (fmt_int i @ c # rest) = Some (i * unt, rest)"
    using li hd int assms(1,2) u1 iu w(2) by (simp add: parse_segment_def Let_def in_unit_def)
  show ?thesis
    unfolding parse_segments.simps [of d "fmt_int i @ c # rest"] seg option.case prod.case
    using w assms(7) by (simp add: Let_def)
qed

lemma units: "unit_map ''ns'' = Some (10 ^ 0)" "unit_map micro_unit = Some (10 ^ 3)" "unit_map ''ms'' = Some (10 ^ 6)"
  "unit_map ''s'' = Some (10 ^ 9)" "unit_map ''m'' = Some 60000000000" "unit_map ''h'' = Some 3600000000000"
  by (simp_all add: unit_map_def micro_unit_def)

lemma in_units: "list_all in_unit ''ns''" "list_all in_unit micro_unit" "list_all in_unit ''ms''" "list_all in_unit ''s''"
  "in_unit (CHR ''m'')" "in_unit (CHR ''h'')"
  by code_simp+

lemma fmt_frac_rest: "fmt_frac v prec = (frac, v') \<Longrightarrow> v' = v div 10 ^ prec"
  using fmt_frac_loop_off [of v prec] by (auto simp: fmt_frac_def split: prod.splits if_splits)

lemma parse_end: "parse_segments d [] = Some d"
  by (simp add: parse_segments.simps)

lemma parse_zero: "parse_segments 0 ''0s'' = Some 0"
  by code_simp

lemma parse_small:
  assumes "0 \<le> v" "v < 10 ^ 9"
  shows "parse_segments 0 (small_string v) = Some v"
proof -
  have *: "parse_segments 0 (fmt_int v' @ frac @ u) = Some v"
    if "fmt_frac v prec = (frac, v')" "prec \<le> 9" "unit_map u = Some (10 ^ prec)" "u \<noteq> []" "list_all in_unit u" for prec frac v' u
  proof -
    have v': "v' = v div 10 ^ prec" by (rule fmt_frac_rest [OF that(1)])
    then have "v' * 10 ^ prec + v mod 10 ^ prec = v" "0 \<le> v'" using assms(1) by (simp_all add: pos_imp_zdiv_nonneg_iff div_mult_mod_eq)
    with parse_segments_printed [OF assms(1) that, of "[]" v' 0] assms show ?thesis by (simp add: parse_end)
  qed
  show ?thesis
    unfolding small_string_def
    using * [of 0, OF _ _ units(1) _ in_units(1)] * [of 3, OF _ _ units(2) _ in_units(2)] * [of 6, OF _ _ units(3) _ in_units(3)]
    by (auto simp: micro_unit_def parse_zero split: prod.splits)
qed

lemma fmt_int_first: "0 \<le> i \<Longrightarrow> fmt_int i @ r = [] \<or> \<not> in_unit (hd (fmt_int i @ r))"
  using fmt_int_digits [of i] by (cases "fmt_int i") (auto simp: in_unit_def)

lemma parse_seconds:
  assumes "10 ^ 9 \<le> v" "v \<le> 2 ^ 63"
  shows "parse_segments 0 (seconds_string v) = Some v"
proof -
  obtain frac sec where fr: "fmt_frac v 9 = (frac, sec)" by (cases "fmt_frac v 9")
  have sec: "sec = v div 10 ^ 9" by (rule fmt_frac_rest [OF fr])
  define m where "m = sec div 60"
  define h where "h = m div 60"
  have nn: "0 \<le> sec" "0 \<le> m" "0 \<le> h" using assms(1) by (simp_all add: sec m_def h_def pos_imp_zdiv_nonneg_iff)
  have sum: "sec = m * 60 + sec mod 60" "m = h * 60 + m mod 60" "v = sec * 10 ^ 9 + v mod 10 ^ 9"
    unfolding sec m_def h_def by simp_all
  have v: "v = h * 3600000000000 + (m mod 60) * 60000000000 + ((sec mod 60) * 10 ^ 9 + v mod 10 ^ 9)"
    using sum by simp
  have mods: "0 \<le> m mod 60" "0 \<le> sec mod 60" "0 \<le> v mod 10 ^ 9" by simp_all
  have s: "parse_segments d (fmt_int (sec mod 60) @ frac @ ''s'') = Some (d + ((sec mod 60) * 10 ^ 9 + v mod 10 ^ 9))"
    if "0 \<le> d" "d + ((sec mod 60) * 10 ^ 9 + v mod 10 ^ 9) \<le> 2 ^ 63" for d
    using parse_segments_printed [OF _ fr _ units(4) _ in_units(4), of "[]" "sec mod 60" d] assms that
    by (simp add: parse_end)
  show ?thesis
  proof (cases "m > 0")
    case False
    then have "m = 0" using nn by simp
    then have "v = (sec mod 60) * 10 ^ 9 + v mod 10 ^ 9" using sum v by (simp add: h_def)
    with s [of 0] assms(2) show ?thesis using False unfolding seconds_string_def fr by (simp add: Let_def m_def)
  next
    case m: True
    have minutes: "parse_segments d (fmt_int (m mod 60) @ ''m'' @ fmt_int (sec mod 60) @ frac @ ''s'') =
        Some (d + (m mod 60) * 60000000000 + ((sec mod 60) * 10 ^ 9 + v mod 10 ^ 9))"
      if "0 \<le> d" "d + (m mod 60) * 60000000000 + ((sec mod 60) * 10 ^ 9 + v mod 10 ^ 9) \<le> 2 ^ 63" for d
      using parse_segments_whole [OF units(5) in_units(5) fmt_int_first [OF mods(2)], of "m mod 60" d "frac @ ''s''"]
        s [of "d + (m mod 60) * 60000000000"] that mods by simp
    show ?thesis
    proof (cases "h > 0")
      case False
      then have "h = 0" using nn by simp
      then have e: "0 + (m mod 60) * 60000000000 + ((sec mod 60) * 10 ^ 9 + v mod 10 ^ 9) = v" using v by simp
      have "parse_segments 0 (fmt_int (m mod 60) @ ''m'' @ fmt_int (sec mod 60) @ frac @ ''s'') = Some v"
        using minutes [of 0, unfolded e] assms(2) by simp
      then show ?thesis
        using False m unfolding seconds_string_def fr by (simp add: Let_def m_def h_def)
    next
      case True
      have "parse_segments 0 (fmt_int h @ CHR ''h'' # fmt_int (m mod 60) @ ''m'' @ fmt_int (sec mod 60) @ frac @ ''s'') = Some v"
        using parse_segments_whole [OF units(6) in_units(6) fmt_int_first [OF mods(1)], of h 0
            "''m'' @ fmt_int (sec mod 60) @ frac @ ''s''"]
          minutes [of "h * 3600000000000"] nn mods v assms(2) by simp
      then show ?thesis
        using True m unfolding seconds_string_def fr by (simp add: Let_def m_def h_def)
    qed
  qed
qed

lemma printed_first:
  "0 \<le> v \<Longrightarrow> let s = (if v < 10 ^ 9 then small_string v else seconds_string v) in
     s \<noteq> [] \<and> is_digit (hd s) \<and> s \<noteq> ''0''"
proof -
  assume v: "0 \<le> v"
  have *: "fmt_int i @ r \<noteq> [] \<and> is_digit (hd (fmt_int i @ r)) \<and> fmt_int i @ r \<noteq> ''0''" if "0 \<le> i" "r \<noteq> []" for i r
    using fmt_int_digits [OF that(1)] that(2) by (cases "fmt_int i") (auto simp: append_eq_Cons_conv)
  have nn: "0 \<le> v'" if "fmt_frac v prec = (frac, v')" for prec frac v'
    using fmt_frac_rest [OF that] v by (simp add: pos_imp_zdiv_nonneg_iff)
  have small: "\<exists>i r. small_string v = fmt_int i @ r \<and> 0 \<le> i \<and> r \<noteq> []"
  proof (cases "v = 0")
    case True
    then show ?thesis by (intro exI [of _ 0] exI [of _ "''s''"]) (simp add: small_string_def fmt_int_def)
  next
    case False
    obtain f0 v0 f3 v3 f6 v6 where f: "fmt_frac v 0 = (f0, v0)" "fmt_frac v 3 = (f3, v3)" "fmt_frac v 6 = (f6, v6)"
      by (metis surj_pair)
    let ?p = "if v < 10 ^ 3 then (v0, f0 @ ''ns'') else if v < 10 ^ 6 then (v3, f3 @ micro_unit) else (v6, f6 @ ''ms'')"
    have "small_string v = fmt_int (fst ?p) @ snd ?p" using False f by (simp add: small_string_def)
    moreover have "0 \<le> fst ?p" "snd ?p \<noteq> []" using nn [OF f(1)] nn [OF f(2)] nn [OF f(3)] by (simp_all add: micro_unit_def)
    ultimately show ?thesis by blast
  qed
  have seconds: "\<exists>i r. seconds_string v = fmt_int i @ r \<and> 0 \<le> i \<and> r \<noteq> []"
  proof -
    obtain frac sec where f: "fmt_frac v 9 = (frac, sec)" by (cases "fmt_frac v 9")
    let ?s = "frac @ ''s''" and ?m = "sec div 60"
    let ?p = "if ?m > 0 then (if ?m div 60 > 0 then (?m div 60, ''h'' @ fmt_int (?m mod 60) @ ''m'' @ fmt_int (sec mod 60) @ ?s)
              else (?m mod 60, ''m'' @ fmt_int (sec mod 60) @ ?s)) else (sec mod 60, ?s)"
    have "seconds_string v = fmt_int (fst ?p) @ snd ?p" using f by (simp add: seconds_string_def Let_def)
    moreover have "0 \<le> fst ?p" "snd ?p \<noteq> []" by simp_all
    ultimately show ?thesis by blast
  qed
  show ?thesis
  proof (cases "v < 10 ^ 9")
    case True
    then obtain i r where "small_string v = fmt_int i @ r" "0 \<le> i" "r \<noteq> []" using small by blast
    with True * [of i r] show ?thesis by (simp add: Let_def)
  next
    case False
    then obtain i r where "seconds_string v = fmt_int i @ r" "0 \<le> i" "r \<noteq> []" using seconds by blast
    with False * [of i r] show ?thesis by (simp add: Let_def)
  qed
qed

theorem parse_duration_string:
  assumes "- (2 ^ 63) \<le> d" "d < 2 ^ 63"
  shows "parse_duration (duration_string d) = Some d"
proof -
  let ?s = "if \<bar>d\<bar> < 10 ^ 9 then small_string \<bar>d\<bar> else seconds_string \<bar>d\<bar>"
  have s: "?s \<noteq> []" "is_digit (hd ?s)" "?s \<noteq> ''0''" using printed_first [of "\<bar>d\<bar>"] by (simp_all add: Let_def)
  have p: "parse_segments 0 ?s = Some \<bar>d\<bar>"
    using parse_small [of "\<bar>d\<bar>"] parse_seconds [of "\<bar>d\<bar>"] assms by auto
  have hs: "hd ?s \<noteq> CHR ''-''" "hd ?s \<noteq> CHR ''+''" using s(2) by (auto simp: is_digit_def)
  show ?thesis
  proof (cases "d < 0")
    case True
    then have "duration_string d = CHR ''-'' # ?s" by (simp add: duration_string_def)
    with p s True show ?thesis by (simp add: parse_duration_def Let_def)
  next
    case False
    then have "duration_string d = ?s" by (simp add: duration_string_def)
    with p s hs False assms show ?thesis by (simp add: parse_duration_def Let_def)
  qed
qed

lemma parse_segments_range: "parse_segments d s = Some t \<Longrightarrow> 0 \<le> d \<Longrightarrow> d \<le> 2 ^ 63 \<Longrightarrow> 0 \<le> t \<and> t \<le> 2 ^ 63"
proof (induction d s rule: parse_segments.induct)
  case (1 d s)
  show ?case
  proof (cases "s = []")
    case True
    with 1 show ?thesis by (simp add: parse_segments.simps)
  next
    case False
    with "1.prems"(1) obtain w r where seg: "parse_segment s = Some (w, r)"
      by (auto simp: parse_segments.simps [of d s] split: option.splits)
    let ?d = "(d + w) mod 2 ^ 64"
    have "?d \<le> 2 ^ 63" "parse_segments ?d r = Some t"
      using "1.prems"(1) False seg by (simp_all add: parse_segments.simps [of d s] Let_def split: if_splits)
    moreover have "0 \<le> ?d" by simp
    ultimately show ?thesis using "1.IH" [OF False seg refl refl] by simp
  qed
qed

lemma parse_duration_range: "parse_duration s = Some t \<Longrightarrow> - (2 ^ 63) \<le> t \<and> t < 2 ^ 63"
  using parse_segments_range [of 0]
  by (auto simp: parse_duration_def Let_def split: if_splits option.splits) fastforce+

end
