(* ===== verification/Webhook_Startup.thy ===== *)
theory Webhook_Startup
  imports Webhook_Mutator Webhook_Props Startup_Props Go_Time
begin

text \<open>
  The webhook and the env-injector together: what the process that the webhook puts into a container
  finds in its environment.
\<close>

subsection \<open>The environment of a container\<close>

text \<open>
  Kubernetes sets the variables of \<open>envFrom\<close> (\<open>from\<close>) and then those of \<open>env\<close>, a later one replacing an
  earlier one of the same name. \<open>resolve\<close> is the value of an entry: of the object it refers to, or of the
  text in which \<open>$(NAME)\<close> is expanded.
\<close>

definition container_environ :: "str_map \<Rightarrow> (env_var \<Rightarrow> string) \<Rightarrow> container \<Rightarrow> environ" where
  "container_environ from resolve c =
     map (\<lambda>(n, v). env_entry n v) (assign_all (from @ map (\<lambda>e. (env_name e, resolve e)) (c_env c)) [])"

definition keeps_plain_text :: "(env_var \<Rightarrow> string) \<Rightarrow> bool" where
  "keeps_plain_text resolve \<longleftrightarrow> (\<forall>e. value_from e = None \<and> CHR ''$'' \<notin> set (env_value e) \<longrightarrow> resolve e = env_value e)"

definition proper_names :: "str_map \<Rightarrow> container \<Rightarrow> bool" where
  "proper_names from c \<longleftrightarrow> (\<forall>n \<in> fst ` set from \<union> env_name ` set (c_env c). CHR ''='' \<notin> set n)"

lemma getenv_container:
  assumes "proper_names from c"
  shows "getenv (container_environ from resolve c) n =
    (case map_of (rev (map (\<lambda>e. (env_name e, resolve e)) (c_env c))) n of
       Some v \<Rightarrow> v | None \<Rightarrow> (case map_of (rev from) n of Some v \<Rightarrow> v | None \<Rightarrow> ''''))"
proof -
  let ?kvs = "from @ map (\<lambda>e. (env_name e, resolve e)) (c_env c)"
  have "\<forall>m \<in> fst ` set (assign_all ?kvs []). CHR ''='' \<notin> set m"
    using assms by (simp add: keys_assign_all proper_names_def image_Un image_image)
  from env_lookup_entries [OF this] show ?thesis
    by (simp add: getenv_def container_environ_def map_of_assign_all map_add_def split: option.splits)
qed

lemma injector_env_names: "e \<in> set (injector_env ds Z V vs env) \<Longrightarrow> CHR ''='' \<notin> set (env_name e)"
  by (auto simp: injector_env_def restart_env_def plain_env_def split: if_splits)

lemma proper_names_inject:
  "proper_names from c \<Longrightarrow> proper_names from (inject_container ds Z V vs cfg c)"
proof -
  have "env_name ` set (c_env (inject_container ds Z V vs cfg c)) =
      env_name ` set (c_env c) \<union> env_name ` set (injector_env ds Z V vs (c_env c))"
    by (simp add: inject_container_def image_Un)
  then show "proper_names from c \<Longrightarrow> ?thesis"
    unfolding proper_names_def by (auto dest: injector_env_names)
qed

lemma mutate_containers_nth:
  "mutate_containers ds Z K get V ps cs r = (Inr m, cs', r') \<Longrightarrow> i < length cs \<Longrightarrow> selected K V (cs ! i) \<Longrightarrow>
   \<exists>cfg. cs' ! i = inject_container ds Z V (volumes ps) cfg (cs ! i)"
proof (induction cs arbitrary: r cs' r' m i)
  case (Cons c cs)
  from Cons.prems(1) obtain x r1 m' cs1 where
    h: "mutate_container ds Z K get V ps c r = (Inr x, r1)" and
    t: "mutate_containers ds Z K get V ps cs r1 = (Inr m', cs1, r')" and
    e: "cs' = (case x of None \<Rightarrow> c | Some c' \<Rightarrow> c') # cs1"
    by (auto split: prod.splits sum.splits)
  show ?case
    using Cons.prems(2,3) mutate_container_cases [OF h] Cons.IH [OF t] e by (cases i) auto
qed simp

lemma mutate_pod_nth:
  assumes "mutate_pod ds Z K get V p r = (None, p', r')" "\<not> is_pod_already_mutated p"
    and "i < length (containers (spec p))" "selected K V (containers (spec p) ! i)"
  obtains cfg where
    "containers (spec p') ! i = inject_container ds Z V (volumes (spec p)) cfg (containers (spec p) ! i)"
proof (rule mutate_pod_cases [OF assms(1,2)])
  fix mi ics r1 mc cs
  assume "mutate_containers ds Z K get V ((spec p)\<lparr>init_containers := ics\<rparr>) (containers (spec p)) r1 = (Inr mc, cs, r')"
    and "p' = p\<lparr>spec := (spec p)\<lparr>
       init_containers := get_init_containers (pod_run_as_user (spec p)) V mi mc @ ics, containers := cs,
       volumes := volumes (spec p) @ (if mi \<or> mc then get_volumes (volumes (spec p)) V else [])\<rparr>\<rparr>"
  with mutate_containers_nth [OF this(1) assms(3,4)] that show thesis by auto
qed

text \<open>The role is no part of what selects a container and of what restarts it.\<close>

lemma selected_role [simp]: "selected K (V\<lparr>vc_role := role\<rparr>) c = selected K V c"
  by (simp add: selected_def split: sum.split)

lemma restart_env_role [simp]: "restart_env (V\<lparr>vc_role := role\<rparr>) = restart_env V"
  by (simp add: restart_env_def)

lemma vault_secrets_mutator_PodD:
  assumes "vault_secrets_mutator pd ds T Z K get ns (PodObject p) r = (None, Some p', r')"
  obtains role where
    "mutate_pod ds Z K get ((parse_vault_config pd Z (pod_annotations p) ns)\<lparr>vc_role := role\<rparr>) p r = (None, p', r')"
    "\<not> vc_skip (parse_vault_config pd Z (pod_annotations p) ns)"
  using assms
  by (auto simp: vault_secrets_mutator_def Let_def object_annotations_def split: if_splits option.splits sum.splits prod.splits)

lemma parse_vault_config_restart:
  "\<not> vc_skip (parse_vault_config pd Z ann ns) \<Longrightarrow>
   vc_restart_on_secret_change (parse_vault_config pd Z ann ns) =
     restart_mode (map_of ann (annotation ''restart-on-secret-change'')) \<and>
   vc_secret_poll_interval (parse_vault_config pd Z ann ns) =
     annotation_or ann ''secret-poll-interval'' (setting Z ''secret_poll_interval'')"
  by (auto simp: parse_vault_config_def split: option.splits)

text \<open>The last entries of the injector are those of the restart mode.\<close>

lemma restart_entries:
  assumes "n \<in> env_name ` set (restart_env V)"
  shows "map_of (rev (map (\<lambda>e. (env_name e, resolve e)) (c_env (inject_container ds Z V vs cfg c)))) n =
         map_of (rev (map (\<lambda>e. (env_name e, resolve e)) (restart_env V))) n"
proof -
  obtain pre where pre: "c_env (inject_container ds Z V vs cfg c) = pre @ restart_env V"
    by (simp add: inject_container_def injector_env_def)
  obtain v where "map_of (rev (map (\<lambda>e. (env_name e, resolve e)) (restart_env V))) n = Some v"
    using assms by (metis (no_types, lifting) fst_conv image_iff list.set_map map_of_eq_None_iff not_None_eq set_rev)
  then show ?thesis by (simp add: pre map_add_def)
qed

lemma injected_restart_variables:
  fixes ds Z V vs cfg c "from" resolve
  assumes "proper_names from c" "keeps_plain_text resolve"
  defines "env \<equiv> container_environ from resolve (inject_container ds Z V vs cfg c)"
  shows "vc_restart_on_secret_change V = ''watch-for-lease'' \<Longrightarrow>
           getenv env ''VAULT_ENV_RESTART_ON_SECRET_CHANGE'' = ''watch-for-lease''"
    and "vc_restart_on_secret_change V = ''watch-for-data'' \<Longrightarrow>
           getenv env ''VAULT_ENV_RESTART_ON_SECRET_CHANGE'' = ''watch-for-data'' \<and>
           (CHR ''$'' \<notin> set (vc_secret_poll_interval V) \<longrightarrow>
              getenv env ''VAULT_ENV_SECRET_POLL_INTERVAL'' = vc_secret_poll_interval V)"
proof -
  have g: "getenv env n = (case map_of (rev (map (\<lambda>e. (env_name e, resolve e)) (restart_env V))) n of
      Some v \<Rightarrow> v | None \<Rightarrow> (case map_of (rev from) n of Some v \<Rightarrow> v | None \<Rightarrow> ''''))"
    if "n \<in> env_name ` set (restart_env V)" for n
    unfolding env_def getenv_container [OF proper_names_inject [OF assms(1)]] restart_entries [OF that] ..
  have r: "resolve (plain_env n v) = v" if "CHR ''$'' \<notin> set v" for n v
    using assms(2) that by (simp add: keeps_plain_text_def plain_env_def)
  have names [simp]: "env_name (plain_env n v) = n" for n v
    by (simp add: plain_env_def)
  show "getenv env ''VAULT_ENV_RESTART_ON_SECRET_CHANGE'' = ''watch-for-lease''"
    if "vc_restart_on_secret_change V = ''watch-for-lease''"
    using that by (subst g) (simp_all add: restart_env_def r)
  show "getenv env ''VAULT_ENV_RESTART_ON_SECRET_CHANGE'' = ''watch-for-data'' \<and>
      (CHR ''$'' \<notin> set (vc_secret_poll_interval V) \<longrightarrow>
         getenv env ''VAULT_ENV_SECRET_POLL_INTERVAL'' = vc_secret_poll_interval V)"
    if "vc_restart_on_secret_change V = ''watch-for-data''"
    using that by (intro conjI impI; subst g) (simp_all add: restart_env_def r)
qed

subsection \<open>The restart mode\<close>

text \<open>C12: the annotation \<open>restart-on-secret-change\<close> of a pod arrives in the injector of every container that
  the webhook changes: \<open>watch-for-lease\<close> starts it as a daemon, \<open>watch-for-data\<close> makes it poll, at a positive
  interval, which is the annotated one when that is positive.\<close>

theorem restart_annotation_reaches_injector:
  assumes run: "vault_secrets_mutator pd ds T Z K get ns (PodObject p) r = (None, Some p', r')"
    and fresh: "\<not> is_pod_already_mutated p"
    and i: "i < length (containers (spec p))"
    and sel: "selected K (parse_vault_config pd Z (pod_annotations p) ns) (containers (spec p) ! i)"
    and names: "proper_names from (containers (spec p) ! i)" and plain: "keeps_plain_text resolve"
    and m: "m = read_modes S P (container_environ from resolve (containers (spec p') ! i))"
    and mode: "mode = map_of (pod_annotations p) (annotation ''restart-on-secret-change'')"
    and int: "interval = annotation_or (pod_annotations p) ''secret-poll-interval'' (setting Z ''secret_poll_interval'')"
  shows "(mode = Some ''watch-for-lease'' \<longrightarrow> daemon_run m \<and> \<not> watch_data m) \<and>
         (mode = Some ''watch-for-data'' \<longrightarrow> watch_data m \<and> 0 < poll_interval m \<and>
            (CHR ''$'' \<notin> set interval \<and> 0 < to_duration P interval \<longrightarrow> poll_interval m = to_duration P interval))"
proof -
  let ?V = "parse_vault_config pd Z (pod_annotations p) ns"
  obtain role where pod: "mutate_pod ds Z K get (?V\<lparr>vc_role := role\<rparr>) p r = (None, p', r')" and "\<not> vc_skip ?V"
    using vault_secrets_mutator_PodD [OF run] by metis
  then have V: "vc_restart_on_secret_change ?V = restart_mode mode" "vc_secret_poll_interval ?V = interval"
    using parse_vault_config_restart mode int by auto
  obtain cfg where c: "containers (spec p') ! i =
      inject_container ds Z (?V\<lparr>vc_role := role\<rparr>) (volumes (spec p)) cfg (containers (spec p) ! i)"
    using mutate_pod_nth [OF pod fresh i] sel by auto
  note vars = injected_restart_variables [OF names plain, where ds = ds and Z = Z and V = "?V\<lparr>vc_role := role\<rparr>"
      and vs = "volumes (spec p)" and cfg = cfg, folded c]
  show ?thesis
    using vars V by (auto simp: m read_modes_def Let_def restart_mode_def)
qed

definition annotated_pod :: pod where
  "annotated_pod = example_pod\<lparr>pod_annotations :=
     [(annotation ''role'', ''r''), (annotation ''restart-on-secret-change'', ''watch-for-data''),
      (annotation ''secret-poll-interval'', ''30s'')]\<rparr>"

definition annotated_run :: "webhook_error option \<times> pod option \<times> unit registry" where
  "annotated_run = vault_secrets_mutator (\<lambda>_. None) (\<lambda>_. ''10s'')
     \<lparr>template_error = (\<lambda>_. None), template_execute = (\<lambda>t _. Inr t)\<rparr> example_settings example_cluster
     (get_image_config example_remote example_settings) ''ns'' (PodObject annotated_pod) (new_registry ())"

definition thirty_os :: "nat os" where
  "thirty_os = plain_os\<lparr>to_duration := (\<lambda>s. if s = ''30s'' then 30000000000 else 0)\<rparr>"

theorem restart_annotation_reaches_injector_witness:
  "poll_interval (read_modes (login_sys login_answer) thirty_os
     (container_environ [] env_value (containers (spec (the (fst (snd annotated_run)))) ! 0))) = 30000000000"
proof -
  have ok: "fst annotated_run = None" "fst (snd annotated_run) \<noteq> None" by code_simp+
  then obtain p' r' where run: "annotated_run = (None, Some p', r')"
    by (metis not_None_eq prod.collapse)
  let ?V = "parse_vault_config (\<lambda>_. None) example_settings (pod_annotations annotated_pod) ''ns''"
  have fresh: "\<not> is_pod_already_mutated annotated_pod" and i: "0 < length (containers (spec annotated_pod))"
    and sel: "selected example_cluster ?V (containers (spec annotated_pod) ! 0)"
    and names: "proper_names [] (containers (spec annotated_pod) ! 0)"
    by code_simp+
  have plain: "keeps_plain_text env_value" by (simp add: keeps_plain_text_def)
  have "map_of (pod_annotations annotated_pod) (annotation ''restart-on-secret-change'') = Some ''watch-for-data''"
    "annotation_or (pod_annotations annotated_pod) ''secret-poll-interval'' (setting example_settings ''secret_poll_interval'') = ''30s''"
    "CHR ''$'' \<notin> set ''30s''" "to_duration thirty_os ''30s'' = 30000000000"
    by code_simp+
  then show ?thesis
    using restart_annotation_reaches_injector [OF run [unfolded annotated_run_def] fresh i sel names plain refl refl refl,
        of "login_sys login_answer" thirty_os]
    by (simp add: run)
qed

subsection \<open>The variables of the webhook and the table of the injector\<close>

lemma injector_env_in_table:
  "env_name ` set (injector_env ds Z V vs env) \<subseteq> insert ''VAULT_CACERT_BYTES'' (fst ` set sanitize_envmap)"
proof -
  have "fst ` set sanitize_envmap = set (map fst sanitize_envmap)" by simp
  then show ?thesis
    by (auto simp: injector_env_def restart_env_def plain_env_def sanitize_envmap_def split: if_splits)
qed

text \<open>Every variable the webhook adds to a container is in the table of variables that the injector
  keeps from the application, except \<open>VAULT_CACERT_BYTES\<close>, which it adds exactly when certificate bytes
  are configured and no TLS secret is.\<close>

theorem webhook_variables_are_in_table:
  "env_name ` set (injector_env ds Z V vs env) \<subseteq> insert ''VAULT_CACERT_BYTES'' (fst ` set sanitize_envmap) \<and>
   (''VAULT_CACERT_BYTES'' \<in> env_name ` set (injector_env ds Z V vs env) \<longleftrightarrow>
      vc_tls_secret V = '''' \<and> setting Z ''cacert_bytes'' \<noteq> '''') \<and>
   map_of sanitize_envmap ''VAULT_CACERT_BYTES'' = None"
proof (intro conjI)
  show "env_name ` set (injector_env ds Z V vs env) \<subseteq> insert ''VAULT_CACERT_BYTES'' (fst ` set sanitize_envmap)"
    by (rule injector_env_in_table)
  show "''VAULT_CACERT_BYTES'' \<in> env_name ` set (injector_env ds Z V vs env) \<longleftrightarrow>
      vc_tls_secret V = '''' \<and> setting Z ''cacert_bytes'' \<noteq> ''''"
    by (auto simp: injector_env_def restart_env_def plain_env_def split: if_splits)
  show "map_of sanitize_envmap ''VAULT_CACERT_BYTES'' = None" by code_simp
qed

subsection \<open>The timeout of the client\<close>

text \<open>C30: the timeout of an annotation, or of the settings, is what the injector's Vault client reads from its
  environment: the webhook prints the duration so that parsing gives it back, to the nanosecond.\<close>

theorem client_timeout_roundtrip:
  assumes V: "V = parse_vault_config parse_duration Z ann ns" and "\<not> vc_skip V"
  shows "\<exists>s. map_of (map (\<lambda>e. (env_name e, env_value e)) (injector_env duration_string Z V vs env)) ''VAULT_CLIENT_TIMEOUT'' = Some s \<and>
    parse_duration s = Some (case parse_duration (annotation_or ann ''client-timeout'' (setting Z ''client_timeout'')) of
      Some t \<Rightarrow> t | None \<Rightarrow> 0)"
proof -
  let ?t = "case parse_duration (annotation_or ann ''client-timeout'' (setting Z ''client_timeout'')) of Some t \<Rightarrow> t | None \<Rightarrow> 0"
  have "vc_client_timeout V = ?t"
    using assms by (auto simp: parse_vault_config_def split: option.splits)
  moreover have "parse_duration (duration_string ?t) = Some ?t"
    using parse_duration_range by (intro parse_duration_string) (auto split: option.splits)
  ultimately show ?thesis by (simp add: injector_env_def plain_env_def)
qed

theorem client_timeout_roundtrip_witness:
  "\<exists>s. map_of (map (\<lambda>e. (env_name e, env_value e)) (injector_env duration_string example_settings
      (parse_vault_config parse_duration example_settings
        [(annotation ''role'', ''r''), (annotation ''client-timeout'', ''1.5m'')] ''ns'') [] [])) ''VAULT_CLIENT_TIMEOUT'' = Some s \<and>
    parse_duration s = Some 90000000000"
proof -
  let ?ann = "[(annotation ''role'', ''r''), (annotation ''client-timeout'', ''1.5m'')]"
  have "\<not> vc_skip (parse_vault_config parse_duration example_settings ?ann ''ns'')"
    by (simp add: parse_vault_config_skip)
  moreover have "parse_duration (annotation_or ?ann ''client-timeout'' (setting example_settings ''client_timeout'')) = Some 90000000000"
    by code_simp
  ultimately show ?thesis using client_timeout_roundtrip [OF refl] by fastforce
qed

subsection \<open>The login\<close>

text \<open>A variable of the injector that has one value replaces the container's own.\<close>

lemma injected_variable:
  fixes V :: vault_config
  assumes "proper_names from c" "plain_env n v \<in> set (injector_env ds Z V vs (c_env c))"
    and "\<forall>e \<in> set (injector_env ds Z V vs (c_env c)). env_name e = n \<longrightarrow> e = plain_env n v"
  shows "getenv (container_environ from resolve (inject_container ds Z V vs cfg c)) n = resolve (plain_env n v)"
proof -
  let ?f = "\<lambda>e. (env_name e, resolve e)"
  let ?inj = "injector_env ds Z V vs (c_env c)"
  have "(n, resolve (plain_env n v)) \<in> set (rev (map ?f ?inj))"
    using assms(2) by (force simp: plain_env_def)
  then obtain x where x: "map_of (rev (map ?f ?inj)) n = Some x" by (metis weak_map_of_SomeI)
  then have "x = resolve (plain_env n v)" using assms(3) by (auto dest!: map_of_SomeD)
  with x have "map_of (rev (map ?f (c_env (inject_container ds Z V vs cfg c)))) n = Some (resolve (plain_env n v))"
    by (simp add: inject_container_def map_add_def)
  then show ?thesis using getenv_container [OF proper_names_inject [OF assms(1)]] by simp
qed

lemma injector_env_login:
  "plain_env ''VAULT_ROLE'' (vc_role V) \<in> set (injector_env ds Z V vs env)"
  "plain_env ''VAULT_PATH'' (vc_path V) \<in> set (injector_env ds Z V vs env)"
  "vc_service_account_token_path V \<noteq> '''' \<Longrightarrow>
     plain_env ''VAULT_JWT_FILE'' (vc_service_account_token_path V) \<in> set (injector_env ds Z V vs env)"
  by (simp_all add: injector_env_def)

lemma if_ball: "(\<forall>e \<in> set (if b then xs else ys). P e) \<longleftrightarrow> (if b then \<forall>e \<in> set xs. P e else \<forall>e \<in> set ys. P e)"
  by simp

lemma injector_env_login_only:
  "\<forall>e \<in> set (injector_env ds Z V vs env). env_name e = ''VAULT_ROLE'' \<longrightarrow> e = plain_env ''VAULT_ROLE'' (vc_role V)"
  "\<forall>e \<in> set (injector_env ds Z V vs env). env_name e = ''VAULT_PATH'' \<longrightarrow> e = plain_env ''VAULT_PATH'' (vc_path V)"
  "\<forall>e \<in> set (injector_env ds Z V vs env). env_name e = ''VAULT_JWT_FILE'' \<longrightarrow>
     e = plain_env ''VAULT_JWT_FILE'' (vc_service_account_token_path V)"
  by (simp_all add: injector_env_def restart_env_def plain_env_def ball_Un if_ball split del: if_split cong: if_cong) auto

lemma vault_secrets_mutator_role:
  assumes "vault_secrets_mutator pd ds T Z K get ns (PodObject p) r = (None, Some p', r')"
    and V: "V = parse_vault_config pd Z (pod_annotations p) ns"
  shows "\<exists>role. template_execute T (vc_role V) (role_fields V (pod_name p)) = Inr role \<and>
    mutate_pod ds Z K get (V\<lparr>vc_role := role\<rparr>) p r = (None, p', r')"
  using assms
  by (auto simp: vault_secrets_mutator_def Let_def object_annotations_def object_name_def
      split: if_splits option.splits sum.splits prod.splits)

text \<open>C13: the injector in a changed container logs in as the role that the template of the annotation renders
  to, at the configured authentication path and with the annotated token file, whatever variables of these
  names the container has itself (values with a dollar sign, which Kubernetes may expand, excepted).\<close>

theorem login_follows_annotations:
  assumes run: "vault_secrets_mutator pd ds T Z K get ns (PodObject p) r = (None, Some p', r')"
    and V: "V = parse_vault_config pd Z (pod_annotations p) ns" and fresh: "\<not> is_pod_already_mutated p"
    and i: "i < length (containers (spec p))" and sel: "selected K V (containers (spec p) ! i)"
    and names: "proper_names from (containers (spec p) ! i)" and plain: "keeps_plain_text resolve"
    and role: "template_execute T (vc_role V) (role_fields V (pod_name p)) = Inr role"
    and token: "vc_service_account_token_path V \<noteq> ''''"
    and dollar: "CHR ''$'' \<notin> set role \<union> set (vc_path V) \<union> set (vc_service_account_token_path V)"
  shows "kubernetes_login S (container_environ from resolve (containers (spec p') ! i)) w =
    kubernetes_login S [env_entry ''VAULT_ROLE'' role, env_entry ''VAULT_PATH'' (vc_path V),
      env_entry ''VAULT_JWT_FILE'' (vc_service_account_token_path V)] w"
proof -
  let ?V = "V\<lparr>vc_role := role\<rparr>" and ?c = "containers (spec p) ! i"
  have pod: "mutate_pod ds Z K get ?V p r = (None, p', r')"
    using vault_secrets_mutator_role [OF run V] role by auto
  obtain cfg where c: "containers (spec p') ! i = inject_container ds Z ?V (volumes (spec p)) cfg ?c"
    using mutate_pod_nth [OF pod fresh i] sel by auto
  let ?env = "container_environ from resolve (containers (spec p') ! i)"
  have r: "resolve (plain_env n v) = v" if "CHR ''$'' \<notin> set v" for n v
    using plain that by (simp add: keeps_plain_text_def plain_env_def)
  have "getenv ?env ''VAULT_ROLE'' = role" "getenv ?env ''VAULT_PATH'' = vc_path V"
    "getenv ?env ''VAULT_JWT_FILE'' = vc_service_account_token_path V"
    using injected_variable [where resolve = resolve and cfg = cfg and ds = ds and Z = Z and V = ?V and vs = "volumes (spec p)",
        OF names injector_env_login(1) injector_env_login_only(1)]
      injected_variable [where resolve = resolve and cfg = cfg and ds = ds and Z = Z and V = ?V and vs = "volumes (spec p)",
        OF names injector_env_login(2) injector_env_login_only(2)]
      injected_variable [where resolve = resolve and cfg = cfg and ds = ds and Z = Z and V = ?V and vs = "volumes (spec p)",
        OF names injector_env_login(3) injector_env_login_only(3)] token dollar
    by (simp_all add: c r)
  moreover have "getenv [env_entry ''VAULT_ROLE'' a, env_entry ''VAULT_PATH'' b, env_entry ''VAULT_JWT_FILE'' t] n =
      (if n = ''VAULT_ROLE'' then a else if n = ''VAULT_PATH'' then b else if n = ''VAULT_JWT_FILE'' then t else '''')" for a b t n
    by (simp add: getenv_def)
  ultimately show ?thesis by (simp add: kubernetes_login_def)
qed

definition login_pod :: pod where
  "login_pod = example_pod\<lparr>pod_annotations :=
       [(annotation ''role'', ''r''), (annotation ''auth-path'', ''k8s''), (annotation ''service-account-token-path'', ''/t'')],
     spec := spec example_pod\<lparr>containers := [example_container\<lparr>c_env :=
       [plain_env ''VAULT_ROLE'' ''admin'', plain_env ''DB'' ''secrets-store:db#pass'']\<rparr>]\<rparr>\<rparr>"

definition login_run :: "webhook_error option \<times> pod option \<times> unit registry" where
  "login_run = vault_secrets_mutator (\<lambda>_. None) (\<lambda>_. ''10s'')
     \<lparr>template_error = (\<lambda>_. None), template_execute = (\<lambda>t _. Inr t)\<rparr> example_settings example_cluster
     (get_image_config example_remote example_settings) ''ns'' (PodObject login_pod) (new_registry ())"

theorem login_follows_annotations_witness:
  "kubernetes_login (login_sys login_answer) (container_environ [] env_value (containers (spec (the (fst (snd login_run)))) ! 0)) 0 =
    kubernetes_login (login_sys login_answer) [''VAULT_ROLE=r'', ''VAULT_PATH=k8s'', ''VAULT_JWT_FILE=/t''] 0"
proof -
  have "fst login_run = None" "fst (snd login_run) \<noteq> None" by code_simp+
  then obtain p' r' where run: "login_run = (None, Some p', r')"
    by (metis not_None_eq prod.collapse)
  let ?V = "parse_vault_config (\<lambda>_. None) example_settings (pod_annotations login_pod) ''ns''"
  have pre: "\<not> is_pod_already_mutated login_pod" "0 < length (containers (spec login_pod))"
    "selected example_cluster ?V (containers (spec login_pod) ! 0)" "proper_names [] (containers (spec login_pod) ! 0)"
    by code_simp+
  have plain: "keeps_plain_text env_value" by (simp add: keeps_plain_text_def)
  have "vc_role ?V = ''r''" "vc_path ?V = ''k8s''" "vc_service_account_token_path ?V = ''/t''" by code_simp+
  then show ?thesis
    using login_follows_annotations [OF run [unfolded login_run_def] refl pre plain, of "''r''" "login_sys login_answer" 0]
    by (simp add: run env_entry_def)
qed

end
