(* ===== verification/Launch.thy ===== *)
theory Launch
  imports Startup_Props
begin

text \<open>
  The whole of \<open>main\<close> of \<^verbatim>\<open>images/env-injector/main.go\<close> up to the running application: the command line, the
  preparation, the delay, and the start of the application, supervised or in place of the injector.
\<close>

datatype start_event =
    Delay int
  | Supervise string "string list" environ
  | Replace string "string list" environ

datatype main_result = MainExit int | Supervising launch | Replaced

text \<open>\<open>cmd.Start\<close> and \<open>syscall.Exec\<close> with a binary, its arguments from the zeroth on, and an environment: did it succeed?\<close>

record 'w exec_sys =
  start_command :: "string \<Rightarrow> string list \<Rightarrow> environ \<Rightarrow> 'w \<Rightarrow> bool \<times> 'w"
  exec_image :: "string \<Rightarrow> string list \<Rightarrow> environ \<Rightarrow> 'w \<Rightarrow> bool \<times> 'w"

definition delay_events :: "launch \<Rightarrow> start_event list" where
  "delay_events l = (if 0 < launch_delay l then [Delay (launch_delay l)] else [])"

definition start_application ::
  "'w exec_sys \<Rightarrow> string \<Rightarrow> launch \<Rightarrow> 'w \<Rightarrow> main_result \<times> start_event list \<times> 'w" where
  "start_application X cmd l w =
     (let bin = launch_binary l
      in if launch_daemon l \<or> plan_active (launch_plan l)
         then (case start_command X bin (bin # launch_args l) (child_env l) w of
                 (ok, w1) \<Rightarrow> (if ok then Supervising l else MainExit 1,
                   delay_events l @ [Supervise bin (bin # launch_args l) (child_env l)], w1))
         else (case exec_image X bin (cmd # launch_args l) (child_env l) w of
                 (ok, w1) \<Rightarrow> (if ok then Replaced else MainExit 1,
                   delay_events l @ [Replace bin (cmd # launch_args l) (child_env l)], w1)))"

text \<open>\<open>main\<close> with the arguments after the program's name; an entry without \<open>=\<close> in the environment makes it panic.\<close>

definition env_injector_main ::
  "'w exec_sys \<Rightarrow> libs \<Rightarrow> 'w vault \<Rightarrow> 'w sys \<Rightarrow> 'w os \<Rightarrow> string list \<Rightarrow> environ \<Rightarrow> 'w \<Rightarrow>
   main_result \<times> start_event list \<times> 'w" where
  "env_injector_main X L V S P args env w =
     (case parse_command args of
        ExitNow n \<Rightarrow> (MainExit n, [], w)
      | SelfCopy \<Rightarrow> (case self_copy P w of (n, w1) \<Rightarrow> (MainExit n, [], w1))
      | RunEntrypoint cmd rest \<Rightarrow>
          (case main_prepare L V S P env cmd rest w of
             (Inl e, _, w1) \<Rightarrow> (MainExit (if e = EnvironPanic then 2 else 1), [], w1)
           | (Inr l, _, w1) \<Rightarrow> start_application X cmd l w1))"

fun started :: "start_event \<Rightarrow> (string \<times> string list \<times> environ) option" where
  "started (Delay d) = None"
| "started (Supervise bin argv env) = Some (bin, argv, env)"
| "started (Replace bin argv env) = Some (bin, argv, env)"

text \<open>What a variable of the application may be, for the environment of the injector.\<close>

definition may_pass :: "environ \<Rightarrow> string \<Rightarrow> bool" where
  "may_pass env n \<longleftrightarrow>
     map_of sanitize_envmap n = None \<or>
     n \<in> trim_space ` set (passthrough_names env (getenv env ''VAULT_TOKEN'' = vault_login)) \<or>
     getenv env ''VAULT_TOKEN'' = vault_login \<and> map_of sanitize_envmap n = Some True"

lemma main_prepare_args:
  "main_prepare L V S P env cmd rest w = (Inr l, env', w') \<Longrightarrow>
     launch_args l = rest \<and> fst (look_path P cmd w) = Some (launch_binary l) \<and>
     launch_delay l = delay_exec (read_modes S P env)"
  by (cases "look_path P cmd w"; cases "fst (look_path P cmd w)")
     (auto simp: main_prepare_def Let_def split: prod.splits sum.splits option.splits)

lemma start_application_events:
  assumes "start_application X cmd l w = (r, evs, w')"
  shows "\<exists>ev av. evs = delay_events l @ [ev] \<and> started ev = Some (launch_binary l, av # launch_args l, child_env l)"
  using assms by (auto simp: start_application_def Let_def split: if_splits prod.splits)

text \<open>An application that is started is the prepared one.\<close>

lemma env_injector_mainE:
  assumes run: "env_injector_main X L V S P args env w = (res, evs, w')"
  obtains n where "evs = []" "res = MainExit n"
  | cmd rest l env' w1 ev av where "args = cmd # rest" "main_prepare L V S P env cmd rest w = (Inr l, env', w1)"
      "evs = delay_events l @ [ev]" "started ev = Some (launch_binary l, av # rest, child_env l)"
      "fst (look_path P cmd w) = Some (launch_binary l)"
proof (cases "parse_command args")
  case (RunEntrypoint cmd rest)
  then have args: "args = cmd # rest" by (auto simp: parse_command_def split: list.splits if_splits)
  obtain r env' w1 where prep: "main_prepare L V S P env cmd rest w = (r, env', w1)"
    by (cases "main_prepare L V S P env cmd rest w")
  show thesis
  proof (cases r)
    case (Inl e)
    with run prep RunEntrypoint that(1) show ?thesis by (auto simp: env_injector_main_def)
  next
    case (Inr l)
    with prep have l: "main_prepare L V S P env cmd rest w = (Inr l, env', w1)" by simp
    with run RunEntrypoint have "start_application X cmd l w1 = (res, evs, w')"
      by (simp add: env_injector_main_def)
    from start_application_events [OF this] main_prepare_args [OF l] that(2) [OF args l] show ?thesis by auto
  qed
qed (use run that(1) in \<open>auto simp: env_injector_main_def split: prod.splits\<close>)

lemma delay_starts_nothing: "filter (\<lambda>ev. started ev \<noteq> None) (delay_events l) = []"
  by (simp add: delay_events_def del: not_None_eq)


definition example_exec :: "nat exec_sys" where
  "example_exec = \<lparr>start_command = (\<lambda>_ _ _ w. (True, w)), exec_image = (\<lambda>_ _ _ w. (True, w))\<rparr>"


end
