(* ===== verification/Child_Env.thy ===== *)
theory Child_Env
  imports Launch
begin

text \<open>
  When the env-injector starts the application, and what the application then finds in its environment, in
  terms of the pure meaning of each variable (\<open>spec_value\<close>): the start of \<^verbatim>\<open>main.go\<close> as a refinement of
  resolving every variable by itself.
\<close>

subsection \<open>Environments as tables\<close>

text \<open>An environment as a process gets it: every entry has a name of its own.\<close>

definition environ_of :: "str_map \<Rightarrow> environ" where
  "environ_of kvs = map (\<lambda>(n, v). env_entry n v) kvs"

definition proper_table :: "str_map \<Rightarrow> bool" where
  "proper_table kvs \<longleftrightarrow> distinct_keys kvs \<and> (\<forall>n \<in> fst ` set kvs. CHR ''='' \<notin> set n)"

lemma environ_of_simps [simp]:
  "environ_of [] = []" "environ_of ((n, v) # kvs) = env_entry n v # environ_of kvs"
  by (simp_all add: environ_of_def)

lemma proper_table_Cons [simp]:
  "proper_table ((n, v) # kvs) \<longleftrightarrow> n \<notin> fst ` set kvs \<and> CHR ''='' \<notin> set n \<and> proper_table kvs"
  by (auto simp: proper_table_def)

lemma env_lookup_environ_of: "proper_table kvs \<Longrightarrow> env_lookup (environ_of kvs) n = map_of kvs n"
  by (simp add: environ_of_def env_lookup_entries proper_table_def)

lemma getenv_environ_of:
  "proper_table kvs \<Longrightarrow> getenv (environ_of kvs) n = (case map_of kvs n of None \<Rightarrow> '''' | Some v \<Rightarrow> v)"
  by (simp add: getenv_def env_lookup_environ_of)

lemma unsetenv_environ_of: "proper_table kvs \<Longrightarrow> unsetenv n (environ_of kvs) = environ_of (AList.delete n kvs)"
  by (induction kvs) (auto simp: delete_absent)

lemma setenv_environ_of: "proper_table kvs \<Longrightarrow> setenv n v (environ_of kvs) = environ_of (AList.update n v kvs)"
  by (induction kvs) auto

lemma proper_delete: "proper_table kvs \<Longrightarrow> proper_table (AList.delete n kvs)"
  using distinct_delete [of kvs n] by (auto simp: proper_table_def AList.delete_eq)

lemma proper_update: "proper_table kvs \<Longrightarrow> CHR ''='' \<notin> set n \<Longrightarrow> proper_table (AList.update n v kvs)"
  by (auto simp: proper_table_def distinct_update dom_update)

lemma proper_table_dom:
  "proper_table kvs \<Longrightarrow> distinct_keys m \<Longrightarrow> (\<And>k. map_of m k \<noteq> None \<Longrightarrow> map_of kvs k \<noteq> None) \<Longrightarrow> proper_table m"
  unfolding proper_table_def map_of_eq_None_iff by blast

lemma proper_table_mset:
  assumes "mset m' = mset m" "proper_table m"
  shows "proper_table m'" "map_of m' n = map_of m n"
  using assms distinct_keys_mset [OF assms(1)] mset_eq_setD [OF assms(1)] map_of_mset [OF assms(1)]
  by (simp_all add: proper_table_def)

lemma parse_environ_of: "proper_table kvs \<Longrightarrow> parse_environ (environ_of kvs) m = Some (assign_all kvs m)"
  by (induction kvs arbitrary: m) (auto simp: split_n_2_entry)

subsection \<open>The environment that is resolved\<close>

lemma new_vault_client_unset:
  "new_vault_client S env w = (Inr c, env1, w') \<Longrightarrow>
   env1 = env \<or> getenv env ''VAULT_TOKEN'' = vault_login \<and> env1 = unsetenv ''VAULT_TOKEN'' env"
  by (auto simp: new_vault_client_def login_client_def Let_def split: prod.splits sum.splits option.splits if_splits)

text \<open>Removing the login marker and setting it again keeps the table.\<close>

lemma environ_after_login:
  assumes "proper_table kvs" "new_vault_client S (environ_of kvs) w = (Inr c, env1, w')"
    and env2: "env2 = (if getenv (environ_of kvs) ''VAULT_TOKEN'' = vault_login then setenv ''VAULT_TOKEN'' vault_login env1 else env1)"
  shows "\<exists>m. parse_environ env2 [] = Some m \<and> distinct_keys m \<and> map_of m = map_of kvs \<and>
    getenv env2 ''VAULT_ENV_FROM_PATH'' = getenv (environ_of kvs) ''VAULT_ENV_FROM_PATH''"
proof -
  have "\<exists>kvs2. env2 = environ_of kvs2 \<and> proper_table kvs2 \<and> map_of kvs2 = map_of kvs"
  proof (cases "getenv (environ_of kvs) ''VAULT_TOKEN'' = vault_login")
    case True
    then have tok: "map_of kvs ''VAULT_TOKEN'' = Some vault_login"
      using assms(1) by (auto simp: getenv_environ_of vault_login_def split: option.splits)
    have eq: "CHR ''='' \<notin> set ''VAULT_TOKEN''" by simp
    have "env2 = environ_of (AList.update ''VAULT_TOKEN'' vault_login kvs) \<or>
        env2 = environ_of (AList.update ''VAULT_TOKEN'' vault_login (AList.delete ''VAULT_TOKEN'' kvs))"
      using new_vault_client_unset [OF assms(2)] True assms(1)
      by (auto simp: env2 unsetenv_environ_of setenv_environ_of proper_delete)
    moreover have "map_of (AList.update ''VAULT_TOKEN'' vault_login kvs) = map_of kvs"
      "map_of (AList.update ''VAULT_TOKEN'' vault_login (AList.delete ''VAULT_TOKEN'' kvs)) = map_of kvs"
      using tok by (simp_all add: update_conv' delete_conv' fun_upd_idem)
    ultimately show ?thesis
      using proper_update [OF assms(1) eq] proper_update [OF proper_delete [OF assms(1)] eq] by metis
  next
    case False
    with new_vault_client_unset [OF assms(2)] assms(1) show ?thesis by (auto simp: env2)
  qed
  then obtain kvs2 where k: "env2 = environ_of kvs2" "proper_table kvs2" "map_of kvs2 = map_of kvs" by blast
  have "map_of (assign_all kvs2 []) = map_of kvs"
    using k by (simp add: map_of_assign_all map_of_rev_distinct proper_table_def)
  with k assms(1) show ?thesis
    by (auto simp: parse_environ_of distinct_assign_all getenv_environ_of)
qed

text \<open>With a binary and a client, the start succeeds exactly if the injection does.\<close>

lemma main_prepare_ok_iff:
  assumes look: "look_path P cmd w = (Some bin, w1)" and client: "new_vault_client S env w1 = (Inr c, env1, w2)"
    and env2: "env2 = (if getenv env ''VAULT_TOKEN'' = vault_login then setenv ''VAULT_TOKEN'' vault_login env1 else env1)"
    and vars: "parse_environ env2 [] = Some m"
  shows "(\<exists>l. fst (main_prepare L V S P env cmd args w) = Inr l) \<longleftrightarrow>
    (\<exists>secrets. fst (inject_all L (start_vault V S P env) (start_config S P env) (visit P 0 m)
       (getenv env2 ''VAULT_ENV_FROM_PATH'') (new_secret_injector w2)) = Inr secrets)"
proof -
  obtain r st where i: "inject_all L (start_vault V S P env) (start_config S P env) (visit P 0 m)
      (getenv env2 ''VAULT_ENV_FROM_PATH'') (new_secret_injector w2) = (r, st)" by fastforce
  then show ?thesis
    using assms unfolding main_prepare_def Let_def
    by (cases r) (simp_all add: start_vault_def start_config_def split: prod.split)
qed

subsection \<open>Properties\<close>

lemma main_prepare_needs:
  "fst (main_prepare L V S P env cmd args w) = Inr l \<Longrightarrow>
     fst (look_path P cmd w) \<noteq> None \<and> (\<exists>c. fst (new_vault_client S env (snd (look_path P cmd w))) = Inr c)"
  by (cases "look_path P cmd w"; cases "fst (look_path P cmd w)")
     (auto simp: main_prepare_def Let_def split: prod.splits sum.splits)

lemma map_of_filter_key: "Q n \<Longrightarrow> map_of (filter (\<lambda>(k, v). Q k) kvs) n = map_of kvs n"
  by (induction kvs) auto

lemma list_all_map_of:
  "distinct_keys m \<Longrightarrow> list_all (\<lambda>nv. Q (fst nv) (snd nv)) m \<longleftrightarrow> (\<forall>n v. map_of m n = Some v \<longrightarrow> Q n v)"
  by (auto simp: list_all_iff map_of_eq_Some_iff)

text \<open>What is resolved is the environment the process got, in some order.\<close>

lemma injected_environ:
  assumes env: "env = environ_of kvs" "proper_table kvs"
    and no_updates: "\<forall>n v. env_lookup env n = Some v \<longrightarrow> \<not> performs_update v"
    and order: "\<And>n m. mset (visit P n m) = mset m"
    and client: "new_vault_client S env w1 = (Inr c, env1, w2)"
    and env2: "env2 = (if getenv env ''VAULT_TOKEN'' = vault_login then setenv ''VAULT_TOKEN'' vault_login env1 else env1)"
  shows "\<exists>m. parse_environ env2 [] = Some m \<and> getenv env2 ''VAULT_ENV_FROM_PATH'' = getenv env ''VAULT_ENV_FROM_PATH'' \<and>
    distinct_keys (visit P 0 m) \<and>
    map_of (visit P 0 m) = env_lookup env \<and> list_all (\<lambda>nv. \<not> performs_update (snd nv)) (visit P 0 m)"
proof -
  from environ_after_login [OF env(2) client [unfolded env(1)] env2 [unfolded env(1)]] env(1)
  obtain m where m: "parse_environ env2 [] = Some m" "distinct_keys m" "map_of m = map_of kvs"
    and paths2: "getenv env2 ''VAULT_ENV_FROM_PATH'' = getenv env ''VAULT_ENV_FROM_PATH''" by auto
  have dm: "distinct_keys (visit P 0 m)" using distinct_keys_mset [OF order] m(2) by blast
  have mo: "map_of (visit P 0 m) = env_lookup env"
    using map_of_mset [OF order dm] m(3) env by (simp add: env_lookup_environ_of fun_eq_iff)
  have "list_all (\<lambda>nv. \<not> performs_update (snd nv)) (visit P 0 m)"
    using no_updates list_all_map_of [OF dm, of "\<lambda>n v. \<not> performs_update v"] mo by simp
  with m(1) paths2 dm mo show ?thesis by blast
qed

text \<open>With a binary and a client, the variables and the paths decide.\<close>

lemma main_prepare_resolves_iff:
  assumes env: "env = environ_of kvs" "proper_table kvs"
    and vault: "stable_vault (start_vault V S P env) rd rn tok"
    and no_updates: "\<forall>n v. env_lookup env n = Some v \<longrightarrow> \<not> performs_update v"
    and order: "\<And>n m. mset (visit P n m) = mset m"
    and look: "look_path P cmd w = (Some bin, w1)" and client: "new_vault_client S env w1 = (Inr c, env1, w2)"
  shows "(\<exists>l. fst (main_prepare L V S P env cmd args w) = Inr l) \<longleftrightarrow>
    (\<forall>n v. env_lookup env n = Some v \<longrightarrow> (\<exists>x. spec_of L (start_config S P env) rd rn tok n v = Inr x)) \<and>
    fst (path_values L (start_config S P env) rd rn (getenv env ''VAULT_ENV_FROM_PATH'')) = None"
proof -
  define env2 where "env2 = (if getenv env ''VAULT_TOKEN'' = vault_login then setenv ''VAULT_TOKEN'' vault_login env1 else env1)"
  from injected_environ [OF env no_updates order client env2_def] obtain m where
    m: "parse_environ env2 [] = Some m" "getenv env2 ''VAULT_ENV_FROM_PATH'' = getenv env ''VAULT_ENV_FROM_PATH''"
      "distinct_keys (visit P 0 m)" "map_of (visit P 0 m) = env_lookup env"
      "list_all (\<lambda>nv. \<not> performs_update (snd nv)) (visit P 0 m)" by blast
  show ?thesis
    unfolding main_prepare_ok_iff [OF look client env2_def m(1)] m(2)
      inject_all_ok_iff [OF vault coherent_new m(5)]
      list_all_map_of [OF m(3), of "\<lambda>n v. \<exists>x. spec_of L (start_config S P env) rd rn tok n v = Inr x"] m(4) ..
qed


text \<open>The value of a variable for the application: what the last path with that key delivers, or else
  what the variable itself refers to.\<close>

definition resolved_value ::
  "libs \<Rightarrow> config \<Rightarrow> (string \<Rightarrow> string \<Rightarrow> api_error + secret option) \<Rightarrow>
   (string \<Rightarrow> secret \<Rightarrow> api_error option) option \<Rightarrow> string \<Rightarrow> string \<Rightarrow> (string \<Rightarrow> string option) \<Rightarrow> string \<Rightarrow> string option" where
  "resolved_value L C rd rn tok paths vars n =
     (case map_of (rev (snd (path_values L C rd rn paths))) n of
        Some v \<Rightarrow> Some v
      | None \<Rightarrow> Option.bind (vars n) (\<lambda>v. case spec_of L C rd rn tok n v of Inl e \<Rightarrow> None | Inr x \<Rightarrow> x))"

text \<open>The application finds every variable of the container under its name with the value it refers to,
  and a variable whose secret is missing only if missing secrets are to be ignored, in which case it does
  not exist; a secret of \<open>VAULT_ENV_FROM_PATH\<close> replaces the variable of its name; whatever the order in which
  Go visits the maps.\<close>

lemma child_env_is_resolved:
  assumes env: "env = environ_of kvs" "proper_table kvs"
    and vault: "stable_vault (start_vault V S P env) rd rn tok"
    and no_updates: "\<forall>n v. env_lookup env n = Some v \<longrightarrow> \<not> performs_update v"
    and order: "\<And>n m. mset (visit P n m) = mset m"
    and keys: "\<forall>k \<in> fst ` set (snd (path_values L (start_config S P env) rd rn (getenv env ''VAULT_ENV_FROM_PATH''))).
      CHR ''='' \<notin> set k"
    and run: "main_prepare L V S P env cmd args w = (Inr l, env', w')" and n: "map_of sanitize_envmap n = None"
  shows "env_lookup (child_env l) n =
    resolved_value L (start_config S P env) rd rn tok (getenv env ''VAULT_ENV_FROM_PATH'') (env_lookup env) n"
proof (rule main_prepare_ReadyD [OF run])
  fix c env1 w1 w2 environ secrets st C V1
  assume client: "new_vault_client S env w1 = (Inr c, env1, w2)"
    and env': "env' = (if getenv env ''VAULT_TOKEN'' = vault_login then setenv ''VAULT_TOKEN'' vault_login env1 else env1)"
    and pe: "parse_environ env' [] = Some environ" and C: "C = launch_config l"
    and V1: "V1 = V\<lparr>renewer := (if launch_daemon l then Some (daemon_renew S) else None)\<rparr>"
    and inj: "inject_all L V1 C (visit P 0 environ) (launch_paths l) (new_secret_injector w2) = (Inr secrets, st)"
    and lp: "launch_paths l = getenv env' ''VAULT_ENV_FROM_PATH''"
    and child: "child_env l = env_list (foldl (sanitized_append
       (drop_passthrough (passthrough_names env1 (getenv env ''VAULT_TOKEN'' = vault_login)) sanitize_envmap))
       \<lparr>env_list = [], env_login = (getenv env ''VAULT_TOKEN'' = vault_login)\<rparr> (visit P 3 secrets))"
  let ?C = "start_config S P env" and ?V = "start_vault V S P env" and ?m = "visit P 0 environ"
  let ?paths = "getenv env ''VAULT_ENV_FROM_PATH''"
  have CV: "C = ?C" "V1 = ?V" using main_prepare_config [OF run] by (simp_all add: C V1 start_vault_def)
  from injected_environ [OF env no_updates order client env'] pe
  have lp0: "launch_paths l = ?paths" and dm: "distinct_keys ?m" and mo: "map_of ?m = env_lookup env"
    and nu: "list_all (\<lambda>nv. \<not> performs_update (snd nv)) ?m"
    by (auto simp: lp)
  have look: "map_of secrets k = resolved_value L ?C rd rn tok ?paths (env_lookup env) k" for k
    using inject_all_lookup [OF vault coherent_new nu dm inj [unfolded CV lp0], of k]
    by (simp add: resolved_value_def mo cong: option.case_cong)
  have "CHR ''='' \<notin> set k" if "k \<in> fst ` set secrets" for k
  proof (cases "map_of (rev (snd (path_values L ?C rd rn ?paths))) k")
    case None
    with that look [of k] have "env_lookup env k \<noteq> None"
      by (cases "env_lookup env k") (simp_all add: resolved_value_def map_of_eq_None_iff)
    with env show ?thesis by (auto simp: env_lookup_environ_of proper_table_def map_of_eq_None_iff)
  next
    case (Some v)
    with keys show ?thesis by (force dest!: map_of_SomeD)
  qed
  then have "proper_table secrets" using inject_all_distinct [OF inj] by (simp add: proper_table_def)
  note p3 = proper_table_mset [OF order this, of 3]
  let ?ok = "\<lambda>(k, v). env_allowed (drop_passthrough (passthrough_names env1 (getenv env ''VAULT_TOKEN'' = vault_login)) sanitize_envmap)
      (getenv env ''VAULT_TOKEN'' = vault_login) k"
  have "child_env l = environ_of (filter ?ok (visit P 3 secrets))"
    by (simp add: child sanitized_append_all environ_of_def)
  moreover have "proper_table (filter ?ok (visit P 3 secrets))"
    using p3(1) by (auto simp: proper_table_def distinct_map_filter)
  ultimately have "env_lookup (child_env l) n = map_of (filter ?ok (visit P 3 secrets)) n"
    by (simp add: env_lookup_environ_of)
  also have "\<dots> = map_of (visit P 3 secrets) n"
    by (rule map_of_filter_key) (simp add: env_allowed_def map_of_drop_passthrough n)
  finally show ?thesis by (simp add: p3(2) look)
qed

subsection \<open>Witnesses\<close>

abbreviation kv_read :: "string \<Rightarrow> string \<Rightarrow> api_error + secret option" where
  "kv_read \<equiv> \<lambda>p v. Inr (map_of [(''p'', kv_secret [(''k'', VStr ''v'')])] p)"

lemma kv_start_stable:
  "\<not> daemon_run (read_modes S P env) \<Longrightarrow> stable_vault (start_vault kv_store S P env) kv_read None ''tok''"
  by (simp add: stable_vault_def start_vault_def kv_store_def kv_vault_def)

text \<open>Every variable of this environment has a value, but there is no secret at one of its paths.\<close>

definition bad_table :: str_map where
  "bad_table = [(''A'', ''secrets-store:p#k''), (''VAULT_ENV_FROM_PATH'', ''p,q'')]"

lemma env_lookup_all:
  "proper_table kvs \<Longrightarrow> (\<forall>n v. env_lookup (environ_of kvs) n = Some v \<longrightarrow> Q n v) \<longleftrightarrow> list_all (\<lambda>nv. Q (fst nv) (snd nv)) kvs"
  by (simp add: env_lookup_environ_of list_all_map_of proper_table_def)


end
