(* ===== verification/End_To_End.thy ===== *)
theory End_To_End
  imports Webhook_Startup Child_Env
begin

text \<open>
  The webhook and the env-injector together, from the pod that is admitted to the application that runs in
  its container.
\<close>

lemma container_environ_table:
  "container_environ from resolve c = environ_of (assign_all (from @ map (\<lambda>e. (env_name e, resolve e)) (c_env c)) [])"
  by (simp add: container_environ_def environ_of_def)

lemma container_table_proper:
  "proper_names from c \<Longrightarrow> proper_table (assign_all (from @ map (\<lambda>e. (env_name e, resolve e)) (c_env c)) [])"
  by (simp add: proper_table_def distinct_assign_all keys_assign_all proper_names_def image_Un image_image del: assign_all_append)

lemma env_lookup_container:
  "proper_names from c \<Longrightarrow> env_lookup (container_environ from resolve c) n =
     map_of (rev (from @ map (\<lambda>e. (env_name e, resolve e)) (c_env c))) n"
  by (simp add: container_environ_table env_lookup_environ_of container_table_proper map_of_assign_all del: assign_all_append)

text \<open>The injector's own variables are all the webhook changes in the environment of a container.\<close>

lemma env_lookup_injected:
  assumes "proper_names from c" "map_of sanitize_envmap n = None" "n \<noteq> ''VAULT_CACERT_BYTES''"
  shows "env_lookup (container_environ from resolve (inject_container ds Z V vs cfg c)) n =
    env_lookup (container_environ from resolve c) n"
proof -
  have "n \<notin> fst ` set sanitize_envmap" using assms(2) by (simp only: map_of_eq_None_iff not_False_eq_True)
  then have "n \<notin> env_name ` set (injector_env ds Z V vs (c_env c))"
    using injector_env_in_table [of ds Z V vs "c_env c"] assms(3) by blast
  then have "map_of (rev (map (\<lambda>e. (env_name e, resolve e)) (injector_env ds Z V vs (c_env c)))) n = None"
    by (simp add: map_of_eq_None_iff image_image)
  then show ?thesis
    using env_lookup_container [OF proper_names_inject [OF assms(1)]] env_lookup_container [OF assms(1)]
    by (simp add: inject_container_def map_add_def)
qed

text \<open>C3: the application of an admitted pod runs as if there were no webhook, but with its secrets. In a
  container that the webhook changed, the env-injector starts the command line the container would have run
  itself, and every variable that is not one of the injector's has there its resolved value: what the last path of
  \<open>VAULT_ENV_FROM_PATH\<close> that has a secret with that key delivers, or else the value that the container's own
  environment refers to (none if its secret is missing and such secrets are to be ignored); whatever the image
  cache holds and in whatever order Go visits the maps. The conditions: the registry's answers are
  fixed and the image cache is truthful; Vault answers the same request in the same way throughout the start; no variable
  of the container is or contains an update reference (\<open>>>secrets-store:\<close>); and no variable and no key of a
  secret at one of the paths has a \<open>=\<close> in its name.\<close>

theorem application_gets_its_secrets:
  assumes hook: "vault_secrets_mutator pd ds T Z K (get_image_config R Z) ns (PodObject p) r = (None, Some p', r')"
    and images: "stable_images R truth" "cache_truthful truth r"
    and c: "i < length (containers (spec p))" "c = containers (spec p) ! i" "c' = containers (spec p') ! i"
    and fresh: "\<not> is_pod_already_mutated p" and sel: "selected K (parse_vault_config pd Z (pod_annotations p) ns) c"
    and names: "proper_names from c" and env: "env = container_environ from resolve c'"
    and vault: "stable_vault (start_vault V S P env) rd rn tok"
    and no_updates: "\<forall>n v. env_lookup env n = Some v \<longrightarrow> \<not> performs_update v"
    and order: "\<And>n m. mset (visit P n m) = mset m" and C: "C = start_config S P env"
    and paths: "paths = getenv env ''VAULT_ENV_FROM_PATH''"
    and keys: "\<forall>k \<in> fst ` set (snd (path_values L C rd rn paths)). CHR ''='' \<notin> set k"
    and run: "env_injector_main X L V S P (tl (effective_argv truth c')) env w = (res, evs, w')"
    and started: "ev \<in> set evs" "started ev = Some (bin, argv, cenv)"
  shows "hd (effective_argv truth c') = injector_path \<and>
    tl argv = tl (effective_argv truth c) \<and> fst (look_path P (hd (effective_argv truth c)) w) = Some bin \<and>
    (\<forall>n. map_of sanitize_envmap n = None \<and> n \<noteq> ''VAULT_CACERT_BYTES'' \<longrightarrow>
       env_lookup cenv n =
         (case map_of (rev (snd (path_values L C rd rn paths))) n of
            Some v \<Rightarrow> Some v
          | None \<Rightarrow> Option.bind (env_lookup (container_environ from resolve c) n)
              (\<lambda>v. case spec_of L C rd rn tok n v of Inl e \<Rightarrow> None | Inr x \<Rightarrow> x)))"
proof -
  let ?V = "parse_vault_config pd Z (pod_annotations p) ns"
  obtain role where pod: "mutate_pod ds Z K (get_image_config R Z) (?V\<lparr>vc_role := role\<rparr>) p r = (None, p', r')"
    using vault_secrets_mutator_PodD [OF hook] by metis
  have "p' = expected_pod ds Z K truth (?V\<lparr>vc_role := role\<rparr>) p"
    using registry.mutate_pod_expected [OF _ pod, of truth] images by simp
  then have c': "c' = expected_container ds Z K truth (?V\<lparr>vc_role := role\<rparr>) (volumes (spec p)) c"
    using c fresh by (simp add: expected_pod_def Let_def)
  then have argv: "effective_argv truth c' = injector_path # effective_argv truth c"
    using sel by (simp add: expected_container_argv)
  obtain cfg where inj: "c' = inject_container ds Z (?V\<lparr>vc_role := role\<rparr>) (volumes (spec p)) cfg c"
    using c' sel by (simp add: expected_container_def)
  let ?kvs = "assign_all (from @ map (\<lambda>e. (env_name e, resolve e)) (c_env c')) []"
  have kvs: "env = environ_of ?kvs" "proper_table ?kvs"
    using container_table_proper [OF proper_names_inject [OF names]] by (simp_all only: env container_environ_table inj)
  from run show ?thesis
  proof (rule env_injector_mainE)
    fix cmd rest l env' w1 ev1 av
    assume args: "tl (effective_argv truth c') = cmd # rest" and l: "main_prepare L V S P env cmd rest w = (Inr l, env', w1)"
      and evs: "evs = delay_events l @ [ev1]" and ev1: "started ev1 = Some (launch_binary l, av # rest, child_env l)"
      and bin: "fst (look_path P cmd w) = Some (launch_binary l)"
    have "ev \<in> set (filter (\<lambda>ev. started ev \<noteq> None) evs)" using started by simp
    then have "ev = ev1" by (simp add: evs ev1 delay_starts_nothing del: not_None_eq)
    then have "bin = launch_binary l" "argv = av # rest" "cenv = child_env l" using started(2) ev1 by simp_all
    moreover have "env_lookup env n = env_lookup (container_environ from resolve c) n"
      if "map_of sanitize_envmap n = None" "n \<noteq> ''VAULT_CACERT_BYTES''" for n
      unfolding env inj by (rule env_lookup_injected [OF names that])
    ultimately show ?thesis
      using child_env_is_resolved [OF kvs vault no_updates order keys [unfolded C paths] l] args argv bin
      by (simp add: resolved_value_def C paths cong: option.case_cong)
  qed (use started in simp)
qed

definition web_pod :: pod where
  "web_pod = example_pod\<lparr>pod_annotations := [(annotation ''role'', ''r''), (annotation ''env-from-path'', ''p'')],
     spec := spec example_pod\<lparr>containers := [example_container\<lparr>c_env := [plain_env ''DB'' ''pw=${secrets-store:p#k}'']\<rparr>]\<rparr>\<rparr>"

definition web_run :: "webhook_error option \<times> pod option \<times> unit registry" where
  "web_run = vault_secrets_mutator (\<lambda>_. None) (\<lambda>_. ''10s'')
     \<lparr>template_error = (\<lambda>_. None), template_execute = (\<lambda>t _. Inr t)\<rparr> example_settings example_cluster
     (get_image_config example_remote example_settings) ''ns'' (PodObject web_pod) (new_registry ())"

text \<open>The environment of its container after the admission.\<close>

definition web_table :: str_map where
  "web_table = [(''DB'', ''pw=${secrets-store:p#k}''), (''VAULT_ADDR'', ''''), (''VAULT_SKIP_VERIFY'', ''false''),
     (''VAULT_AUTH_METHOD'', ''jwt''), (''VAULT_PATH'', ''''), (''VAULT_ROLE'', ''r''), (''VAULT_IGNORE_MISSING_SECRETS'', ''''),
     (''VAULT_ENV_PASSTHROUGH'', ''''), (''VAULT_JSON_LOG'', ''''), (''VAULT_CLIENT_TIMEOUT'', ''10s''), (''VAULT_ENV_FROM_PATH'', ''p'')]"

lemma web_run_pod:
  obtains p' r' where "web_run = (None, Some p', r')" "container_environ [] env_value (containers (spec p') ! 0) = environ_of web_table"
    "c_command (containers (spec p') ! 0) = [injector_path]" "c_args (containers (spec p') ! 0) = [''/run'', ''serve'']"
proof -
  have "map_option (\<lambda>p'. case containers (spec p') ! 0 of c \<Rightarrow>
      (container_environ [] env_value c, c_command c, c_args c)) (fst (snd web_run)) =
    Some (environ_of web_table, [injector_path], [''/run'', ''serve''])" "fst web_run = None"
    by code_simp+
  then show thesis using that [of "the (fst (snd web_run))" "snd (snd web_run)"] by (auto simp: prod_eq_iff split: option.splits)
qed

lemma web_db: "spec_of kv_libs kv_config kv_read None ''tok'' ''DB'' ''pw=${secrets-store:p#k}'' = Inr (Some ''pw=v'')"
  by code_simp

lemma web_paths: "path_values kv_libs kv_config kv_read None ''p'' = (None, [(''k'', ''v'')])"
  by code_simp

lemma web_values_resolve:
  "list_all (\<lambda>nv. \<exists>x. spec_of kv_libs kv_config kv_read None ''tok'' (fst nv) (snd nv) = Inr x) web_table"
proof -
  have "spec_of kv_libs kv_config kv_read None ''tok'' n v = Inr (Some v)" if "\<not> has_inline_vault_delimiters v"
    "\<not> has_prefix v ''secrets-store:''" for n v
    using that by (simp add: spec_value.simps spec_plain_def)
  moreover have "list_all (\<lambda>nv. \<not> has_inline_vault_delimiters (snd nv) \<and> \<not> has_prefix (snd nv) ''secrets-store:'') (tl web_table)"
    by code_simp
  ultimately show ?thesis using web_db by (auto simp: list_all_iff web_table_def simp del: map_of.simps)
qed

lemma web_proper: "proper_table web_table"
  by (simp add: proper_table_def web_table_def)

lemma web_plain: "list_all (\<lambda>nv. \<not> performs_update (snd nv)) web_table"
  by code_simp

lemma web_env: "getenv (environ_of web_table) n = (case map_of web_table n of None \<Rightarrow> '''' | Some v \<Rightarrow> v)"
  by (rule getenv_environ_of [OF web_proper])

lemma web_facts:
  "getenv (environ_of web_table) ''VAULT_ENV_FROM_PATH'' = ''p''"
  "\<not> daemon_run (read_modes (login_sys login_answer) plain_os (environ_of web_table))"
  "start_config (login_sys login_answer) plain_os (environ_of web_table) = kv_config"
  "fst (new_vault_client (login_sys login_answer) (environ_of web_table) 0) = Inr (init_client\<lparr>used_login := True\<rparr>)"
  by (simp_all add: web_env read_modes_def start_config_def kv_config_def new_vault_client_def login_client_def
      login_sys_def Let_def kubernetes_login_def login_answer_def renew_login_token_def init_client_def vault_login_def)
    (simp_all add: web_table_def)

lemma web_no_updates: "\<forall>n v. env_lookup (environ_of web_table) n = Some v \<longrightarrow> \<not> performs_update v"
  using web_plain by (simp only: env_lookup_all [OF web_proper, of "\<lambda>n v. \<not> performs_update v"])

lemma plain_order: "mset (visit plain_os n m) = mset m"
  by (simp add: plain_os_def)

lemma web_start:
  obtains l env' w' where "main_prepare kv_libs kv_store (login_sys login_answer) plain_os (environ_of web_table) ''/run'' [''serve''] 0 =
    (Inr l, env', w')"
proof -
  have look: "look_path plain_os ''/run'' 0 = (Some ''/bin//run'', 0)" by (simp add: plain_os_def)
  obtain env1 w2 where client: "new_vault_client (login_sys login_answer) (environ_of web_table) 0 =
      (Inr (init_client\<lparr>used_login := True\<rparr>), env1, w2)"
    using web_facts(4) by (metis prod.collapse)
  have "\<forall>n v. env_lookup (environ_of web_table) n = Some v \<longrightarrow> (\<exists>x. spec_of kv_libs kv_config kv_read None ''tok'' n v = Inr x)"
    using web_values_resolve
    by (simp only: env_lookup_all [OF web_proper, of "\<lambda>n v. \<exists>x. spec_of kv_libs kv_config kv_read None ''tok'' n v = Inr x"])
  moreover have "fst (path_values kv_libs kv_config kv_read None ''p'') = None" by (simp only: web_paths fst_conv)
  ultimately obtain l where "fst (main_prepare kv_libs kv_store (login_sys login_answer) plain_os (environ_of web_table) ''/run'' [''serve''] 0) = Inr l"
    using main_prepare_resolves_iff [OF refl web_proper kv_start_stable [OF web_facts(2)] web_no_updates plain_order
        look client, of kv_libs "[''serve'']"]
    unfolding web_facts(1,3) by blast
  then show thesis using that by (metis prod.collapse)
qed

theorem application_gets_its_secrets_witness:
  "\<exists>ev res w'. env_injector_main example_exec kv_libs kv_store (login_sys login_answer) plain_os [''/run'', ''serve'']
      (environ_of web_table) 0 = (res, [ev], w') \<and>
    (\<exists>argv cenv. started ev = Some (''/bin//run'', argv, cenv) \<and> tl argv = [''serve''] \<and> env_lookup cenv ''DB'' = Some ''pw=v'' \<and>
       env_lookup cenv ''k'' = Some ''v'')"
proof -
  obtain p' r' where run: "web_run = (None, Some p', r')"
    and env: "container_environ [] env_value (containers (spec p') ! 0) = environ_of web_table"
    and cmd: "c_command (containers (spec p') ! 0) = [injector_path]" "c_args (containers (spec p') ! 0) = [''/run'', ''serve'']"
    by (rule web_run_pod)
  obtain l env' w1 where l: "main_prepare kv_libs kv_store (login_sys login_answer) plain_os (environ_of web_table) ''/run'' [''serve''] 0 =
    (Inr l, env', w1)" by (rule web_start)
  obtain res evs w' where m: "env_injector_main example_exec kv_libs kv_store (login_sys login_answer) plain_os [''/run'', ''serve'']
      (environ_of web_table) 0 = (res, evs, w')" by (rule prod_cases3)
  have d: "delay_events l = []" using main_prepare_args [OF l] by (simp add: delay_events_def read_modes_def Let_def plain_os_def)
  have "start_application example_exec ''/run'' l w1 = (res, evs, w')"
    using m by (simp add: env_injector_main_def parse_command_def l)
  from start_application_events [OF this] d obtain ev av where ev: "evs = [ev]"
    "started ev = Some (launch_binary l, av # launch_args l, child_env l)" by auto
  let ?V = "parse_vault_config (\<lambda>_. None) example_settings (pod_annotations web_pod) ''ns''"
  have pre: "0 < length (containers (spec web_pod))" "\<not> is_pod_already_mutated web_pod"
    "selected example_cluster ?V (containers (spec web_pod) ! 0)" "proper_names [] (containers (spec web_pod) ! 0)"
    "env_lookup (container_environ [] env_value (containers (spec web_pod) ! 0)) ''DB'' = Some ''pw=${secrets-store:p#k}''"
    "map_of sanitize_envmap ''DB'' = None \<and> ''DB'' \<noteq> ''VAULT_CACERT_BYTES''"
    "map_of sanitize_envmap ''k'' = None \<and> ''k'' \<noteq> ''VAULT_CACERT_BYTES''"
    "effective_argv (\<lambda>_. example_image) (containers (spec web_pod) ! 0) = [''/run'', ''serve'']"
    by code_simp+
  have argv: "tl (effective_argv (\<lambda>_. example_image) (containers (spec p') ! 0)) = [''/run'', ''serve'']"
    by (simp add: effective_argv_def cmd)
  have keys: "\<forall>k \<in> fst ` set (snd (path_values kv_libs kv_config kv_read None ''p'')). CHR ''='' \<notin> set k"
    unfolding web_paths by simp
  have "ev \<in> set evs" by (simp add: ev(1))
  note all = application_gets_its_secrets [where L = kv_libs, OF run [unfolded web_run_def] example_stable example_cache
      pre(1) refl refl pre(2,3,4) env [symmetric] kv_start_stable [OF web_facts(2)] web_no_updates plain_order
      web_facts(3) [symmetric] web_facts(1) [symmetric] keys m [folded argv] this ev(2)]
  note vars = all [THEN conjunct2, THEN conjunct2, THEN conjunct2, rule_format]
  have db: "map_of (rev (snd (None :: inj_error option, [(''k'', ''v'')]))) ''DB'' = None" by simp
  have "env_lookup (child_env l) ''DB'' = Some ''pw=v''"
    using vars [OF pre(6)] unfolding web_paths pre(5) by (simp only: db option.case Option.bind.simps web_db sum.case)
  moreover have "env_lookup (child_env l) ''k'' = Some ''v''"
    using vars [OF pre(7)] unfolding web_paths by simp
  moreover have "fst (look_path plain_os ''/run'' 0) = Some (launch_binary l)" "launch_args l = [''serve'']"
    using all by (simp_all add: pre(8))
  ultimately show ?thesis using m ev by (auto simp: plain_os_def)
qed

end
