(* ===== verification/Env_Logger.thy ===== *)
theory Env_Logger
  imports Webhook_Startup
begin

text \<open>
  \<^verbatim>\<open>images/env-injector/logger.go\<close>: the logger of the env-injector, and what the annotations of a pod make of
  it. The library's loggers are values: a level of a type \<open>'l\<close>, a format and an output; a message is the
  list of outputs that are given it.
\<close>

subsection \<open>The logger\<close>

datatype severity = LogDebug | LogInfo | LogWarn | LogError

datatype log_output = ToStdout | ToStderr | ToServer string

text \<open>\<open>level_of\<close> is \<open>log.LogLevelFromStr\<close>, \<open>cast_bool\<close> is \<open>cast.ToBool\<close>, \<open>dial_udp\<close> is \<open>net.Dial\<close>: did it succeed?\<close>

record ('l, 'w) log_sys =
  level_of :: "string \<Rightarrow> 'l"
  cast_bool :: "string \<Rightarrow> bool"
  dial_udp :: "string \<Rightarrow> 'w \<Rightarrow> bool \<times> 'w"

record 'l logger =
  lg_level :: 'l
  lg_json :: bool
  lg_output :: log_output
  lg_app :: string

record 'l routing_logger =
  rl_stdout :: "'l logger"
  rl_stderr :: "'l logger"
  rl_syslog :: "'l logger option"

definition log_to :: "'l routing_logger \<Rightarrow> severity \<Rightarrow> 'l logger list" where
  "log_to l sv =
     (let server = (case rl_syslog l of None \<Rightarrow> [] | Some s \<Rightarrow> [s])
      in case sv of
           LogDebug \<Rightarrow> [rl_stdout l]
         | LogInfo \<Rightarrow> rl_stdout l # server
         | LogWarn \<Rightarrow> rl_stderr l # server
         | LogError \<Rightarrow> rl_stderr l # server)"

definition new_logger :: "('l, 'w) log_sys \<Rightarrow> environ \<Rightarrow> 'w \<Rightarrow> 'l routing_logger \<times> 'w" where
  "new_logger S env w =
     (let logger = (\<lambda>out. \<lparr>lg_level = level_of S (getenv env ''VAULT_LOG_LEVEL''),
                            lg_json = cast_bool S (getenv env ''VAULT_JSON_LOG''), lg_output = out, lg_app = ''env-injector''\<rparr>);
          r = \<lparr>rl_stdout = logger ToStdout, rl_stderr = logger ToStderr, rl_syslog = None\<rparr>;
          addr = getenv env ''VAULT_ENV_LOG_SERVER''
      in if addr \<noteq> '''' then
           (case dial_udp S addr w of
              (True, w1) \<Rightarrow> (r\<lparr>rl_syslog := Some (logger (ToServer addr))\<rparr>, w1)
            | (False, w1) \<Rightarrow> (r, w1))
         else (r, w))"

text \<open>Every message has one stream of the container, by its severity; debug messages never leave it, and a
  log server that does not answer is left out.\<close>

lemma log_to_outputs:
  assumes "new_logger S env w = (l, w')"
  shows "\<exists>servers. map lg_output (log_to l sv) =
      (if sv \<in> {LogWarn, LogError} then ToStderr else ToStdout) # map ToServer servers \<and>
    (servers = [] \<or> servers = [getenv env ''VAULT_ENV_LOG_SERVER'']) \<and>
    (servers \<noteq> [] \<longleftrightarrow> sv \<noteq> LogDebug \<and> getenv env ''VAULT_ENV_LOG_SERVER'' \<noteq> '''' \<and>
       fst (dial_udp S (getenv env ''VAULT_ENV_LOG_SERVER'') w))"
  using assms
  by (cases sv) (auto simp: new_logger_def log_to_def Let_def split: if_splits prod.splits bool.splits
      intro: exI [of _ "[]"] exI [of _ "[getenv env ''VAULT_ENV_LOG_SERVER'']"])

subsection \<open>The variables of the logger in a changed container\<close>

lemma injector_env_log:
  "plain_env ''VAULT_JSON_LOG'' (vc_enable_json_log V) \<in> set (injector_env ds Z V vs env)"
  "\<not> is_log_level_set env \<Longrightarrow> vc_log_level V \<noteq> '''' \<Longrightarrow>
     plain_env ''VAULT_LOG_LEVEL'' (vc_log_level V) \<in> set (injector_env ds Z V vs env)"
  by (simp_all add: injector_env_def)

lemma injector_env_log_only:
  "\<forall>e \<in> set (injector_env ds Z V vs env). env_name e = ''VAULT_JSON_LOG'' \<longrightarrow> e = plain_env ''VAULT_JSON_LOG'' (vc_enable_json_log V)"
  "\<forall>e \<in> set (injector_env ds Z V vs env). env_name e = ''VAULT_LOG_LEVEL'' \<longrightarrow> e = plain_env ''VAULT_LOG_LEVEL'' (vc_log_level V)"
  "\<forall>e \<in> set (injector_env ds Z V vs env). env_name e \<noteq> ''VAULT_ENV_LOG_SERVER''"
  by (simp_all add: injector_env_def restart_env_def plain_env_def ball_Un if_ball split del: if_split cong: if_cong) auto

text \<open>A variable that the injector does not set is the container's own.\<close>

lemma own_variable:
  assumes "proper_names from c" "\<forall>e \<in> set (injector_env ds Z V vs (c_env c)). env_name e \<noteq> n"
  shows "getenv (container_environ from resolve (inject_container ds Z V vs cfg c)) n =
    getenv (container_environ from resolve c) n"
proof -
  let ?f = "\<lambda>e. (env_name e, resolve e)"
  have "map_of (rev (map ?f (injector_env ds Z V vs (c_env c)))) n = None"
    using assms(2) by (auto simp: map_of_eq_None_iff)
  then show ?thesis
    unfolding getenv_container [OF proper_names_inject [OF assms(1)]] getenv_container [OF assms(1)]
    by (simp add: inject_container_def map_add_def)
qed

subsection \<open>Properties\<close>

text \<open>C32: in a changed container the injector logs with the annotated level and format, each the setting of the
  webhook if it is not annotated, unless the container sets a level itself. It sends to the log server that the
  container names itself, since the webhook never passes on the one of its own settings.\<close>

theorem log_settings_follow_annotations:
  assumes run: "vault_secrets_mutator pd ds T Z K get ns (PodObject p) r = (None, Some p', r')"
    and V: "V = parse_vault_config pd Z (pod_annotations p) ns" and fresh: "\<not> is_pod_already_mutated p"
    and i: "i < length (containers (spec p))" and sel: "selected K V (containers (spec p) ! i)"
    and names: "proper_names from (containers (spec p) ! i)" and plain: "keeps_plain_text resolve"
    and level: "vc_log_level V \<noteq> ''''" "\<not> is_log_level_set (c_env (containers (spec p) ! i))"
    and dollar: "CHR ''$'' \<notin> set (vc_log_level V) \<union> set (vc_enable_json_log V)"
  shows "new_logger S (container_environ from resolve (containers (spec p') ! i)) w =
    new_logger S
      [env_entry ''VAULT_LOG_LEVEL'' (annotation_or (pod_annotations p) ''log-level'' (setting Z ''log_level'')),
       env_entry ''VAULT_JSON_LOG'' (annotation_or (pod_annotations p) ''enable-json-log'' (setting Z ''enable_json_log'')),
       env_entry ''VAULT_ENV_LOG_SERVER''
         (getenv (container_environ from resolve (containers (spec p) ! i)) ''VAULT_ENV_LOG_SERVER'')] w"
proof -
  let ?c = "containers (spec p) ! i"
  obtain role where pod: "mutate_pod ds Z K get (V\<lparr>vc_role := role\<rparr>) p r = (None, p', r')" and skip: "\<not> vc_skip V"
    using vault_secrets_mutator_PodD [OF run] V by metis
  let ?V = "V\<lparr>vc_role := role\<rparr>"
  have cfgV: "vc_log_level V = annotation_or (pod_annotations p) ''log-level'' (setting Z ''log_level'')"
    "vc_enable_json_log V = annotation_or (pod_annotations p) ''enable-json-log'' (setting Z ''enable_json_log'')"
    using skip by (auto simp: V parse_vault_config_def split: option.splits)
  obtain cfg where c: "containers (spec p') ! i = inject_container ds Z ?V (volumes (spec p)) cfg ?c"
    using mutate_pod_nth [OF pod fresh i] sel by auto
  let ?env = "container_environ from resolve (containers (spec p') ! i)"
  have r: "resolve (plain_env n v) = v" if "CHR ''$'' \<notin> set v" for n v
    using plain that by (simp add: keeps_plain_text_def plain_env_def)
  have "getenv ?env ''VAULT_JSON_LOG'' = vc_enable_json_log V" "getenv ?env ''VAULT_LOG_LEVEL'' = vc_log_level V"
    using injected_variable [where resolve = resolve and cfg = cfg and ds = ds and Z = Z and V = ?V and vs = "volumes (spec p)",
        OF names injector_env_log(1) injector_env_log_only(1)]
      injected_variable [where resolve = resolve and cfg = cfg and ds = ds and Z = Z and V = ?V and vs = "volumes (spec p)",
        OF names injector_env_log(2) injector_env_log_only(2)] level dollar
    by (simp_all add: c r)
  moreover have "getenv ?env ''VAULT_ENV_LOG_SERVER'' = getenv (container_environ from resolve ?c) ''VAULT_ENV_LOG_SERVER''"
    unfolding c by (rule own_variable [OF names injector_env_log_only(3)])
  ultimately show ?thesis
    unfolding new_logger_def cfgV by (simp add: getenv_def)
qed

definition log_pod :: pod where
  "log_pod = example_pod\<lparr>pod_annotations :=
       [(annotation ''role'', ''r''), (annotation ''log-level'', ''debug''), (annotation ''enable-json-log'', ''true'')]\<rparr>"

definition log_run :: "webhook_error option \<times> pod option \<times> unit registry" where
  "log_run = vault_secrets_mutator (\<lambda>_. None) (\<lambda>_. ''10s'')
     \<lparr>template_error = (\<lambda>_. None), template_execute = (\<lambda>t _. Inr t)\<rparr> example_settings example_cluster
     (get_image_config example_remote example_settings) ''ns'' (PodObject log_pod) (new_registry ())"

definition example_log_sys :: "(string, nat) log_sys" where
  "example_log_sys = \<lparr>level_of = (\<lambda>s. s), cast_bool = (\<lambda>s. s = ''true''), dial_udp = (\<lambda>_ w. (True, Suc w))\<rparr>"

theorem log_settings_follow_annotations_witness:
  "new_logger example_log_sys (container_environ [] env_value (containers (spec (the (fst (snd log_run)))) ! 0)) 0 =
    (\<lparr>rl_stdout = \<lparr>lg_level = ''debug'', lg_json = True, lg_output = ToStdout, lg_app = ''env-injector''\<rparr>,
      rl_stderr = \<lparr>lg_level = ''debug'', lg_json = True, lg_output = ToStderr, lg_app = ''env-injector''\<rparr>,
      rl_syslog = None\<rparr>, 0)"
proof -
  have "fst log_run = None" "fst (snd log_run) \<noteq> None" by code_simp+
  then obtain p' r' where run: "log_run = (None, Some p', r')"
    by (metis not_None_eq prod.collapse)
  let ?V = "parse_vault_config (\<lambda>_. None) example_settings (pod_annotations log_pod) ''ns''"
  have pre: "\<not> is_pod_already_mutated log_pod" "0 < length (containers (spec log_pod))"
    "selected example_cluster ?V (containers (spec log_pod) ! 0)" "proper_names [] (containers (spec log_pod) ! 0)"
    by code_simp+
  have plain: "keeps_plain_text env_value" by (simp add: keeps_plain_text_def)
  have log: "vc_log_level ?V \<noteq> ''''" "\<not> is_log_level_set (c_env (containers (spec log_pod) ! 0))"
    "CHR ''$'' \<notin> set (vc_log_level ?V) \<union> set (vc_enable_json_log ?V)"
    "annotation_or (pod_annotations log_pod) ''log-level'' (setting example_settings ''log_level'') = ''debug''"
    "annotation_or (pod_annotations log_pod) ''enable-json-log'' (setting example_settings ''enable_json_log'') = ''true''"
    "getenv (container_environ [] env_value (containers (spec log_pod) ! 0)) ''VAULT_ENV_LOG_SERVER'' = ''''"
    by code_simp+
  show ?thesis
    using log_settings_follow_annotations [OF run [unfolded log_run_def] refl pre plain log(1-3), of example_log_sys 0]
    by (simp add: run log(4-6)) (simp add: new_logger_def getenv_def env_entry_def example_log_sys_def)
qed

end
