(* ===== verification/Registry_Concurrent.thy ===== *)
theory Registry_Concurrent
  imports Webhook_Registry Fair_Runs
begin

text \<open>
  Admissions run concurrently and share the image registry of \<^verbatim>\<open>registry.go\<close>: \<open>GetImageConfig\<close> as three actions on
  the shared state, between which other requests may run. The cache is safe for concurrent use, so a lookup
  and a store are one action each; so is a fetch, which shares nothing with other requests but the world.
\<close>

record image_request =
  rq_namespace :: string
  rq_skip_verify :: bool
  rq_container :: container
  rq_pod_spec :: pod_spec

datatype request_phase =
    Asked
  | Missed
  | Fetched "registry_error + image_config"
  | Answered "registry_error + image_config"

text \<open>The next action of a request, \<open>None\<close> when \<open>GetImageConfig\<close> has returned.\<close>

fun request_step ::
  "'w remote \<Rightarrow> settings \<Rightarrow> image_request \<Rightarrow> request_phase \<Rightarrow> 'w registry \<Rightarrow> (request_phase \<times> 'w registry) option" where
  "request_step R Z q Asked r =
     (case (if is_allowed_to_cache R (rq_container q) then image_cache r (c_image (rq_container q)) else None) of
        Some cfg \<Rightarrow> Some (Answered (Inr cfg), r)
      | None \<Rightarrow> Some (Missed, r))"
| "request_step R Z q Missed r =
     (case get_image_config_with_secrets R (container_info_for Z (rq_namespace q) (rq_container q) (rq_pod_spec q))
             (rq_skip_verify q) (reg_world r) of
        (x, w) \<Rightarrow> Some (Fetched x, r\<lparr>reg_world := w\<rparr>))"
| "request_step R Z q (Fetched x) r =
     Some (Answered x,
       (case x of
          Inl e \<Rightarrow> r
        | Inr cfg \<Rightarrow> if is_allowed_to_cache R (rq_container q)
                    then r\<lparr>image_cache := (image_cache r)(c_image (rq_container q) \<mapsto> cfg)\<rparr> else r))"
| "request_step R Z q (Answered x) r = None"

record 'w webhook =
  shared_registry :: "'w registry"
  requests :: "(image_request \<times> request_phase) list"

definition start_webhook :: "'w \<Rightarrow> 'w webhook" where
  "start_webhook w = \<lparr>shared_registry = new_registry w, requests = []\<rparr>"

definition request_acts :: "'w remote \<Rightarrow> settings \<Rightarrow> nat \<Rightarrow> 'w webhook \<Rightarrow> 'w webhook \<Rightarrow> bool" where
  "request_acts R Z n s t \<longleftrightarrow> n < length (requests s) \<and>
     (case request_step R Z (fst (requests s ! n)) (snd (requests s ! n)) (shared_registry s) of
        None \<Rightarrow> False
      | Some (ph, r) \<Rightarrow> t = s\<lparr>shared_registry := r, requests := (requests s)[n := (fst (requests s ! n), ph)]\<rparr>)"

inductive webhook_step :: "'w remote \<Rightarrow> settings \<Rightarrow> 'w webhook \<Rightarrow> 'w webhook \<Rightarrow> bool" for R Z where
  arrive: "webhook_step R Z s (s\<lparr>requests := requests s @ [(q, Asked)]\<rparr>)"
| act: "request_acts R Z n s t \<Longrightarrow> webhook_step R Z s t"
| outside: "webhook_step R Z s (s\<lparr>shared_registry := shared_registry s\<lparr>reg_world := w\<rparr>\<rparr>)"

inductive webhook_reach :: "'w remote \<Rightarrow> settings \<Rightarrow> 'w webhook \<Rightarrow> bool" for R Z where
  start: "webhook_reach R Z (start_webhook w)"
| step: "webhook_reach R Z s \<Longrightarrow> webhook_step R Z s t \<Longrightarrow> webhook_reach R Z t"

inductive_cases webhook_stepE: "webhook_step R Z s t"

text \<open>A webhook never ends by itself.\<close>

interpretation admissions: actor_system "webhook_step R Z" "request_acts R Z" "\<lambda>_. False"
  for R :: "'w remote" and Z
  by unfold_locales (rule webhook_step.act)

subsection \<open>One request alone\<close>

text \<open>A request that is not interrupted: its actions up to the answer.\<close>

fun run_request ::
  "'w remote \<Rightarrow> settings \<Rightarrow> image_request \<Rightarrow> nat \<Rightarrow> request_phase \<Rightarrow> 'w registry \<Rightarrow> request_phase \<times> 'w registry" where
  "run_request R Z q 0 ph r = (ph, r)"
| "run_request R Z q (Suc n) ph r =
     (case request_step R Z q ph r of None \<Rightarrow> (ph, r) | Some (ph', r') \<Rightarrow> run_request R Z q n ph' r')"

lemma run_request_alone:
  "run_request R Z q 3 Asked r =
     (case get_image_config R Z (rq_namespace q) (rq_skip_verify q) (rq_container q) (rq_pod_spec q) r of (x, r') \<Rightarrow> (Answered x, r'))"
  by (auto simp: numeral_3_eq_3 get_image_config_def Let_def split: option.split prod.split sum.split)

subsection \<open>Every answer is the truth\<close>

fun phase_truthful :: "(string \<Rightarrow> image_config) \<Rightarrow> image_request \<Rightarrow> request_phase \<Rightarrow> bool" where
  "phase_truthful truth q (Fetched (Inr cfg)) = (cfg = truth (c_image (rq_container q)))"
| "phase_truthful truth q (Answered (Inr cfg)) = (cfg = truth (c_image (rq_container q)))"
| "phase_truthful truth q _ = True"

definition webhook_inv :: "(string \<Rightarrow> image_config) \<Rightarrow> 'w webhook \<Rightarrow> bool" where
  "webhook_inv truth s \<longleftrightarrow> cache_truthful truth (shared_registry s) \<and> (\<forall>(q, ph) \<in> set (requests s). phase_truthful truth q ph)"

lemma request_step_truthful:
  assumes "stable_images R truth" "cache_truthful truth r" "phase_truthful truth q ph"
    and "request_step R Z q ph r = Some (ph', r')"
  shows "cache_truthful truth r' \<and> phase_truthful truth q ph'"
proof (cases ph)
  case Asked
  with assms show ?thesis by (auto simp: cache_truthful_def split: option.splits if_splits)
next
  case Missed
  with assms(2,4) get_image_config_with_secrets_truth [OF assms(1), of "container_info_for Z (rq_namespace q) (rq_container q) (rq_pod_spec q)"
      "rq_skip_verify q" "reg_world r"]
  show ?thesis
    by (cases "fst (get_image_config_with_secrets R (container_info_for Z (rq_namespace q) (rq_container q) (rq_pod_spec q))
             (rq_skip_verify q) (reg_world r))") (auto simp: cache_truthful_def split: prod.splits)
next
  case (Fetched x)
  with assms show ?thesis by (cases x) (auto simp: cache_truthful_def split: if_splits)
qed (use assms in simp)

lemma webhook_inv_step:
  assumes "stable_images R truth" "webhook_inv truth s" "webhook_step R Z s t"
  shows "webhook_inv truth t"
  using assms(3)
proof (cases rule: webhook_step.cases)
  case (act n)
  then obtain ph r where n: "n < length (requests s)"
    and st: "request_step R Z (fst (requests s ! n)) (snd (requests s ! n)) (shared_registry s) = Some (ph, r)"
    and t: "t = s\<lparr>shared_registry := r, requests := (requests s)[n := (fst (requests s ! n), ph)]\<rparr>"
    by (auto simp: request_acts_def split: option.splits)
  have "requests s ! n \<in> set (requests s)" using n by simp
  with assms(2) have "phase_truthful truth (fst (requests s ! n)) (snd (requests s ! n))"
    by (auto simp: webhook_inv_def split: prod.splits)
  from request_step_truthful [OF assms(1) _ this st] assms(2) show ?thesis
    by (auto simp: webhook_inv_def t dest!: set_update_subset_insert [THEN subsetD])
qed (use assms(2) in \<open>auto simp: webhook_inv_def cache_truthful_def\<close>)

lemma webhook_reach_inv:
  assumes "stable_images R truth"
  shows "webhook_reach R Z s \<Longrightarrow> webhook_inv truth s"
proof (induction rule: webhook_reach.induct)
  case (step s t)
  then show ?case using webhook_inv_step [OF assms] by blast
qed (simp add: start_webhook_def webhook_inv_def cache_truthful_def new_registry_def)

subsection \<open>Every request is answered\<close>

text \<open>A request only changes by its own actions.\<close>

lemma webhook_step_request:
  assumes "webhook_step R Z s t" "n < length (requests s)"
  shows "n < length (requests t) \<and> fst (requests t ! n) = fst (requests s ! n) \<and>
    (requests t ! n = requests s ! n \<or> request_acts R Z n s t)"
  using assms(1)
proof (cases rule: webhook_step.cases)
  case (act m)
  then show ?thesis using assms(2) by (auto simp: request_acts_def nth_list_update split: option.splits)
qed (use assms(2) in \<open>auto simp: nth_append\<close>)

lemma request_advances:
  assumes run: "run_of (webhook_step R Z) (\<lambda>_. False) \<sigma>" and fair: "fair_run (request_acts R Z) (\<lambda>_. False) \<sigma>"
    and n: "n < length (requests (\<sigma> i))" "requests (\<sigma> i) ! n = (q, ph)"
    and enabled: "\<And>r. \<exists>ph' r'. request_step R Z q ph r = Some (ph', r') \<and> Q ph'"
  shows "\<exists>j\<ge>i. n < length (requests (\<sigma> j)) \<and> fst (requests (\<sigma> j) ! n) = q \<and> Q (snd (requests (\<sigma> j) ! n))"
proof (rule admissions.leads_to_ready [OF run fair, where P = "\<lambda>s. n < length (requests s) \<and> requests s ! n = (q, ph)" and g = n])
  show "n < length (requests (\<sigma> i)) \<and> requests (\<sigma> i) ! n = (q, ph)" using n by simp
  fix j
  assume j: "n < length (requests (\<sigma> j)) \<and> requests (\<sigma> j) ! n = (q, ph)"
  obtain ph' r' where st: "request_step R Z q ph (shared_registry (\<sigma> j)) = Some (ph', r')" "Q ph'" using enabled by blast
  show moved: "n < length (requests (\<sigma> (Suc j))) \<and> fst (requests (\<sigma> (Suc j)) ! n) = q \<and> Q (snd (requests (\<sigma> (Suc j)) ! n))"
    if "request_acts R Z n (\<sigma> j) (\<sigma> (Suc j))"
    using that j st by (auto simp: request_acts_def)
  show "(n < length (requests (\<sigma> (Suc j))) \<and> requests (\<sigma> (Suc j)) ! n = (q, ph)) \<or>
      (n < length (requests (\<sigma> (Suc j))) \<and> fst (requests (\<sigma> (Suc j)) ! n) = q \<and> Q (snd (requests (\<sigma> (Suc j)) ! n)))"
    if "webhook_step R Z (\<sigma> j) (\<sigma> (Suc j))"
    using webhook_step_request [OF that] moved j by fastforce
  show "ready (request_acts R Z) (\<lambda>_. False) n (\<sigma> j)"
    using j st by (auto simp: ready_def request_acts_def)
qed

fun is_answered :: "request_phase \<Rightarrow> bool" where
  "is_answered (Answered x) = True"
| "is_answered _ = False"

lemma request_is_answered:
  fixes R :: "'w remote"
  assumes run: "run_of (webhook_step R Z) (\<lambda>_. False) \<sigma>" and fair: "fair_run (request_acts R Z) (\<lambda>_. False) \<sigma>"
    and n: "n < length (requests (\<sigma> i))"
  shows "\<exists>j\<ge>i. n < length (requests (\<sigma> j)) \<and> fst (requests (\<sigma> j) ! n) = fst (requests (\<sigma> i) ! n) \<and>
    is_answered (snd (requests (\<sigma> j) ! n))"
proof -
  let ?q = "fst (requests (\<sigma> i) ! n)"
  define at where "at Q s \<longleftrightarrow> n < length (requests s) \<and> fst (requests s ! n) = ?q \<and> Q (snd (requests s ! n))" for Q and s :: "'w webhook"
  have adv: "\<exists>k\<ge>j. at Q (\<sigma> k)" if "at ((=) ph) (\<sigma> j)" "\<And>r. \<exists>ph' r'. request_step R Z ?q ph r = Some (ph', r') \<and> Q ph'" for j ph Q
    using request_advances [OF run fair, of n j ?q ph Q] that by (auto simp: at_def prod_eq_iff)
  have fetched: "\<exists>k\<ge>j. at is_answered (\<sigma> k)" if "at (\<lambda>p. \<exists>x. p = Fetched x) (\<sigma> j)" for j
    using that adv [of _ j is_answered] by (fastforce simp: at_def)
  have missed: "\<exists>k\<ge>j. at is_answered (\<sigma> k)" if "at ((=) Missed) (\<sigma> j)" for j
    by (rule admissions.leads_on [OF adv [OF that, of "\<lambda>p. \<exists>x. p = Fetched x"] fetched]) (auto split: prod.split)
  have asked: "\<exists>k\<ge>j. at is_answered (\<sigma> k)" if "at ((=) Asked) (\<sigma> j)" for j
  proof (rule admissions.leads_on [OF adv [OF that, of "\<lambda>p. p = Missed \<or> is_answered p"]])
    show "\<exists>l\<ge>k. at is_answered (\<sigma> l)" if "at (\<lambda>p. p = Missed \<or> is_answered p) (\<sigma> k)" for k
      using that missed [of k] by (auto simp: at_def)
  qed (auto split: option.split)
  have "\<exists>k\<ge>i. at is_answered (\<sigma> k)"
    using n asked [of i] missed [of i] fetched [of i] by (cases "snd (requests (\<sigma> i) ! n)") (auto simp: at_def)
  then show ?thesis by (simp add: at_def)
qed

lemma webhook_reach_run:
  assumes "run_of (webhook_step R Z) (\<lambda>_. False) \<sigma>" "\<sigma> 0 = start_webhook w"
  shows "webhook_reach R Z (\<sigma> i)"
proof (induction i)
  case (Suc i)
  with assms(1) show ?case by (auto simp: run_of_def intro: webhook_reach.step)
qed (simp add: assms(2) webhook_reach.start)

text \<open>C16: concurrent admissions do not disturb each other. A lookup of an image that runs alone is \<open>GetImageConfig\<close>;
  in every interleaving of any number of lookups over the shared cache, each is answered in the end, by an error
  or by the configuration of its own image.\<close>

theorem concurrent_lookups_are_answered:
  assumes images: "stable_images R truth"
    and run: "run_of (webhook_step R Z) (\<lambda>_. False) \<sigma>" and fair: "fair_run (request_acts R Z) (\<lambda>_. False) \<sigma>"
    and start: "\<sigma> 0 = start_webhook w" and n: "n < length (requests (\<sigma> i))" and q: "q = fst (requests (\<sigma> i) ! n)"
  shows "(\<forall>r. run_request R Z q 3 Asked r =
      (case get_image_config R Z (rq_namespace q) (rq_skip_verify q) (rq_container q) (rq_pod_spec q) r of (x, r') \<Rightarrow> (Answered x, r'))) \<and>
    (\<exists>j\<ge>i. \<exists>x. requests (\<sigma> j) ! n = (q, Answered x) \<and>
      (case x of Inl e \<Rightarrow> True | Inr cfg \<Rightarrow> cfg = truth (c_image (rq_container q))))"
proof
  show "\<forall>r. run_request R Z q 3 Asked r =
      (case get_image_config R Z (rq_namespace q) (rq_skip_verify q) (rq_container q) (rq_pod_spec q) r of (x, r') \<Rightarrow> (Answered x, r'))"
    using run_request_alone by blast
  obtain j where j: "i \<le> j" "n < length (requests (\<sigma> j))" "fst (requests (\<sigma> j) ! n) = q" "is_answered (snd (requests (\<sigma> j) ! n))"
    using request_is_answered [OF run fair n] q by blast
  then obtain x where x: "requests (\<sigma> j) ! n = (q, Answered x)"
    by (cases "snd (requests (\<sigma> j) ! n)") (auto simp: prod_eq_iff)
  have "webhook_inv truth (\<sigma> j)" using webhook_reach_inv [OF images webhook_reach_run [OF run start]] .
  moreover have "(q, Answered x) \<in> set (requests (\<sigma> j))" using j(2) x by (metis nth_mem)
  ultimately have "phase_truthful truth q (Answered x)" by (auto simp: webhook_inv_def)
  then have "case x of Inl e \<Rightarrow> True | Inr cfg \<Rightarrow> cfg = truth (c_image (rq_container q))" by (cases x) auto
  with j(1) x show "\<exists>j\<ge>i. \<exists>x. requests (\<sigma> j) ! n = (q, Answered x) \<and>
      (case x of Inl e \<Rightarrow> True | Inr cfg \<Rightarrow> cfg = truth (c_image (rq_container q)))" by blast
qed

subsection \<open>Two lookups of one image\<close>

text \<open>Both requests miss, both fetch, both store.\<close>

definition one_image :: "unit remote" where
  "one_image = \<lparr>parse_reference = (\<lambda>_. Inr ''1''), auth_chain = (\<lambda>_ _ _ w. (Inr 0, w)),
     remote_get = (\<lambda>_ _ _ w. (Inr 0, w)), descriptor_image = (\<lambda>_ w. (Inr 0, w)),
     image_config_file = (\<lambda>_ w. (Inr \<lparr>entrypoint = [''/run''], image_cmd = []\<rparr>, w))\<rparr>"

definition no_settings :: settings where
  "no_settings = \<lparr>setting = (\<lambda>_. ''''), setting_bool = (\<lambda>_. False), setting_list = (\<lambda>_. [])\<rparr>"

definition app_request :: image_request where
  "app_request = \<lparr>rq_namespace = ''ns'', rq_skip_verify = False,
     rq_container = \<lparr>c_name = ''app'', c_image = ''app:1'', c_pull_policy = PullIfNotPresent, c_command = [], c_args = [],
       c_env_from = [], c_env = [], c_mounts = [], c_liveness = None, c_readiness = None, c_startup = None,
       c_security = None, c_limits = [], c_requests = []\<rparr>,
     rq_pod_spec = \<lparr>init_containers = [], containers = [], volumes = [], pod_run_as_user = None,
       service_account_name = '''', image_pull_secrets = []\<rparr>\<rparr>"

definition act_now :: "nat \<Rightarrow> unit webhook \<Rightarrow> unit webhook" where
  "act_now n s = (case request_step one_image no_settings (fst (requests s ! n)) (snd (requests s ! n)) (shared_registry s) of
     None \<Rightarrow> s
   | Some (ph, r) \<Rightarrow> s\<lparr>shared_registry := r, requests := (requests s)[n := (fst (requests s ! n), ph)]\<rparr>)"

definition race_schedule :: "(unit webhook \<Rightarrow> unit webhook) list" where
  "race_schedule = [\<lambda>s. s\<lparr>requests := requests s @ [(app_request, Asked)]\<rparr>, \<lambda>s. s\<lparr>requests := requests s @ [(app_request, Asked)]\<rparr>,
     act_now 0, act_now 1, act_now 1, act_now 0, act_now 0, act_now 1]"

definition race :: "nat \<Rightarrow> unit webhook" where
  "race i = fold (\<lambda>f. f) (take i race_schedule) (start_webhook ())"

lemma race_images: "stable_images one_image (\<lambda>_. \<lparr>entrypoint = [''/run''], image_cmd = []\<rparr>)"
  by (simp add: stable_images_def try_get_image_config_def one_image_def)

lemma race_end: "race (8 + k) = race 8"
  by (simp add: race_def race_schedule_def)

lemma race_answered: "list_all (\<lambda>x. is_answered (snd x)) (requests (race 8))" "length (requests (race 8)) = 2"
  by code_simp+

lemma race_Suc: "i < 8 \<Longrightarrow> race (Suc i) = (race_schedule ! i) (race i)"
proof -
  assume "i < 8"
  then have "i < length race_schedule" by (simp add: race_schedule_def)
  then show ?thesis by (simp add: race_def take_Suc_conv_app_nth)
qed

definition may_act :: "nat \<Rightarrow> unit webhook \<Rightarrow> bool" where
  "may_act n s \<longleftrightarrow> n < length (requests s) \<and> \<not> is_answered (snd (requests s ! n))"

lemma race_moves: "may_act 0 (race 2)" "may_act 1 (race 3)" "may_act 1 (race 4)" "may_act 0 (race 5)" "may_act 0 (race 6)" "may_act 1 (race 7)"
  by code_simp+

lemma act_now_step: "may_act n s \<Longrightarrow> webhook_step one_image no_settings s (act_now n s)"
proof (rule webhook_step.act)
  assume m: "may_act n s"
  then have "request_step one_image no_settings (fst (requests s ! n)) (snd (requests s ! n)) (shared_registry s) \<noteq> None"
    by (cases "snd (requests s ! n)") (auto simp: may_act_def split: option.splits prod.splits)
  with m show "request_acts one_image no_settings n s (act_now n s)"
    by (auto simp: request_acts_def act_now_def may_act_def)
qed

lemma race_run: "run_of (webhook_step one_image no_settings) (\<lambda>_. False) race"
  unfolding run_of_def
proof (intro allI)
  fix i
  have "webhook_step one_image no_settings (race i) (race (Suc i))"
  proof (cases "8 \<le> i")
    case True
    then obtain k where "i = 8 + k" by (auto simp: le_iff_add)
    then have "race (Suc i) = race i" using race_end [of k] race_end [of "Suc k"] by simp
    moreover have "race i\<lparr>shared_registry := shared_registry (race i)\<lparr>reg_world := ()\<rparr>\<rparr> = race i" by simp
    ultimately show ?thesis using webhook_step.outside [of one_image no_settings "race i" "()"] by metis
  next
    case False
    then have "race (Suc i) = (race_schedule ! i) (race i)" "i \<in> {0, 1, 2, 3, 4, 5, 6, 7}"
      by (auto intro: race_Suc)
    with race_moves [THEN act_now_step] webhook_step.arrive show ?thesis
      by (auto simp: race_schedule_def)
  qed
  then show "if False then race (Suc i) = race i else webhook_step one_image no_settings (race i) (race (Suc i))" by simp
qed

lemma race_fair: "fair_run (request_acts one_image no_settings) (\<lambda>_. False) race"
  unfolding fair_run_def
proof (intro allI impI)
  fix n i
  assume "\<forall>i. \<exists>j\<ge>i. ready (request_acts one_image no_settings) (\<lambda>_. False) n (race j)"
  then obtain j where "8 \<le> j" "ready (request_acts one_image no_settings) (\<lambda>_. False) n (race j)" by blast
  moreover from this have "race j = race 8" using race_end [of "j - 8"] by simp
  ultimately have "n < length (requests (race 8))" "\<not> is_answered (snd (requests (race 8) ! n))"
    by (auto simp: ready_def request_acts_def elim!: is_answered.elims)
  with race_answered(1) show "\<exists>j\<ge>i. \<not> False \<and> request_acts one_image no_settings n (race j) (race (Suc j))"
    by (auto simp: list_all_length)
qed

theorem concurrent_lookups_are_answered_witness:
  "\<exists>j\<ge>2. \<exists>x. requests (race j) ! 1 = (app_request, Answered x) \<and>
    (case x of Inl e \<Rightarrow> True | Inr cfg \<Rightarrow> cfg = \<lparr>entrypoint = [''/run''], image_cmd = []\<rparr>)"
proof -
  have "fst (requests (race 2) ! 1) = app_request" "1 < length (requests (race 2))"
    by (simp_all add: race_def race_schedule_def start_webhook_def)
  moreover have "race 0 = start_webhook ()" by (simp add: race_def)
  ultimately show ?thesis
    using concurrent_lookups_are_answered [OF race_images race_run race_fair, of "()" 1 2 app_request] by simp
qed

end
