(* ===== verification/Webhook_Injector.thy ===== *)
theory Webhook_Injector
  imports Injector
begin

text \<open>
  \<^verbatim>\<open>pkg/webhook/injector.go\<close>: the webhook's copy of the secret injector, which also knows the Transit
  engine of Vault and has no templates. What it shares with the copy in the env-injector (the inline
  references, \<open>readVaultPath\<close>, the paths) is taken from there.

  The state adds the transit cache to that of the other copy. \<open>ord\<close> is the order in which the set of
  encrypted values is turned into a slice, \<open>visit\<close> the order of the main loop over the references.
\<close>

record wh_config =
  transit_key_id :: string
  transit_path :: string
  transit_batch_size :: int
  wh_ignore_missing :: bool
  wh_daemon_mode :: bool

record 'w transit =
  is_encrypted :: "string \<Rightarrow> bool"
  decrypt_batch :: "string \<Rightarrow> string \<Rightarrow> string list \<Rightarrow> 'w \<Rightarrow> string option \<times> str_map \<times> 'w"
  decrypt :: "string \<Rightarrow> string \<Rightarrow> string \<Rightarrow> 'w \<Rightarrow> (string + string) \<times> 'w"

record 'w wh_st =
  inner :: "'w inj_st"
  transit_cache :: "string \<rightharpoonup> string"

datatype wh_error =
    SharedError inj_error
  | TransitKeyEmpty
  | DecryptFailed string string
  | PreprocessFailed wh_error
  | PagePanic

definition new_wh_injector :: "'w \<Rightarrow> 'w wh_st" where
  "new_wh_injector w = \<lparr>inner = new_secret_injector w, transit_cache = Map.empty\<rparr>"

definition set_world :: "'w \<Rightarrow> 'w wh_st \<Rightarrow> 'w wh_st" where
  "set_world w st = st\<lparr>inner := (inner st)\<lparr>world := w\<rparr>\<rparr>"

definition shared_config :: "wh_config \<Rightarrow> config" where
  "shared_config C = \<lparr>ignore_missing_secrets = wh_ignore_missing C, daemon_mode = wh_daemon_mode C\<rparr>"

subsection \<open>Transit\<close>

text \<open>\<open>FetchTransitSecrets\<close>: an error of the batch is only logged, so what it returned is cached.\<close>

definition fetch_transit_secrets ::
  "'w transit \<Rightarrow> wh_config \<Rightarrow> string list \<Rightarrow> 'w wh_st \<Rightarrow> wh_error option \<times> 'w wh_st" where
  "fetch_transit_secrets T C secrets st =
     (if transit_key_id C = '''' then (Some TransitKeyEmpty, st)
      else if secrets = [] then (None, st)
      else case decrypt_batch T (transit_path C) (transit_key_id C) secrets (world (inner st)) of
             (_, out, w) \<Rightarrow> (None, (set_world w st)\<lparr>transit_cache := transit_cache st ++ map_of out\<rparr>))"

text \<open>
  \<open>paginate\<close> with the indices of Go: the remainder by 0 and an index that is not a page panic
  (\<open>None\<close>). The quotient of a nonnegative number is rounded towards 0.
\<close>

definition go_quot :: "int \<Rightarrow> int \<Rightarrow> int" where
  "go_quot i n = (if n < 0 then - (i div (- n)) else i div n)"

definition go_rem :: "int \<Rightarrow> int \<Rightarrow> int" where
  "go_rem i n = i - go_quot i n * n"

fun paginate_from :: "int \<Rightarrow> int \<Rightarrow> string list list \<Rightarrow> string list \<Rightarrow> string list list option" where
  "paginate_from n i pages [] = Some pages"
| "paginate_from n i pages (s # ss) =
     (if n = 0 then None
      else let pages' = (if go_rem i n = 0 then pages @ [[]] else pages); k = go_quot i n
           in if k < 0 \<or> int (length pages') \<le> k then None
              else paginate_from n (i + 1) (pages'[nat k := pages' ! nat k @ [s]]) ss)"

definition paginate :: "string list \<Rightarrow> int \<Rightarrow> string list list option" where
  "paginate secrets n = paginate_from n 0 [] secrets"

definition encrypted_values :: "'w transit \<Rightarrow> str_map \<Rightarrow> string list" where
  "encrypted_values T refs =
     remdups (concat (map (\<lambda>(name, v).
       if has_inline_vault_delimiters v then filter (is_encrypted T) (map snd (find_inline_vault_delimiters v))
       else if is_encrypted T v then [v] else []) refs))"

fun fetch_pages :: "'w transit \<Rightarrow> wh_config \<Rightarrow> string list list \<Rightarrow> 'w wh_st \<Rightarrow> wh_error option \<times> 'w wh_st" where
  "fetch_pages T C [] st = (None, st)"
| "fetch_pages T C (p # ps) st =
     (case fetch_transit_secrets T C p st of
        (Some e, st1) \<Rightarrow> if \<not> wh_ignore_missing C then (Some e, st1) else fetch_pages T C ps st1
      | (None, st1) \<Rightarrow> fetch_pages T C ps st1)"

text \<open>The replacement of the references in a value by the cache, which is looked up by the whole match.\<close>

definition replace_cached :: "(string \<rightharpoonup> string) \<Rightarrow> string \<Rightarrow> string" where
  "replace_cached cache v =
     foldl (\<lambda>new (m, g). case cache m of Some d \<Rightarrow> replace_all v m d | None \<Rightarrow> new) v (find_inline_vault_delimiters v)"

text \<open>The last loop of \<open>preprocessTransitSecrets\<close>: the calls of \<open>inject\<close> and the references that stay.\<close>

fun inject_cached :: "'w transit \<Rightarrow> (string \<rightharpoonup> string) \<Rightarrow> str_map \<Rightarrow> (string \<times> string) list \<times> str_map" where
  "inject_cached T cache [] = ([], [])"
| "inject_cached T cache ((name, v) # refs) =
     (case inject_cached T cache refs of
        (em, keep) \<Rightarrow>
          if has_inline_vault_delimiters v then
            (if v \<noteq> replace_cached cache v then ((name, v) # em, keep) else (em, (name, v) # keep))
          else if is_encrypted T v then
            (case cache v of Some d \<Rightarrow> ((name, d) # em, (name, v) # keep) | None \<Rightarrow> (em, (name, v) # keep))
          else (em, (name, v) # keep))"

definition preprocess_transit_secrets ::
  "(string list \<Rightarrow> string list) \<Rightarrow> 'w transit \<Rightarrow> wh_config \<Rightarrow> str_map \<Rightarrow> 'w wh_st \<Rightarrow>
   wh_error option \<times> (string \<times> string) list \<times> str_map \<times> 'w wh_st" where
  "preprocess_transit_secrets ord T C refs st =
     (let secrets = filter (\<lambda>k. transit_cache st k = None) (ord (encrypted_values T refs))
      in case paginate secrets (transit_batch_size C) of
           None \<Rightarrow> (Some PagePanic, [], refs, st)
         | Some pages \<Rightarrow>
             (case fetch_pages T C pages st of
                (Some e, st1) \<Rightarrow> (Some e, [], refs, st1)
              | (None, st1) \<Rightarrow>
                  (case inject_cached T (transit_cache st1) refs of
                     (em, keep) \<Rightarrow> (None, em, keep, st1))))"

subsection \<open>The main loop\<close>

definition wh_pick_value :: "libs \<Rightarrow> string \<Rightarrow> string \<Rightarrow> data \<Rightarrow> inj_error + string" where
  "wh_pick_value L path key d =
     (case map_of d key of
        Some v \<Rightarrow> (case to_string_e L v of Inl e \<Rightarrow> Inl (CastFailed e) | Inr s \<Rightarrow> Inr s)
      | None \<Rightarrow> Inl (KeyNotFound key path))"

text \<open>\<open>readVaultPath\<close> is the code of the other copy.\<close>

definition wh_read_vault_path ::
  "libs \<Rightarrow> 'w vault \<Rightarrow> wh_config \<Rightarrow> string \<Rightarrow> string \<Rightarrow> bool \<Rightarrow> 'w wh_st \<Rightarrow>
   (inj_error + data option) \<times> 'w wh_st" where
  "wh_read_vault_path L V C path version_or_data update st =
     (case read_vault_path L V (shared_config C) path version_or_data update (inner st) of
        (r, st1) \<Rightarrow> (r, st\<lparr>inner := st1\<rparr>))"

definition wh_cached_read ::
  "libs \<Rightarrow> 'w vault \<Rightarrow> wh_config \<Rightarrow> string \<Rightarrow> string \<Rightarrow> bool \<Rightarrow> 'w wh_st \<Rightarrow>
   (inj_error + data option) \<times> 'w wh_st" where
  "wh_cached_read L V C path version_or_data update st =
     (case secret_cache (inner st) (path @ ''#'' @ version_or_data) of
        Some d \<Rightarrow> (Inr (Some d), st)
      | None \<Rightarrow> wh_read_vault_path L V C path version_or_data update st)"

definition wh_resolve_ref ::
  "libs \<Rightarrow> 'w vault \<Rightarrow> wh_config \<Rightarrow> string \<Rightarrow> string \<Rightarrow> string \<Rightarrow> bool \<Rightarrow> 'w wh_st \<Rightarrow>
   (wh_error + string option) \<times> 'w wh_st" where
  "wh_resolve_ref L V C path key version_or_data update st =
     (case wh_cached_read L V C path version_or_data update st of
        (Inl e, st1) \<Rightarrow> (Inl (SharedError e), st1)
      | (Inr None, st1) \<Rightarrow>
          if \<not> wh_ignore_missing C then (Inl (SharedError (PathNotFound path)), st1)
          else (Inr None, st1\<lparr>inner := add_log [PathNotFoundWarn path] (inner st1)\<rparr>)
      | (Inr (Some d), st1) \<Rightarrow>
          (case wh_pick_value L path key d of Inl e \<Rightarrow> Inl (SharedError e) | Inr v \<Rightarrow> Inr (Some v),
           st1\<lparr>inner := (inner st1)\<lparr>secret_cache := (secret_cache (inner st1))(path @ ''#'' @ version_or_data \<mapsto> d)\<rparr>\<rparr>))"

text \<open>An encrypted value in the main loop.\<close>

definition wh_decrypt ::
  "'w transit \<Rightarrow> wh_config \<Rightarrow> string \<Rightarrow> string \<Rightarrow> 'w wh_st \<Rightarrow> (wh_error + string option) \<times> 'w wh_st" where
  "wh_decrypt T C name value st =
     (if transit_key_id C = '''' then (Inl TransitKeyEmpty, st)
      else case transit_cache st value of
             Some d \<Rightarrow> (Inr (Some d), st)
           | None \<Rightarrow>
               (case decrypt T (transit_path C) (transit_key_id C) value (world (inner st)) of
                  (Inl e, w) \<Rightarrow>
                    if \<not> wh_ignore_missing C then (Inl (DecryptFailed name e), set_world w st)
                    else (Inr None, set_world w st)
                | (Inr d, w) \<Rightarrow>
                    (Inr (Some d), (set_world w st)\<lparr>transit_cache := (transit_cache st)(value \<mapsto> d)\<rparr>)))"

definition wh_resolve_plain ::
  "libs \<Rightarrow> 'w vault \<Rightarrow> 'w transit \<Rightarrow> wh_config \<Rightarrow> string \<Rightarrow> string \<Rightarrow> 'w wh_st \<Rightarrow>
   (wh_error + string option) \<times> 'w wh_st" where
  "wh_resolve_plain L V T C name value0 st =
     (let update = has_prefix value0 ''>>secrets-store:'';
          value = (if update then trim_prefix value0 ''>>'' else value0)
      in if \<not> has_prefix value ''secrets-store:'' then (Inr (Some value), st)
         else let value_path = trim_prefix value ''secrets-store:''
              in if name = ''VAULT_TOKEN'' \<and> value_path = ''login''
                 then (Inr (Some (v_token V (world (inner st)))), st)
                 else if is_encrypted T value then wh_decrypt T C name value st
                 else (case split_n 3 (CHR ''#'') value_path of
                         path # key # rest \<Rightarrow>
                           wh_resolve_ref L V C path key
                             (case rest of v # _ \<Rightarrow> v | [] \<Rightarrow> if update then ''{}'' else ''-1'')
                             update st
                       | _ \<Rightarrow> (Inl (SharedError KeyNotDefined), st)))"

lemma inject_cached_keep:
  "inject_cached T cache refs = (em, keep) \<Longrightarrow> (\<Sum>(n, v) \<leftarrow> keep. length v + 1) \<le> (\<Sum>(n, v) \<leftarrow> refs. length v + (1::nat))"
  by (induction refs arbitrary: em keep)
     (fastforce split: prod.splits if_splits option.splits)+

lemma preprocess_keep:
  "preprocess_transit_secrets ord T C refs st = (r, em, keep, st1) \<Longrightarrow>
   (\<Sum>(n, v) \<leftarrow> keep. length v + 1) \<le> (\<Sum>(n, v) \<leftarrow> refs. length v + (1::nat))"
  by (auto simp: preprocess_transit_secrets_def Let_def dest: inject_cached_keep split: option.splits prod.splits)

text \<open>The result of the preprocessing for the caller: an error is passed on unless missing secrets are ignored.\<close>

definition preprocess_fails :: "wh_config \<Rightarrow> wh_error option \<Rightarrow> wh_error option" where
  "preprocess_fails C r =
     (case r of
        None \<Rightarrow> None
      | Some e \<Rightarrow> if e = PagePanic then Some e
                 else if \<not> wh_ignore_missing C then Some (PreprocessFailed e) else None)"

text \<open>
  The loop, \<open>InjectSecretsFromVault\<close> and the inner loop over the inline references of one value, which
  calls it through \<open>GetDataFromVault\<close> with one reference.
\<close>

function (sequential)
  wh_inject_refs :: "(string list \<Rightarrow> string list) \<Rightarrow> libs \<Rightarrow> 'w vault \<Rightarrow> 'w transit \<Rightarrow> wh_config \<Rightarrow> str_map \<Rightarrow>
    'w wh_st \<Rightarrow> wh_error option \<times> (string \<times> string) list \<times> 'w wh_st"
and
  wh_data_for :: "(string list \<Rightarrow> string list) \<Rightarrow> libs \<Rightarrow> 'w vault \<Rightarrow> 'w transit \<Rightarrow> wh_config \<Rightarrow> string \<Rightarrow> string \<Rightarrow>
    'w wh_st \<Rightarrow> wh_error option \<times> str_map \<times> 'w wh_st"
and
  wh_subst_refs :: "(string list \<Rightarrow> string list) \<Rightarrow> libs \<Rightarrow> 'w vault \<Rightarrow> 'w transit \<Rightarrow> wh_config \<Rightarrow> string \<Rightarrow>
    (string \<times> string) list \<Rightarrow> string \<Rightarrow> 'w wh_st \<Rightarrow> (wh_error + string) \<times> 'w wh_st"
where
  "wh_inject_refs ord L V T C [] st = (None, [], st)"
| "wh_inject_refs ord L V T C ((name, value) # refs) st =
     (if has_inline_vault_delimiters value then
        (case wh_subst_refs ord L V T C name (find_inline_vault_delimiters value) value st of
           (Inl e, st1) \<Rightarrow> (Some e, [], st1)
         | (Inr v, st1) \<Rightarrow>
             (case wh_inject_refs ord L V T C refs st1 of (r, em, st2) \<Rightarrow> (r, (name, v) # em, st2)))
      else
        (case wh_resolve_plain L V T C name value st of
           (Inl e, st1) \<Rightarrow> (Some e, [], st1)
         | (Inr None, st1) \<Rightarrow> wh_inject_refs ord L V T C refs st1
         | (Inr (Some v), st1) \<Rightarrow>
             (case wh_inject_refs ord L V T C refs st1 of (r, em, st2) \<Rightarrow> (r, (name, v) # em, st2))))"
| "wh_data_for ord L V T C name value st =
     (case preprocess_transit_secrets ord T C [(name, value)] st of
        (r, em, keep, st1) \<Rightarrow>
          (case preprocess_fails C r of
             Some e \<Rightarrow> (Some e, assign_all em [], st1)
           | None \<Rightarrow>
               (case wh_inject_refs ord L V T C keep st1 of
                  (r', em', st2) \<Rightarrow> (r', assign_all (em @ em') [], st2))))"
| "wh_subst_refs ord L V T C name [] value st = (Inr value, st)"
| "wh_subst_refs ord L V T C name ((m0, m1) # ms) value st =
     (case wh_data_for ord L V T C name m1 st of
        (Some e, _, st1) \<Rightarrow> (Inl e, st1)
      | (None, map_data, st1) \<Rightarrow>
          wh_subst_refs ord L V T C name ms (foldl (\<lambda>s (k, v). replace_all s m0 v) value map_data) st1)"
  by pat_completeness auto
termination
  by (relation "measure (\<lambda>x. case x of
        Inl (ord, L, V, T, C, refs, st) \<Rightarrow> 2 * (\<Sum>(n, v) \<leftarrow> refs. length v + 1)
      | Inr (Inl (ord, L, V, T, C, name, value, st)) \<Rightarrow> 2 * (length value + 1) + 1
      | Inr (Inr (ord, L, V, T, C, name, ms, value, st)) \<Rightarrow> 2 * (\<Sum>(m, g) \<leftarrow> ms. length g + 3))")
     (auto simp: less_Suc_eq_le find_inline_measure dest!: preprocess_keep [OF sym])

definition wh_inject_secrets_from_vault ::
  "(string list \<Rightarrow> string list) \<Rightarrow> (str_map \<Rightarrow> str_map) \<Rightarrow> libs \<Rightarrow> 'w vault \<Rightarrow> 'w transit \<Rightarrow> wh_config \<Rightarrow> str_map \<Rightarrow>
   'w wh_st \<Rightarrow> wh_error option \<times> (string \<times> string) list \<times> 'w wh_st" where
  "wh_inject_secrets_from_vault ord visit L V T C refs st =
     (case preprocess_transit_secrets ord T C refs st of
        (r, em, keep, st1) \<Rightarrow>
          (case preprocess_fails C r of
             Some e \<Rightarrow> (Some e, em, st1)
           | None \<Rightarrow>
               (case wh_inject_refs ord L V T C (visit keep) st1 of
                  (r', em', st2) \<Rightarrow> (r', em @ em', st2))))"

definition wh_get_data_from_vault ::
  "(string list \<Rightarrow> string list) \<Rightarrow> (str_map \<Rightarrow> str_map) \<Rightarrow> libs \<Rightarrow> 'w vault \<Rightarrow> 'w transit \<Rightarrow> wh_config \<Rightarrow> str_map \<Rightarrow>
   'w wh_st \<Rightarrow> wh_error option \<times> str_map \<times> 'w wh_st" where
  "wh_get_data_from_vault ord visit L V T C refs st =
     (case wh_inject_secrets_from_vault ord visit L V T C refs st of
        (r, em, st1) \<Rightarrow> (r, assign_all em [], st1))"

text \<open>\<open>InjectSecretsFromVaultPath\<close> is the code of the other copy.\<close>

definition wh_inject_secrets_from_vault_path ::
  "libs \<Rightarrow> 'w vault \<Rightarrow> wh_config \<Rightarrow> string \<Rightarrow> 'w wh_st \<Rightarrow>
   wh_error option \<times> (string \<times> string) list \<times> 'w wh_st" where
  "wh_inject_secrets_from_vault_path L V C paths st =
     (case inject_secrets_from_vault_path L V (shared_config C) paths (inner st) of
        (r, em, st1) \<Rightarrow> (map_option SharedError r, em, st\<lparr>inner := st1\<rparr>))"

end
