(* ===== verification/Webhook_Injector_Props.thy ===== *)
theory Webhook_Injector_Props
  imports Webhook_Injector Injector_Spec "HOL-Library.Multiset"
begin

text \<open>
  The webhook's copy of the injector: it agrees with the one of the env-injector as long as nothing is
  encrypted and no key is a template, and what it does to a value of the Transit engine.
\<close>

subsection \<open>Values without the marker of a template\<close>

definition no_marker :: "string \<Rightarrow> bool" where
  "no_marker s \<longleftrightarrow> \<not> contains s ''${''"

text \<open>Plain values have no marker, and references inside of a value have none inside of themselves.\<close>

definition simple_value :: "string \<Rightarrow> bool" where
  "simple_value v \<longleftrightarrow>
     (if has_inline_vault_delimiters v then list_all (\<lambda>(m, g). no_marker g) (find_inline_vault_delimiters v)
      else no_marker v)"

lemma no_marker_sublist: "no_marker s \<Longrightarrow> sublist t s \<Longrightarrow> no_marker t"
  by (auto simp: no_marker_def contains_def intro: sublist_order.order_trans)

lemma break_at_sublist: "break_at c s = (a, r) \<Longrightarrow> sublist a s \<and> (\<forall>x. r = Some x \<longrightarrow> sublist x s)"
  by (cases r) (auto dest!: break_at_SomeD break_at_NoneD intro: sublist_appendI [of _ "_ @ [c]" "[]", simplified])

lemma split_n_sublist: "x \<in> set (split_n n c s) \<Longrightarrow> sublist x s"
proof (induction n c s rule: split_n.induct)
  case (3 n c s)
  obtain a r where b: "break_at c s = (a, r)" by (cases "break_at c s")
  with 3 break_at_sublist [OF b] show ?case
    by (auto split: option.splits intro: sublist_order.order_trans)
qed auto

lemma trim_prefix_sublist: "sublist (trim_prefix s p) s"
  by (simp add: trim_prefix_def)

lemma no_marker_template: "no_marker s \<Longrightarrow> \<not> is_go_template (new_templater default_left_delimiter r) s"
  by (simp add: no_marker_def is_go_template_def new_templater_def default_left_delimiter_def)

lemma weave_sublist: "length gs = Suc (length ms) \<Longrightarrow> m \<in> set ms \<Longrightarrow> sublist m (weave gs ms)"
proof (induction gs ms rule: weave.induct)
  case (1 g gs m' ms)
  show ?case
  proof (cases "m = m'")
    case True
    then show ?thesis by simp
  next
    case False
    with 1 have "sublist m (weave gs ms)" by simp
    then show ?thesis by (metis append.assoc sublist_def weave.simps(1))
  qed
qed auto

lemma no_marker_no_inline: "no_marker s \<Longrightarrow> \<not> has_inline_vault_delimiters s"
proof
  assume s: "no_marker s" and "has_inline_vault_delimiters s"
  then obtain m g where mg: "(m, g) \<in> set (scan_refs s)"
    by (cases "scan_refs s") (auto simp: has_inline_vault_delimiters_def find_inline_scan)
  obtain gs where "length gs = Suc (length (scan_refs s))" "s = weave gs (map fst (scan_refs s))"
    using scan_refs_weave by blast
  with mg have "sublist m s" using weave_sublist [of gs "map fst (scan_refs s)" m] by force
  with scan_refs_shape [OF mg] s show False
    using no_marker_sublist [of s "''${''"] by (auto simp: no_marker_def contains_def intro: sublist_order.order_trans)
qed

subsection \<open>Agreement of the two copies\<close>

text \<open>A result of the shared code as a result of the webhook's copy.\<close>

definition lift_result :: "'w wh_st \<Rightarrow> inj_error option \<times> 'a \<times> 'w inj_st \<Rightarrow> wh_error option \<times> 'a \<times> 'w wh_st" where
  "lift_result st x = (case x of (r, y, st1) \<Rightarrow> (map_option SharedError r, y, st\<lparr>inner := st1\<rparr>))"

definition lift_sum :: "'w wh_st \<Rightarrow> (inj_error + 'a) \<times> 'w inj_st \<Rightarrow> (wh_error + 'a) \<times> 'w wh_st" where
  "lift_sum st x = (case x of (r, st1) \<Rightarrow> (map_sum SharedError id r, st\<lparr>inner := st1\<rparr>))"

lemma wh_pick_value_eq: "no_marker key \<Longrightarrow> wh_pick_value L path key d = pick_value L path key d"
  by (simp add: wh_pick_value_def pick_value_def no_marker_template)

lemma wh_cached_read_eq:
  "wh_cached_read L V C path v u st =
     (case cached_read L V (shared_config C) path v u (inner st) of (r, st1) \<Rightarrow> (r, st\<lparr>inner := st1\<rparr>))"
  by (simp add: wh_cached_read_def cached_read_def wh_read_vault_path_def split: option.splits prod.splits)

lemma wh_resolve_ref_eq:
  "no_marker key \<Longrightarrow> wh_resolve_ref L V C path key v u st = lift_sum st (resolve_ref L V (shared_config C) path key v u (inner st))"
  by (auto simp: wh_resolve_ref_def wh_cached_read_eq resolve_ref_def lift_sum_def wh_pick_value_eq shared_config_def
      split: prod.splits sum.splits option.splits)

lemma split_key_no_marker:
  assumes "no_marker v" "split_n 3 (CHR ''#'') (trim_prefix v p) = path # key # rest"
  shows "no_marker key"
proof -
  have "sublist key (trim_prefix v p)" by (rule split_n_sublist [of _ 3 "CHR ''#''"]) (simp add: assms(2))
  then show ?thesis using assms(1) trim_prefix_sublist no_marker_sublist by blast
qed

lemma wh_resolve_plain_eq:
  assumes "\<forall>s. \<not> is_encrypted T s" "no_marker v"
  shows "wh_resolve_plain L V T C name v st = lift_sum st (resolve_plain L V (shared_config C) name v (inner st))"
proof -
  let ?v = "if has_prefix v ''>>secrets-store:'' then trim_prefix v ''>>'' else v"
  have "no_marker ?v" using assms(2) trim_prefix_sublist no_marker_sublist by auto
  note key = split_key_no_marker [OF this, of "''secrets-store:''"]
  show ?thesis
    unfolding wh_resolve_plain_def resolve_plain_def Let_def
    using key assms(1) by (auto simp: lift_sum_def wh_resolve_ref_eq split: list.splits)
qed

lemma encrypted_values_none: "\<forall>s. \<not> is_encrypted T s \<Longrightarrow> encrypted_values T refs = []"
  by (induction refs) (auto simp: encrypted_values_def)

lemma replace_cached_empty: "replace_cached Map.empty v = v"
proof -
  have "foldl (\<lambda>new (m, g). case Map.empty m of Some d \<Rightarrow> replace_all v m d | None \<Rightarrow> new) w ms = w" for w ms
    by (induction ms arbitrary: w) auto
  then show ?thesis by (simp add: replace_cached_def)
qed

lemma inject_cached_none: "\<forall>s. \<not> is_encrypted T s \<Longrightarrow> inject_cached T Map.empty refs = ([], refs)"
  by (induction refs) (auto simp: replace_cached_empty)

lemma preprocess_none:
  assumes "\<forall>s. \<not> is_encrypted T s" "transit_cache st = Map.empty" "ord [] = []"
  shows "preprocess_transit_secrets ord T C refs st = (None, [], refs, st)"
  using assms by (simp add: preprocess_transit_secrets_def encrypted_values_none paginate_def inject_cached_none)

lemma agreement:
  assumes T: "\<forall>s. \<not> is_encrypted T s" and ord: "ord [] = []"
  shows "list_all (simple_value \<circ> snd) refs \<Longrightarrow> transit_cache st = Map.empty \<Longrightarrow>
      wh_inject_refs ord L V T C refs st = lift_result st (inject_refs L V (shared_config C) refs (inner st))"
    and "no_marker v \<Longrightarrow> transit_cache st = Map.empty \<Longrightarrow>
      wh_data_for ord L V T C name v st = lift_result st (get_data_from_vault L V (shared_config C) [(name, v)] (inner st))"
    and "list_all (\<lambda>(m, g). no_marker g) ms \<Longrightarrow> transit_cache st = Map.empty \<Longrightarrow>
      wh_subst_refs ord L V T C name ms v st = lift_sum st (subst_refs L V (shared_config C) name ms v (inner st))"
  using T ord
proof (induction ord L V T C refs st and ord L V T C name v st and ord L V T C name ms v st
    rule: wh_inject_refs_wh_data_for_wh_subst_refs.induct)
  case (2 ord L V T C name "value" refs st)
  show ?case
  proof (cases "has_inline_vault_delimiters value")
    case True
    with 2 show ?thesis
      by (auto simp: simple_value_def lift_result_def lift_sum_def split: prod.splits sum.splits)
  next
    case False
    then have p: "wh_resolve_plain L V T C name value st = lift_sum st (resolve_plain L V (shared_config C) name value (inner st))"
      using 2 by (intro wh_resolve_plain_eq) (auto simp: simple_value_def)
    with False 2 show ?thesis
      by (auto simp: lift_result_def lift_sum_def split: prod.splits sum.splits option.splits)
  qed
next
  case (3 ord L V T C name "value" st)
  then show ?case
    by (simp add: preprocess_none preprocess_fails_def lift_result_def simple_value_def no_marker_no_inline split: prod.splits)
next
  case (5 ord L V T C name m0 m1 ms "value" st)
  then show ?case
    by (auto simp: lift_result_def lift_sum_def split: prod.splits sum.splits option.splits)
qed (auto simp: lift_result_def lift_sum_def)

text \<open>C34: as long as the Transit engine recognises nothing and no key is a template, the webhook's copy of
  the injector does what the one of the env-injector does: the same values in the same order, the same
  errors, the same calls to Vault and the same cache.\<close>

theorem webhook_injector_agrees:
  assumes "\<forall>s. \<not> is_encrypted T s" "transit_cache st = Map.empty" "ord [] = []"
    and "list_all (simple_value \<circ> snd) (visit refs)"
  shows "wh_inject_secrets_from_vault ord visit L V T C refs st =
    lift_result st (inject_secrets_from_vault L V (shared_config C) (visit refs) (inner st))"
  using agreement(1) [where ord = ord and st = st, OF assms(1) assms(3) assms(4) assms(2)]
  by (simp add: wh_inject_secrets_from_vault_def inject_secrets_from_vault_def preprocess_none [where ord = ord, OF assms(1) assms(2) assms(3)]
      preprocess_fails_def lift_result_def split: prod.splits)

definition plain_transit :: "nat transit" where
  "plain_transit = \<lparr>is_encrypted = (\<lambda>_. False), decrypt_batch = (\<lambda>_ _ _ w. (None, [], w)),
     decrypt = (\<lambda>_ _ _ w. (Inl ''not encrypted'', w))\<rparr>"

definition plain_wh_config :: wh_config where
  "plain_wh_config = \<lparr>transit_key_id = '''', transit_path = '''', transit_batch_size = 0,
     wh_ignore_missing = False, wh_daemon_mode = False\<rparr>"

theorem webhook_injector_agrees_witness:
  "fst (snd (wh_inject_secrets_from_vault id rev kv_libs kv_store plain_transit plain_wh_config
     [(''A'', ''secrets-store:p#k''), (''B'', ''x-${secrets-store:p#k}'')] (new_wh_injector 0))) =
   [(''B'', ''x-v''), (''A'', ''v'')]"
proof -
  let ?refs = "[(''A'', ''secrets-store:p#k''), (''B'', ''x-${secrets-store:p#k}'')]"
  have "list_all (simple_value \<circ> snd) (rev ?refs)" by code_simp
  then have "wh_inject_secrets_from_vault id rev kv_libs kv_store plain_transit plain_wh_config ?refs (new_wh_injector 0) =
      lift_result (new_wh_injector 0) (inject_secrets_from_vault kv_libs kv_store (shared_config plain_wh_config)
        (rev ?refs) (inner (new_wh_injector 0)))"
    by (intro webhook_injector_agrees) (simp_all add: plain_transit_def new_wh_injector_def)
  moreover have "fst (snd (inject_secrets_from_vault kv_libs kv_store (shared_config plain_wh_config)
      (rev ?refs) (inner (new_wh_injector 0)))) = [(''B'', ''x-v''), (''A'', ''v'')]"
    by code_simp
  ultimately show ?thesis by (simp add: lift_result_def split: prod.splits)
qed

subsection \<open>Values of the Transit engine\<close>

lemma subseq_distinct: "subseq xs ys \<Longrightarrow> distinct ys \<Longrightarrow> distinct xs"
  by (induction rule: list_emb.induct) (auto dest: list_emb_set)

lemma inject_cached_refs:
  "inject_cached T cache refs = (em, keep) \<Longrightarrow>
   subseq keep refs \<and> ((n, c) \<in> set refs \<and> \<not> has_inline_vault_delimiters c \<longrightarrow> (n, c) \<in> set keep)"
  by (induction refs arbitrary: em keep)
     (fastforce split: prod.splits if_splits option.splits)+

lemma inject_cached_emits:
  "inject_cached T cache refs = (em, keep) \<Longrightarrow>
   subseq (map fst em) (map fst refs) \<and>
   ((n, c) \<in> set refs \<and> \<not> has_inline_vault_delimiters c \<and> is_encrypted T c \<and> cache c = Some d \<longrightarrow> (n, d) \<in> set em)"
  by (induction refs arbitrary: em keep)
     (fastforce split: prod.splits if_splits option.splits)+

lemma wh_inject_refs_emits:
  "wh_inject_refs ord L V T C refs st = (None, em, st') \<Longrightarrow>
   subseq (map fst em) (map fst refs) \<and>
   ((n, c) \<in> set refs \<and> \<not> has_inline_vault_delimiters c \<and> \<not> is_valid_prefix c \<longrightarrow> (n, c) \<in> set em)"
proof (induction refs arbitrary: st em)
  case (Cons nv refs)
  obtain n' v where nv: "nv = (n', v)" by (cases nv)
  have plain: "wh_resolve_plain L V T C n' v st = (Inr (Some v), st)" if "\<not> is_valid_prefix v"
    using that by (simp add: wh_resolve_plain_def is_valid_prefix_def)
  show ?case
  proof (cases "has_inline_vault_delimiters v")
    case True
    with Cons.prems nv obtain x st1 em1 where "wh_inject_refs ord L V T C refs st1 = (None, em1, st')" "em = (n', x) # em1"
      by (auto split: prod.splits sum.splits)
    with Cons.IH [of st1 em1] True nv show ?thesis by auto
  next
    case False
    obtain r st1 where r: "wh_resolve_plain L V T C n' v st = (r, st1)" by (cases "wh_resolve_plain L V T C n' v st")
    with Cons.prems nv False obtain x em1 where x: "r = Inr x" "wh_inject_refs ord L V T C refs st1 = (None, em1, st')"
      "em = (case x of None \<Rightarrow> em1 | Some y \<Rightarrow> (n', y) # em1)"
      by (auto split: prod.splits sum.splits option.splits)
    with Cons.IH [of st1 em1] nv r plain show ?thesis
      by (auto split: option.splits)
  qed
qed simp

text \<open>C35: a value that the Transit engine recognises, with no reference inside and no prefix of a reference, is
  delivered encrypted. The preprocessing injects the decrypted text for it, but leaves the reference in the map,
  and the main loop injects the encrypted text under the same name afterwards.\<close>

theorem decrypted_value_is_overwritten:
  assumes "distinct_keys refs" "(n, c) \<in> set refs" "\<not> has_inline_vault_delimiters c" "\<not> is_valid_prefix c"
    and "\<forall>xs. mset (visit xs) = mset xs"
    and pre: "preprocess_transit_secrets ord T C refs st = (None, em, keep, st1)"
    and "is_encrypted T c" "transit_cache st1 c = Some d"
    and run: "wh_get_data_from_vault ord visit L V T C refs st = (None, m, st')"
  shows "map_of (assign_all em []) n = Some d \<and> map_of m n = Some c"
proof -
  obtain em' where loop: "wh_inject_refs ord L V T C (visit keep) st1 = (None, em', st')" and m: "m = assign_all (em @ em') []"
    using run pre by (auto simp: wh_get_data_from_vault_def wh_inject_secrets_from_vault_def preprocess_fails_def split: prod.splits)
  have cached: "inject_cached T (transit_cache st1) refs = (em, keep)"
    using pre by (auto simp: preprocess_transit_secrets_def Let_def split: option.splits prod.splits)
  have "(n, d) \<in> set em" "distinct_keys em"
    using inject_cached_emits [OF cached, of n c d] assms(1,2,3,7,8) subseq_distinct by auto
  then have d: "map_of (assign_all em []) n = Some d" by (simp add: map_of_assign_all map_of_rev_distinct)
  have keep: "subseq keep refs" "(n, c) \<in> set keep"
    using assms(2,3) inject_cached_refs [OF cached, of n c] by auto
  then have "distinct_keys keep" using assms(1) subseq_map subseq_distinct by blast
  moreover have v: "mset (visit keep) = mset keep" using assms(5) by simp
  ultimately have dv: "distinct_keys (visit keep)" by (metis mset_eq_imp_distinct_iff mset_map)
  have "(n, c) \<in> set (visit keep)" using keep(2) v by (metis set_mset_mset)
  with wh_inject_refs_emits [OF loop, of n c] assms(3,4) dv
  have "(n, c) \<in> set em'" "distinct_keys em'" using subseq_distinct by auto
  then have "map_of (rev em') n = Some c" by (simp add: map_of_rev_distinct)
  then show ?thesis using d by (simp add: m map_of_assign_all map_add_def)
qed

definition demo_transit :: "nat transit" where
  "demo_transit = \<lparr>is_encrypted = (\<lambda>s. has_prefix s ''vault:v1:''),
     decrypt_batch = (\<lambda>_ _ ss w. (None, map (\<lambda>s. (s, ''plain'')) ss, w)),
     decrypt = (\<lambda>_ _ _ w. (Inr ''plain'', w))\<rparr>"

definition demo_wh_config :: wh_config where
  "demo_wh_config = \<lparr>transit_key_id = ''key'', transit_path = ''transit'', transit_batch_size = 25,
     wh_ignore_missing = False, wh_daemon_mode = False\<rparr>"

definition demo_refs :: str_map where
  "demo_refs = [(''PASSWORD'', ''vault:v1:abc'')]"

definition demo_wh_run :: "wh_error option \<times> str_map \<times> nat wh_st" where
  "demo_wh_run = wh_get_data_from_vault id id kv_libs kv_store demo_transit demo_wh_config demo_refs (new_wh_injector 0)"

theorem decrypted_value_is_overwritten_witness:
  "\<exists>em keep st1. preprocess_transit_secrets id demo_transit demo_wh_config demo_refs (new_wh_injector 0) = (None, em, keep, st1) \<and>
     map_of (assign_all em []) ''PASSWORD'' = Some ''plain'' \<and> map_of (fst (snd demo_wh_run)) ''PASSWORD'' = Some ''vault:v1:abc''"
proof -
  let ?pre = "preprocess_transit_secrets id demo_transit demo_wh_config demo_refs (new_wh_injector 0)"
  have ok: "fst demo_wh_run = None" by code_simp
  have p: "fst ?pre = None" "transit_cache (snd (snd (snd ?pre))) ''vault:v1:abc'' = Some ''plain''" by code_simp+
  obtain em keep st1 where pre: "?pre = (None, em, keep, st1)" using p(1) by (metis prod.collapse)
  have "\<not> has_inline_vault_delimiters ''vault:v1:abc''" "\<not> is_valid_prefix ''vault:v1:abc''"
    "is_encrypted demo_transit ''vault:v1:abc''" "distinct_keys demo_refs" "(''PASSWORD'', ''vault:v1:abc'') \<in> set demo_refs"
    by code_simp+
  then show ?thesis
    using decrypted_value_is_overwritten [OF _ _ _ _ _ pre, of "''PASSWORD''" "''vault:v1:abc''" id "''plain''"
        kv_libs kv_store "fst (snd demo_wh_run)" "snd (snd demo_wh_run)"] ok p(2) pre
    by (simp add: demo_wh_run_def prod_eq_iff)
qed

end
