(* ===== verification/Go_Slog.thy ===== *)
theory Go_Slog
  imports Prelude Go_Time
begin

text \<open>
  Levels and handlers of the package \<open>log/slog\<close>, and the router of the library slog-multi that the
  webhook puts in front of its handlers. The router is a parameter; \<open>route_lawful\<close> is what its
  documentation promises.
\<close>

subsection \<open>Levels\<close>

definition level_debug :: int where "level_debug = - 4"

definition level_info :: int where "level_info = 0"

definition level_warn :: int where "level_warn = 4"

definition level_error :: int where "level_error = 8"

text \<open>Go's \<open>int\<close>: addition wraps around.\<close>

definition wrap_int :: "int \<Rightarrow> int" where
  "wrap_int n = (n + 2 ^ 63) mod 2 ^ 64 - 2 ^ 63"

text \<open>\<open>strconv.Atoi\<close>.\<close>

definition atoi :: "string \<Rightarrow> int option" where
  "atoi s =
     (let (neg, ds) = (case s of [] \<Rightarrow> (False, s)
          | c # cs \<Rightarrow> if c = CHR ''-'' then (True, cs) else if c = CHR ''+'' then (False, cs) else (False, s));
          n = (if neg then - dval 0 ds else dval 0 ds)
      in if ds = [] \<or> \<not> list_all is_digit ds \<or> n < - (2 ^ 63) \<or> 2 ^ 63 \<le> n then None else Some n)"

text \<open>
  \<open>strings.ToUpper\<close>, as far as comparing with ASCII text can tell: the letters of ASCII, and the two other
  runes whose upper case is one, dotless i and long s. A letter differs from its upper case in one bit.
\<close>

fun upper_char :: "char \<Rightarrow> char" where
  "upper_char (Char b0 b1 b2 b3 b4 b5 b6 b7) =
     (if \<not> b7 \<and> b6 \<and> b5 \<and> (b0 \<or> b1 \<or> b2 \<or> b3 \<or> b4) \<and> \<not> (b4 \<and> b3 \<and> (b2 \<or> b1 \<and> b0))
      then Char b0 b1 b2 b3 b4 False b6 b7
      else Char b0 b1 b2 b3 b4 b5 b6 b7)"

lemma upper_char_text:
  "map upper_char ''abcdefghijklmnopqrstuvwxyz'' = ''ABCDEFGHIJKLMNOPQRSTUVWXYZ''"
  "map upper_char ''ABCXYZ019_+-@[`{'' = ''ABCXYZ019_+-@[`{''"
  by simp_all

fun to_upper :: "string \<Rightarrow> string" where
  "to_upper (c # d # cs) =
     (if c = CHR 0xC4 \<and> d = CHR 0xB1 then CHR ''I'' # to_upper cs
      else if c = CHR 0xC5 \<and> d = CHR 0xBF then CHR ''S'' # to_upper cs
      else upper_char c # to_upper (d # cs))"
| "to_upper [c] = [upper_char c]"
| "to_upper [] = []"

definition named_level :: "string \<Rightarrow> int option" where
  "named_level s =
     map_of [(''DEBUG'', level_debug), (''INFO'', level_info), (''WARN'', level_warn), (''ERROR'', level_error)] (to_upper s)"

text \<open>\<open>Level.UnmarshalText\<close>: a name, with an offset from its first sign on.\<close>

definition is_sign :: "char \<Rightarrow> bool" where
  "is_sign c \<longleftrightarrow> c = CHR ''+'' \<or> c = CHR ''-''"

definition parse_level :: "string \<Rightarrow> int option" where
  "parse_level s =
     (let name = takeWhile (\<lambda>c. \<not> is_sign c) s; rest = dropWhile (\<lambda>c. \<not> is_sign c) s
      in case (if rest = [] then Some 0 else atoi rest) of
           None \<Rightarrow> None
         | Some off \<Rightarrow> map_option (\<lambda>l. wrap_int (l + off)) (named_level name))"

subsection \<open>Handlers\<close>

datatype stream = Stdout | Stderr

datatype log_format = JsonFormat | TextFormat

record log_handler =
  lh_stream :: stream
  lh_format :: log_format
  lh_level :: int

text \<open>A handler with the predicates of its route; the lines a record leaves, by handler.\<close>

type_synonym routes = "(log_handler \<times> (int \<Rightarrow> bool) list) list"

text \<open>
  The router of slog-multi sends a record to every handler that is enabled for its level and whose
  predicates all hold.
\<close>

definition route_lawful :: "(routes \<Rightarrow> int \<Rightarrow> log_handler list) \<Rightarrow> bool" where
  "route_lawful route \<longleftrightarrow>
     (\<forall>hs l. route hs l = map fst (filter (\<lambda>(h, ps). lh_level h \<le> l \<and> (\<forall>p \<in> set ps. p l)) hs))"

definition level_filter :: "int list \<Rightarrow> int \<Rightarrow> bool" where
  "level_filter levels l = (l \<in> set levels)"

definition log_format_of :: "bool \<Rightarrow> log_format" where
  "log_format_of json = (if json then JsonFormat else TextFormat)"

lemma standard_levels [simp]:
  "named_level ''debug'' = Some (- 4)" "named_level ''info'' = Some 0" "named_level ''warn'' = Some 4"
  "named_level ''error'' = Some 8"
  by code_simp+

end
