(* ===== verification/Webhook_Log.thy ===== *)
theory Webhook_Log
  imports Webhook_Mutator Webhook_Props Go_Slog
begin

text \<open>
  The settings of the webhook and what it logs: viper with its defaults and environment, the loggers of
  \<^verbatim>\<open>main.go\<close> and of the image registry, the adapters \<^verbatim>\<open>webhook_logger.go\<close> and \<^verbatim>\<open>client_logger.go\<close>, and
  \<open>ErrorLoggerMutator\<close>.
\<close>

subsection \<open>Settings\<close>

text \<open>
  The library viper as a function of the calls made on it so far: with \<open>AutomaticEnv\<close> a variable of the
  process, named like the key in upper case, wins over a default, unless it is empty. \<open>GetBool\<close> and \<open>GetStringSlice\<close>
  convert the text, like \<open>strconv.ParseBool\<close> and \<open>strings.Fields\<close>.
\<close>

datatype viper_call = SetDefault string string | AutomaticEnv

record viper =
  viper_get :: "viper_call list \<Rightarrow> environ \<Rightarrow> string \<Rightarrow> string"
  to_bool_cast :: "string \<Rightarrow> bool"
  to_slice_cast :: "string \<Rightarrow> string list"

fun defaults_of :: "viper_call list \<Rightarrow> str_map" where
  "defaults_of [] = []"
| "defaults_of (SetDefault k v # cs) = (k, v) # defaults_of cs"
| "defaults_of (AutomaticEnv # cs) = defaults_of cs"

definition viper_lawful :: "viper \<Rightarrow> bool" where
  "viper_lawful G \<longleftrightarrow>
     (\<forall>calls env k. viper_get G calls env k =
        (if AutomaticEnv \<in> set calls \<and> getenv env (to_upper k) \<noteq> '''' then getenv env (to_upper k)
         else str_get (rev (defaults_of calls)) k)) \<and>
     to_bool_cast G = parse_bool_or_false \<and> to_slice_cast G = strings_fields"

definition viper_settings :: "viper \<Rightarrow> viper_call list \<Rightarrow> environ \<Rightarrow> settings" where
  "viper_settings G calls env =
     \<lparr>setting = viper_get G calls env, setting_bool = (\<lambda>k. to_bool_cast G (viper_get G calls env k)),
      setting_list = (\<lambda>k. to_slice_cast G (viper_get G calls env k))\<rparr>"

definition set_config_defaults :: "viper_call list" where
  "set_config_defaults = map (\<lambda>(k, v). SetDefault k v) config_defaults @ [AutomaticEnv]"

subsection \<open>The two loggers\<close>

definition log_level_of :: "settings \<Rightarrow> int" where
  "log_level_of Z = (case parse_level (setting Z ''log_level'') of Some l \<Rightarrow> l | None \<Rightarrow> level_info)"

definition main_routes :: "settings \<Rightarrow> routes" where
  "main_routes Z =
     (let f = log_format_of (setting_bool Z ''enable_json_log'')
      in [(\<lparr>lh_stream = Stderr, lh_format = f, lh_level = level_warn\<rparr>, [level_filter [level_warn, level_error]]),
          (\<lparr>lh_stream = Stdout, lh_format = f, lh_level = log_level_of Z\<rparr>, [level_filter [level_debug, level_info]])])"

definition registry_routes :: "settings \<Rightarrow> routes" where
  "registry_routes Z =
     (let f = log_format_of (setting_bool Z ''enable_json_log'')
      in [(\<lparr>lh_stream = Stderr, lh_format = f, lh_level = level_warn\<rparr>, []),
          (\<lparr>lh_stream = Stdout, lh_format = f, lh_level = level_debug\<rparr>, [level_filter [level_debug, level_info]])])"

text \<open>
  Go initialises the package of the registry before \<open>main\<close>, whose \<open>init\<close> registers the defaults: the calls
  on viper that each logger's construction has seen.
\<close>

definition registry_logger :: "viper \<Rightarrow> environ \<Rightarrow> routes" where
  "registry_logger G env = registry_routes (viper_settings G [] env)"

definition main_logger :: "viper \<Rightarrow> environ \<Rightarrow> routes" where
  "main_logger G env = main_routes (viper_settings G set_config_defaults env)"

subsection \<open>The adapters\<close>

text \<open>A line: level, message, and the attributes of the logger and of the call.\<close>

record log_line =
  ll_level :: int
  ll_message :: string
  ll_attrs :: str_map

text \<open>\<open>whLogger\<close> is a logger with attributes; \<open>sprintf\<close> formats, \<open>visit\<close> is the order in which Go ranges over a map.\<close>

definition wh_with_values :: "(str_map \<Rightarrow> str_map) \<Rightarrow> str_map \<Rightarrow> str_map \<Rightarrow> str_map" where
  "wh_with_values visit kv attrs = attrs @ visit kv"

definition wh_with_ctx_values :: "(str_map \<Rightarrow> str_map) \<Rightarrow> str_map \<Rightarrow> str_map \<Rightarrow> str_map" where
  "wh_with_ctx_values visit ctx attrs = attrs @ visit ctx"

definition wh_infof :: "(string \<Rightarrow> string list \<Rightarrow> string) \<Rightarrow> str_map \<Rightarrow> string \<Rightarrow> string list \<Rightarrow> log_line" where
  "wh_infof sprintf attrs format args = \<lparr>ll_level = level_info, ll_message = sprintf format args, ll_attrs = attrs\<rparr>"

definition wh_warningf :: "(string \<Rightarrow> string list \<Rightarrow> string) \<Rightarrow> str_map \<Rightarrow> string \<Rightarrow> string list \<Rightarrow> log_line" where
  "wh_warningf sprintf attrs format args = \<lparr>ll_level = level_warn, ll_message = sprintf format args, ll_attrs = attrs\<rparr>"

definition wh_errorf :: "(string \<Rightarrow> string list \<Rightarrow> string) \<Rightarrow> str_map \<Rightarrow> string \<Rightarrow> string list \<Rightarrow> log_line" where
  "wh_errorf sprintf attrs format args = \<lparr>ll_level = level_error, ll_message = sprintf format args, ll_attrs = attrs\<rparr>"

definition wh_debugf :: "(string \<Rightarrow> string list \<Rightarrow> string) \<Rightarrow> str_map \<Rightarrow> string \<Rightarrow> string list \<Rightarrow> log_line" where
  "wh_debugf sprintf attrs format args = \<lparr>ll_level = level_debug, ll_message = sprintf format args, ll_attrs = attrs\<rparr>"

text \<open>\<open>clientLogger\<close>: the arguments are maps.\<close>

definition args_to_attrs :: "(str_map \<Rightarrow> str_map) \<Rightarrow> str_map list \<Rightarrow> str_map" where
  "args_to_attrs visit args = concat (map visit args)"

datatype client_level = ClientTrace | ClientDebug | ClientInfo | ClientWarn | ClientError

definition client_log :: "(str_map \<Rightarrow> str_map) \<Rightarrow> client_level \<Rightarrow> string \<Rightarrow> str_map list \<Rightarrow> log_line" where
  "client_log visit lv msg args =
     \<lparr>ll_level = (case lv of ClientTrace \<Rightarrow> level_debug | ClientDebug \<Rightarrow> level_debug | ClientInfo \<Rightarrow> level_info
        | ClientWarn \<Rightarrow> level_warn | ClientError \<Rightarrow> level_error),
      ll_message = msg, ll_attrs = args_to_attrs visit args\<rparr>"

subsection \<open>ErrorLoggerMutator\<close>

definition error_logger_mutator ::
  "(string \<Rightarrow> string list \<Rightarrow> string) \<Rightarrow> (str_map \<Rightarrow> str_map) \<Rightarrow> ('e \<Rightarrow> string) \<Rightarrow> str_map \<Rightarrow>
   ('o \<Rightarrow> 's \<Rightarrow> 'e option \<times> 'r \<times> 's) \<Rightarrow> 'o \<Rightarrow> 's \<Rightarrow> 'e option \<times> 'r \<times> 's \<times> log_line list" where
  "error_logger_mutator sprintf visit err_text ctx mutator ob s =
     (case mutator ob s of
        (e, r, s') \<Rightarrow>
          (e, r, s', (case e of
             None \<Rightarrow> []
           | Some x \<Rightarrow> [wh_errorf sprintf (wh_with_values visit [(''error'', err_text x)] (wh_with_ctx_values visit ctx []))
                          ''Admission review request failed'' []])))"

subsection \<open>Lemmas\<close>

lemmas level_defs = level_debug_def level_info_def level_warn_def level_error_def

lemma defaults_of_map: "defaults_of (map (\<lambda>(k, v). SetDefault k v) kvs @ [AutomaticEnv]) = kvs"
  by (induction kvs) auto

lemma viper_before_defaults: "viper_lawful G \<Longrightarrow> viper_get G [] env k = ''''"
  by (simp add: viper_lawful_def str_get_def)

lemma viper_with_defaults:
  "viper_lawful G \<Longrightarrow> viper_get G set_config_defaults env k =
     (if getenv env (to_upper k) \<noteq> '''' then getenv env (to_upper k) else str_get (rev config_defaults) k)"
  by (simp add: viper_lawful_def set_config_defaults_def defaults_of_map)

lemma viper_casts: "viper_lawful G \<Longrightarrow> to_bool_cast G = parse_bool_or_false" "viper_lawful G \<Longrightarrow> to_slice_cast G = strings_fields"
  by (simp_all add: viper_lawful_def)

declare to_upper.simps [simp del]

lemma errors_to_stderr:
  assumes "route_lawful route"
  shows "map lh_stream (route (main_logger G env) level_error) = [Stderr]"
  using assms unfolding route_lawful_def main_logger_def main_routes_def Let_def
  by (auto simp: level_filter_def level_defs)

subsection \<open>Properties\<close>

text \<open>Every message of the webhook goes to exactly one stream or to none: warnings and errors to standard
  error whatever level is set, the rest to standard output from the set level on. The level is that of
  \<open>LOG_LEVEL\<close>, and \<open>info\<close> if the variable is missing, empty or no level; both streams have the format of
  \<open>ENABLE_JSON_LOG\<close>.\<close>

theorem main_log_streams:
  assumes "viper_lawful G" "route_lawful route" "l \<in> {level_debug, level_info, level_warn, level_error}"
  shows "route (main_logger G env) l =
    (let f = log_format_of (parse_bool (getenv env ''ENABLE_JSON_LOG'') = Some True);
         lv = (case parse_level (getenv env ''LOG_LEVEL'') of Some x \<Rightarrow> x | None \<Rightarrow> level_info)
     in if level_warn \<le> l then [\<lparr>lh_stream = Stderr, lh_format = f, lh_level = level_warn\<rparr>]
        else if lv \<le> l then [\<lparr>lh_stream = Stdout, lh_format = f, lh_level = lv\<rparr>]
        else [])"
proof -
  let ?Z = "viper_settings G set_config_defaults env"
  have names: "to_upper ''enable_json_log'' = ''ENABLE_JSON_LOG''" "to_upper ''log_level'' = ''LOG_LEVEL''"
    "str_get (rev config_defaults) ''enable_json_log'' = ''false''" "str_get (rev config_defaults) ''log_level'' = ''info''"
    "parse_bool ''false'' = Some False" "parse_bool '''' = None" "parse_level ''info'' = Some level_info" "parse_level '''' = None"
    by code_simp+
  have f: "setting_bool ?Z ''enable_json_log'' = (parse_bool (getenv env ''ENABLE_JSON_LOG'') = Some True)"
    by (simp add: viper_settings_def viper_with_defaults [OF assms(1)] viper_casts [OF assms(1)] names parse_bool_or_false_def)
  have lv: "log_level_of ?Z = (case parse_level (getenv env ''LOG_LEVEL'') of Some x \<Rightarrow> x | None \<Rightarrow> level_info)"
    by (simp add: log_level_of_def viper_settings_def viper_with_defaults [OF assms(1)] names)
  show ?thesis
    using assms(2,3) unfolding route_lawful_def main_logger_def main_routes_def f lv Let_def
    by (auto simp: level_filter_def level_defs)
qed

definition plain_viper :: viper where
  "plain_viper =
     \<lparr>viper_get = (\<lambda>calls env k. if AutomaticEnv \<in> set calls \<and> getenv env (to_upper k) \<noteq> '''' then getenv env (to_upper k)
         else str_get (rev (defaults_of calls)) k),
      to_bool_cast = parse_bool_or_false, to_slice_cast = strings_fields\<rparr>"

definition plain_route :: "routes \<Rightarrow> int \<Rightarrow> log_handler list" where
  "plain_route hs l = map fst (filter (\<lambda>(h, ps). lh_level h \<le> l \<and> (\<forall>p \<in> set ps. p l)) hs)"

lemma plain_laws: "viper_lawful plain_viper" "route_lawful plain_route"
  by (simp_all add: viper_lawful_def plain_viper_def route_lawful_def plain_route_def)

theorem main_log_streams_witness:
  "map (plain_route (main_logger plain_viper [''LOG_LEVEL=error'', ''ENABLE_JSON_LOG=1''])) [level_info, level_warn] =
     [[], [\<lparr>lh_stream = Stderr, lh_format = JsonFormat, lh_level = 4\<rparr>]]"
proof -
  let ?env = "[''LOG_LEVEL=error'', ''ENABLE_JSON_LOG=1'']"
  have e: "parse_bool (getenv ?env ''ENABLE_JSON_LOG'') = Some True" "parse_level (getenv ?env ''LOG_LEVEL'') = Some 8"
    by code_simp+
  show ?thesis
    using main_log_streams [OF plain_laws, of level_info ?env] main_log_streams [OF plain_laws, of level_warn ?env]
    by (simp add: e log_format_of_def level_defs)
qed

text \<open>The loggers of the registry are built before the settings are there: whatever the environment
  says, they write text, and information and debug messages to standard output whatever the level.\<close>

theorem registry_log_ignores_settings:
  assumes "viper_lawful G" "route_lawful route" "l \<in> {level_debug, level_info, level_warn, level_error}"
  shows "route (registry_logger G env) l =
    (if level_warn \<le> l then [\<lparr>lh_stream = Stderr, lh_format = TextFormat, lh_level = level_warn\<rparr>]
     else [\<lparr>lh_stream = Stdout, lh_format = TextFormat, lh_level = level_debug\<rparr>])"
proof -
  have "viper_get G [] env k = ''''" for k using assms(1) by (rule viper_before_defaults)
  moreover have "to_bool_cast G '''' = False"
    by (simp add: viper_casts [OF assms(1)] parse_bool_or_false_def parse_bool_def)
  ultimately show ?thesis
    using assms(2,3) unfolding route_lawful_def registry_logger_def registry_routes_def viper_settings_def Let_def
    by (auto simp: level_filter_def level_defs log_format_of_def)
qed

theorem registry_log_ignores_settings_witness:
  "plain_route (registry_logger plain_viper [''LOG_LEVEL=error'', ''ENABLE_JSON_LOG=1'']) level_debug =
     [\<lparr>lh_stream = Stdout, lh_format = TextFormat, lh_level = -4\<rparr>]"
  using registry_log_ignores_settings [OF plain_laws, of level_debug] by (simp add: level_defs)


definition bad_role :: role_template where
  "bad_role = \<lparr>template_error = (\<lambda>_. Some ''unclosed''), template_execute = (\<lambda>t _. Inr t)\<rparr>"

definition rejecting_mutator :: "kube_object \<Rightarrow> unit \<Rightarrow> webhook_error option \<times> pod option \<times> unit" where
  "rejecting_mutator = vault_secrets_mutator (\<lambda>_. None) (\<lambda>_. '''') bad_role example_settings example_cluster
     (\<lambda>_ _ _ _ s. (Inl (BadReference ''''), s)) ''web''"


end
