(* ===== verification/Tls_Reloader.thy ===== *)
theory Tls_Reloader
  imports Prelude
begin

text \<open>
  \<^verbatim>\<open>images/vault-secrets-webhook/tlscertificate.go\<close>: the certificate of the webhook's server, reloaded when
  the directory of the certificate changes.

  \<open>load\<close> is \<open>tls.LoadX509KeyPair\<close> in a world of files; the world of every event is part of the sequence
  of events, since the files change between them. A certificate is a value of a type \<open>'c\<close>. The exit of the process when
  the watching of the directory cannot be set up is not modelled: the sequence begins once it is.
\<close>

record 'c reloader =
  tls_cert :: 'c
  cert_path :: string
  key_path :: string

definition new_certificate_reloader ::
  "(string \<Rightarrow> string \<Rightarrow> 'w \<Rightarrow> string + 'c) \<Rightarrow> string \<Rightarrow> string \<Rightarrow> 'w \<Rightarrow> string + 'c reloader" where
  "new_certificate_reloader load cp kp w =
     (case load cp kp w of
        Inl e \<Rightarrow> Inl e
      | Inr c \<Rightarrow> Inr \<lparr>tls_cert = c, cert_path = cp, key_path = kp\<rparr>)"

definition reload :: "(string \<Rightarrow> string \<Rightarrow> 'w \<Rightarrow> string + 'c) \<Rightarrow> 'w \<Rightarrow> 'c reloader \<Rightarrow> string option \<times> 'c reloader" where
  "reload load w k =
     (case load (cert_path k) (key_path k) w of
        Inl e \<Rightarrow> (Some e, k)
      | Inr c \<Rightarrow> (None, k\<lparr>tls_cert := c\<rparr>))"

definition get_certificate :: "'c reloader \<Rightarrow> 'c" where
  "get_certificate k = tls_cert k"

subsection \<open>watchCertificate\<close>

text \<open>\<open>filepath.Base\<close> on a Unix system.\<close>

definition path_base :: "string \<Rightarrow> string" where
  "path_base p =
     (if p = '''' then ''.''
      else let q = rev (dropWhile (\<lambda>c. c = CHR ''/'') (rev p))
           in if q = '''' then ''/'' else rev (takeWhile (\<lambda>c. c \<noteq> CHR ''/'') (rev q)))"

datatype fs_op = FsCreate | FsWrite | FsRemove | FsRename | FsChmod

datatype watcher_event = FsEvent "fs_op list" string | WatcherError string

definition triggers_reload :: "watcher_event \<Rightarrow> bool" where
  "triggers_reload ev =
     (case ev of
        FsEvent ops name \<Rightarrow> (FsCreate \<in> set ops \<or> FsWrite \<in> set ops) \<and> path_base name = ''..data''
      | WatcherError _ \<Rightarrow> False)"

definition watch_certificate_step ::
  "(string \<Rightarrow> string \<Rightarrow> 'w \<Rightarrow> string + 'c) \<Rightarrow> watcher_event \<times> 'w \<Rightarrow> 'c reloader \<Rightarrow> 'c reloader" where
  "watch_certificate_step load ew k = (if triggers_reload (fst ew) then snd (reload load (snd ew) k) else k)"

definition watch_certificate ::
  "(string \<Rightarrow> string \<Rightarrow> 'w \<Rightarrow> string + 'c) \<Rightarrow> (watcher_event \<times> 'w) list \<Rightarrow> 'c reloader \<Rightarrow> 'c reloader" where
  "watch_certificate load evs k = fold (watch_certificate_step load) evs k"

subsection \<open>The certificate that is served\<close>

text \<open>The certificates that the reloading events found, in their order.\<close>

definition loaded_certs ::
  "(string \<Rightarrow> string \<Rightarrow> 'w \<Rightarrow> string + 'c) \<Rightarrow> string \<Rightarrow> string \<Rightarrow> (watcher_event \<times> 'w) list \<Rightarrow> 'c list" where
  "loaded_certs load cp kp evs =
     List.map_filter (\<lambda>(ev, w). if triggers_reload ev
        then (case load cp kp w of Inl _ \<Rightarrow> None | Inr c \<Rightarrow> Some c) else None) evs"

lemma loaded_certs_Cons:
  "loaded_certs load cp kp ((ev, w) # evs) =
     (if triggers_reload ev then (case load cp kp w of Inl _ \<Rightarrow> [] | Inr c \<Rightarrow> [c]) else []) @ loaded_certs load cp kp evs"
  by (simp add: loaded_certs_def map_filter_simps split: sum.splits)

text \<open>C29: the server always serves the certificate of the latest reload that succeeded, the initial one if
  there is none: a reload that fails, an event for another file and an error of the watcher keep it.\<close>

theorem serves_latest_valid_certificate:
  "get_certificate (watch_certificate load evs k) =
     last (tls_cert k # loaded_certs load (cert_path k) (key_path k) evs)"
proof (induction evs arbitrary: k)
  case Nil
  then show ?case by (simp add: watch_certificate_def get_certificate_def loaded_certs_def map_filter_simps)
next
  case (Cons e evs)
  obtain ev w where e: "e = (ev, w)" by (cases e)
  let ?k = "watch_certificate_step load e k"
  have k: "cert_path ?k = cert_path k" "key_path ?k = key_path k"
    by (auto simp: watch_certificate_step_def reload_def split: sum.splits)
  have "watch_certificate load (e # evs) k = watch_certificate load evs ?k"
    by (simp add: watch_certificate_def)
  with Cons.IH [of ?k] k show ?case
    by (auto simp: e loaded_certs_Cons watch_certificate_step_def reload_def split: sum.splits)
qed

end
