(* ===== verification/Webhook_Server.thy ===== *)
theory Webhook_Server
  imports Webhook_Log Tls_Reloader
begin

text \<open>
  \<^verbatim>\<open>images/vault-secrets-webhook/main.go\<close>: which servers the webhook starts, on which addresses, with which
  paths and with or without TLS. Serving itself is a call outside of the repository.
\<close>

subsection \<open>The servers\<close>

datatype route_target = PodsHandler | HealthzHandler | MetricsHandler

record 'c listener =
  l_addr :: string
  l_tls :: "'c reloader option"
  l_mux :: "(string \<times> route_target) list"

text \<open>How \<open>main\<close> ends: with \<open>os.Exit\<close>, with a panic, or by returning.\<close>

datatype main_end = ExitedWith int | Panicked string | Returned

text \<open>
  What \<open>main\<close> calls: \<open>kubernetes.NewForConfig\<close>, the file with the namespace, the recorder of metrics,
  \<open>mutating.NewWebhook\<close> (its error), \<open>tls.LoadX509KeyPair\<close>, and a server that has ended.
\<close>

record ('w, 'c) server_sys =
  k8s_client :: "'w \<Rightarrow> string option \<times> 'w"
  namespace_file :: "'w \<Rightarrow> string option"
  metrics_recorder :: "'w \<Rightarrow> string option \<times> 'w"
  webhook_error_of :: "'w \<Rightarrow> string option"
  load_pair :: "string \<Rightarrow> string \<Rightarrow> 'w \<Rightarrow> string + 'c"
  serve :: "'c listener \<Rightarrow> 'w \<Rightarrow> string option \<times> 'w"

text \<open>The status of \<open>healthzHandler\<close>.\<close>

definition healthz_status :: nat where
  "healthz_status = 200"

definition serve_metrics :: "string \<Rightarrow> 'c listener" where
  "serve_metrics addr = \<lparr>l_addr = addr, l_tls = None, l_mux = [(''/metrics'', MetricsHandler)]\<rparr>"

text \<open>The listener of \<open>newHTTPServer\<close>; the error makes it panic.\<close>

definition new_http_server ::
  "('w, 'c) server_sys \<Rightarrow> string \<Rightarrow> string \<Rightarrow> string \<Rightarrow> (string \<times> route_target) list \<Rightarrow> 'w \<Rightarrow> string + 'c listener" where
  "new_http_server S cert key addr mux w =
     (case new_certificate_reloader (load_pair S) cert key w of
        Inl e \<Rightarrow> Inl (''error loading tls certificate: '' @ e)
      | Inr k \<Rightarrow> Inr \<lparr>l_addr = addr, l_tls = Some k, l_mux = mux\<rparr>)"

text \<open>The server of metrics on its own address, if there is one, and the paths of the main server.\<close>

definition side_listeners :: "settings \<Rightarrow> 'c listener list" where
  "side_listeners Z =
     (if setting Z ''telemetry_listen_address'' \<noteq> '''' then [serve_metrics (setting Z ''telemetry_listen_address'')] else [])"

definition main_mux :: "settings \<Rightarrow> (string \<times> route_target) list" where
  "main_mux Z =
     [(''/pods'', PodsHandler), (''/healthz'', HealthzHandler)] @
     (if setting Z ''telemetry_listen_address'' \<noteq> '''' then [] else [(''/metrics'', MetricsHandler)])"

definition listen_and_serve ::
  "('w, 'c) server_sys \<Rightarrow> settings \<Rightarrow> 'w \<Rightarrow> main_end \<times> 'c listener list \<times> 'w" where
  "listen_and_serve S Z w =
     (let cert = setting Z ''tls_cert_file''; key = setting Z ''tls_private_key_file''; addr = setting Z ''listen_address'';
          finish = (\<lambda>l. case serve S l w of
             (None, w1) \<Rightarrow> (Returned, side_listeners Z @ [l], w1)
           | (Some _, w1) \<Rightarrow> (ExitedWith 1, side_listeners Z @ [l], w1))
      in if cert = '''' \<and> key = ''''
         then finish \<lparr>l_addr = addr, l_tls = None, l_mux = main_mux Z\<rparr>
         else (case new_http_server S cert key addr (main_mux Z) w of
                 Inl e \<Rightarrow> (Panicked e, side_listeners Z, w)
               | Inr l \<Rightarrow> finish l))"

text \<open>\<open>main\<close>: its end, the servers it started, in their order, and the world.\<close>

definition webhook_main ::
  "('w, 'c) server_sys \<Rightarrow> settings \<Rightarrow> environ \<Rightarrow> 'w \<Rightarrow> main_end \<times> 'c listener list \<times> 'w" where
  "webhook_main S Z env w =
     (case k8s_client S w of
        (Some _, w1) \<Rightarrow> (ExitedWith 1, [], w1)
      | (None, w1) \<Rightarrow>
          (case webhook_namespace env (namespace_file S w1) of
             None \<Rightarrow> (ExitedWith 1, [], w1)
           | Some _ \<Rightarrow>
               (case metrics_recorder S w1 of
                  (Some _, w2) \<Rightarrow> (ExitedWith 1, [], w2)
                | (None, w2) \<Rightarrow>
                    (case webhook_error_of S w2 of
                       Some e \<Rightarrow> (Panicked (''error creating webhook: '' @ e), [], w2)
                     | None \<Rightarrow> listen_and_serve S Z w2))))"

subsection \<open>Lemmas\<close>

lemma webhook_main_cases:
  assumes "webhook_main S Z env w = (e, ls, w')"
  obtains "ls = []" "e \<noteq> Returned" | v where "listen_and_serve S Z v = (e, ls, w')"
  using assms by (auto simp: webhook_main_def split: prod.splits option.splits)

lemma listen_and_serve_cases:
  assumes "listen_and_serve S Z w = (e, ls, w')"
  obtains (plain) l where "ls = side_listeners Z @ [l]" "l_addr l = setting Z ''listen_address''" "l_mux l = main_mux Z"
      "l_tls l = None" "setting Z ''tls_cert_file'' = ''''" "setting Z ''tls_private_key_file'' = ''''"
  | (tls) l k where "ls = side_listeners Z @ [l]" "l_addr l = setting Z ''listen_address''" "l_mux l = main_mux Z"
      "l_tls l = Some k" "setting Z ''tls_cert_file'' \<noteq> '''' \<or> setting Z ''tls_private_key_file'' \<noteq> ''''"
      "new_certificate_reloader (load_pair S) (setting Z ''tls_cert_file'') (setting Z ''tls_private_key_file'') w = Inr k"
  | (failed) "ls = side_listeners Z" "e \<noteq> Returned"
      "setting Z ''tls_cert_file'' \<noteq> '''' \<or> setting Z ''tls_private_key_file'' \<noteq> ''''"
proof (cases "setting Z ''tls_cert_file'' = '''' \<and> setting Z ''tls_private_key_file'' = ''''")
  case True
  with assms have "ls = side_listeners Z @ [\<lparr>l_addr = setting Z ''listen_address'', l_tls = None, l_mux = main_mux Z\<rparr>]"
    by (auto simp: listen_and_serve_def Let_def split: prod.splits option.splits)
  then show thesis by (rule plain) (simp_all add: True)
next
  case False
  show thesis
  proof (cases "new_certificate_reloader (load_pair S) (setting Z ''tls_cert_file'') (setting Z ''tls_private_key_file'') w")
    case (Inl x)
    with assms False show thesis by (intro failed) (auto simp: listen_and_serve_def new_http_server_def Let_def)
  next
    case (Inr k)
    with assms False have "ls = side_listeners Z @ [\<lparr>l_addr = setting Z ''listen_address'', l_tls = Some k, l_mux = main_mux Z\<rparr>]"
      by (auto simp: listen_and_serve_def new_http_server_def Let_def split: prod.splits option.splits)
    then show thesis by (rule tls) (use Inr False in auto)
  qed
qed

lemma new_certificate_reloader_InrD:
  "new_certificate_reloader load cp kp w = Inr k \<Longrightarrow>
     cert_path k = cp \<and> key_path k = kp \<and> load cp kp w = Inr (get_certificate k)"
  by (auto simp: new_certificate_reloader_def get_certificate_def split: sum.splits)

lemma side_listeners_targets:
  "filter (\<lambda>l. PodsHandler \<in> snd ` set (l_mux l)) (side_listeners Z) = []"
  "filter (\<lambda>l. MetricsHandler \<in> snd ` set (l_mux l)) (side_listeners Z) = side_listeners Z"
  "l \<in> set (side_listeners Z) \<Longrightarrow> PodsHandler \<notin> snd ` set (l_mux l)"
  "length (side_listeners Z) = (if setting Z ''telemetry_listen_address'' = '''' then 0 else 1)"
  by (auto simp: side_listeners_def serve_metrics_def)

lemma main_mux_targets:
  "PodsHandler \<in> snd ` set (main_mux Z)" "HealthzHandler \<in> snd ` set (main_mux Z)"
  "MetricsHandler \<in> snd ` set (main_mux Z) \<longleftrightarrow> setting Z ''telemetry_listen_address'' = ''''"
  by (auto simp: main_mux_def)

subsection \<open>Properties\<close>

text \<open>C20: pods are admitted by one server at most, on the configured address, in the clear only if neither a
  certificate nor a key is configured, and otherwise with the pair of these two files; a pair that does not
  load ends the program instead. The metrics are served exactly once, and never with the pods when they
  have an address of their own.\<close>

theorem admission_is_served_with_tls:
  assumes run: "webhook_main S Z env w = (e, ls, w')"
    and cert: "cert = setting Z ''tls_cert_file''" "key = setting Z ''tls_private_key_file''"
  shows "length (filter (\<lambda>l. PodsHandler \<in> snd ` set (l_mux l)) ls) \<le> 1 \<and>
    (\<forall>l \<in> set ls. PodsHandler \<in> snd ` set (l_mux l) \<longrightarrow>
       l_addr l = setting Z ''listen_address'' \<and> HealthzHandler \<in> snd ` set (l_mux l) \<and>
       (case l_tls l of
          None \<Rightarrow> cert = '''' \<and> key = ''''
        | Some k \<Rightarrow> (cert \<noteq> '''' \<or> key \<noteq> '''') \<and> cert_path k = cert \<and> key_path k = key \<and>
            (\<exists>v. load_pair S cert key v = Inr (get_certificate k))) \<and>
       length (filter (\<lambda>m. MetricsHandler \<in> snd ` set (l_mux m)) ls) = 1 \<and>
       (MetricsHandler \<in> snd ` set (l_mux l) \<longleftrightarrow> setting Z ''telemetry_listen_address'' = '''')) \<and>
    ((cert \<noteq> '''' \<or> key \<noteq> '''') \<and> (\<forall>v. isl (load_pair S cert key v)) \<longrightarrow>
       (\<forall>l \<in> set ls. PodsHandler \<notin> snd ` set (l_mux l)) \<and> e \<noteq> Returned)"
  using run
proof (cases rule: webhook_main_cases)
  case 1
  then show ?thesis by simp
next
  case (2 v)
  then show ?thesis
  proof (cases rule: listen_and_serve_cases)
    case (plain l)
    then show ?thesis
      by (auto simp: cert side_listeners_targets main_mux_targets)
  next
    case (tls l k)
    note k = new_certificate_reloader_InrD [OF tls(6)]
    then have "\<exists>v. \<not> isl (load_pair S cert key v)" by (intro exI [of _ v]) (simp add: cert)
    with tls k show ?thesis
      by (auto simp: cert side_listeners_targets main_mux_targets)
  next
    case failed
    then show ?thesis by (auto simp: side_listeners_targets)
  qed
qed

definition example_sys :: "(nat, string) server_sys" where
  "example_sys =
     \<lparr>k8s_client = (\<lambda>w. (None, w)), namespace_file = (\<lambda>_. Some ''web''), metrics_recorder = (\<lambda>w. (None, w)),
      webhook_error_of = (\<lambda>_. None), load_pair = (\<lambda>c k w. Inr (c @ k)), serve = (\<lambda>_ w. (Some ''closed'', Suc w))\<rparr>"

definition deployed_settings :: settings where
  "deployed_settings = viper_settings plain_viper set_config_defaults
     [''TLS_CERT_FILE=/var/serving-cert/tls.crt'', ''TLS_PRIVATE_KEY_FILE=/var/serving-cert/tls.key'',
      ''LISTEN_ADDRESS=:8443'', ''TELEMETRY_LISTEN_ADDRESS=127.0.0.1:8000'']"

lemma deployed_names:
  "to_upper ''tls_cert_file'' = ''TLS_CERT_FILE''" "to_upper ''tls_private_key_file'' = ''TLS_PRIVATE_KEY_FILE''"
  "to_upper ''listen_address'' = ''LISTEN_ADDRESS''"
  "to_upper ''telemetry_listen_address'' = ''TELEMETRY_LISTEN_ADDRESS''"
  by code_simp+

theorem admission_is_served_with_tls_witness:
  "\<exists>l side k w'. webhook_main example_sys deployed_settings [] 0 = (ExitedWith 1, [side, l], w') \<and>
     PodsHandler \<in> snd ` set (l_mux l) \<and> l_addr l = '':8443'' \<and> l_tls l = Some k \<and>
     cert_path k = ''/var/serving-cert/tls.crt'' \<and> MetricsHandler \<notin> snd ` set (l_mux l)"
proof -
  have Z: "setting deployed_settings ''tls_cert_file'' = ''/var/serving-cert/tls.crt''"
    "setting deployed_settings ''tls_private_key_file'' = ''/var/serving-cert/tls.key''"
    "setting deployed_settings ''listen_address'' = '':8443''"
    "setting deployed_settings ''telemetry_listen_address'' = ''127.0.0.1:8000''"
    unfolding deployed_settings_def viper_settings_def settings.select_convs viper_with_defaults [OF plain_laws(1)] deployed_names
    by (simp_all add: getenv_def)
  obtain side l w' where run: "webhook_main example_sys deployed_settings [] 0 = (ExitedWith 1, [side, l], w')"
      and pods: "l_mux l = main_mux deployed_settings"
    by (simp add: webhook_main_def webhook_namespace_def getenv_def listen_and_serve_def new_http_server_def
        new_certificate_reloader_def example_sys_def Z side_listeners_def Let_def)
  have "l \<in> set [side, l]" by simp
  note l = admission_is_served_with_tls [OF run refl refl, THEN conjunct2, THEN conjunct1, rule_format, OF this, unfolded pods, OF main_mux_targets(1)]
  obtain k where k: "l_tls l = Some k" "cert_path k = ''/var/serving-cert/tls.crt''"
    using l by (cases "l_tls l") (simp_all add: Z)
  have "l_addr l = '':8443''" "MetricsHandler \<notin> snd ` set (l_mux l)"
    using l by (simp_all add: Z pods)
  with k run main_mux_targets(1) [of deployed_settings] show ?thesis unfolding pods [symmetric] by blast
qed

end
