(* ===== verification/Ssi_Controller.thy ===== *)
theory Ssi_Controller
  imports Prelude
begin

text \<open>
  \<^verbatim>\<open>images/ssi-controller\<close>: the controller that keeps a \<open>SecretProviderClass\<close> for every
  \<open>SecretsStoreImport\<close> (\<^verbatim>\<open>api/v1alpha1\<close>, \<^verbatim>\<open>internal/controller\<close>).

  The unstructured object of the library is an abstract type with its setters, \<open>'o unstructured\<close>; the
  cluster is the world behind the record \<open>'w kube\<close>.
\<close>

subsection \<open>The resources\<close>

record vault_source =
  src_key :: string
  src_path :: string

record import_file =
  file_name :: string
  file_decode_base64 :: bool
  file_source :: vault_source

record import_spec =
  is_type :: string
  is_role :: string
  is_auth_path :: string
  is_namespace :: string
  is_address :: string
  is_ca_cert :: string
  is_audience :: string
  is_skip_tls_verify :: bool
  is_files :: "import_file list"

record secrets_store_import =
  ssi_name :: string
  ssi_namespace :: string
  ssi_uid :: string
  ssi_spec :: import_spec

text \<open>The values an unstructured object is made of.\<close>

datatype json = JStr string | JBool bool | JArr "json list" | JObj "(string \<times> json) list"

text \<open>The typed resource of \<^verbatim>\<open>types.go\<close>.\<close>

record secret_object_data =
  sod_object_name :: string
  sod_key :: string
  sod_decode_base64 :: bool

record secret_object =
  so_secret_name :: string
  so_type :: string
  so_labels :: str_map
  so_annotations :: str_map
  so_data :: "secret_object_data list"

record provider_class_spec =
  pc_provider :: string
  pc_parameters :: str_map
  pc_secret_objects :: "secret_object list"

record vault_object =
  vo_object_name :: string
  vo_secret_path :: string
  vo_secret_key :: string

subsection \<open>createSecretProviderClassFromSSI\<close>

record 'o unstructured =
  new_object :: 'o
  set_group_version_kind :: "string \<Rightarrow> string \<Rightarrow> string \<Rightarrow> 'o \<Rightarrow> 'o"
  set_name :: "string \<Rightarrow> 'o \<Rightarrow> 'o"
  set_namespace :: "string \<Rightarrow> 'o \<Rightarrow> 'o"
  set_labels :: "str_map \<Rightarrow> 'o \<Rightarrow> 'o"
  set_nested :: "json \<Rightarrow> string list \<Rightarrow> 'o \<Rightarrow> string + 'o"
  get_nested :: "string list \<Rightarrow> 'o \<Rightarrow> json option"
  resource_version :: "'o \<Rightarrow> string"
  set_resource_version :: "string \<Rightarrow> 'o \<Rightarrow> 'o"

datatype reconcile_error =
    GetImportFailed string
  | MarshalFailed string
  | NestedFieldFailed string
  | GetClassFailed string
  | CreateFailed string
  | UpdateFailed string

definition optional_parameter :: "string \<Rightarrow> string \<Rightarrow> (string \<times> json) list" where
  "optional_parameter k v = (if v \<noteq> '''' then [(k, JStr v)] else [])"

definition base_parameters :: "import_spec \<Rightarrow> (string \<times> json) list" where
  "base_parameters s =
     [(''roleName'', JStr (is_role s))] @
     optional_parameter ''vaultAuthMountPath'' (is_auth_path s) @
     optional_parameter ''vaultNamespace'' (is_namespace s) @
     optional_parameter ''vaultAddress'' (is_address s) @
     optional_parameter ''vaultCACert'' (is_ca_cert s) @
     optional_parameter ''audience'' (is_audience s) @
     [(''vaultSkipTLSVerify'', JStr (if is_skip_tls_verify s then ''true'' else ''false''))]"

definition vault_objects :: "import_file list \<Rightarrow> vault_object list" where
  "vault_objects fs =
     map (\<lambda>f. \<lparr>vo_object_name = file_name f, vo_secret_path = src_path (file_source f),
               vo_secret_key = src_key (file_source f)\<rparr>) fs"

definition secret_object_entries :: "import_file list \<Rightarrow> json list" where
  "secret_object_entries fs =
     map (\<lambda>f. JObj [(''key'', JStr (src_key (file_source f))), (''objectName'', JStr (file_name f)),
                    (''decodeBase64'', JBool (file_decode_base64 f))]) fs"

definition owner_reference :: "secrets_store_import \<Rightarrow> json" where
  "owner_reference ssi =
     JObj [(''apiVersion'', JStr ''deckhouse.io/v1alpha1''), (''kind'', JStr ''SecretsStoreImport''),
           (''name'', JStr (ssi_name ssi)), (''uid'', JStr (ssi_uid ssi)), (''controller'', JBool True)]"

text \<open>A sequence of \<open>SetNestedField\<close> calls that stops at the first error.\<close>

fun set_fields :: "'o unstructured \<Rightarrow> (string list \<times> json) list \<Rightarrow> 'o \<Rightarrow> reconcile_error + 'o" where
  "set_fields U [] ob = Inr ob"
| "set_fields U ((path, v) # rest) ob =
     (case set_nested U v path ob of
        Inl e \<Rightarrow> Inl (NestedFieldFailed e)
      | Inr ob' \<Rightarrow> set_fields U rest ob')"

definition managed_labels :: str_map where
  "managed_labels = [(''app.kubernetes.io/managed-by'', ''secrets-store-import'')]"

definition class_fields :: "secrets_store_import \<Rightarrow> string \<Rightarrow> (string list \<times> json) list" where
  "class_fields ssi objects =
     [([''metadata'', ''ownerReferences''], JArr [owner_reference ssi]),
      ([''spec'', ''provider''], JStr ''vault''),
      ([''spec'', ''parameters''], JObj (AList.update ''objects'' (JStr objects) (base_parameters (ssi_spec ssi)))),
      ([''spec'', ''secretObjects''],
       JArr [JObj [(''secretName'', JStr (ssi_name ssi)), (''type'', JStr ''Opaque''),
                   (''data'', JArr (secret_object_entries (is_files (ssi_spec ssi))))]])]"

definition create_secret_provider_class ::
  "'o unstructured \<Rightarrow> (vault_object list \<Rightarrow> string + string) \<Rightarrow> secrets_store_import \<Rightarrow> reconcile_error + 'o" where
  "create_secret_provider_class U yaml_marshal ssi =
     (case yaml_marshal (vault_objects (is_files (ssi_spec ssi))) of
        Inl e \<Rightarrow> Inl (MarshalFailed e)
      | Inr objects \<Rightarrow>
          set_fields U (class_fields ssi objects)
            (set_labels U managed_labels
              (set_namespace U (ssi_namespace ssi)
                (set_name U (ssi_name ssi)
                  (set_group_version_kind U ''secrets-store.csi.x-k8s.io'' ''v1'' ''SecretProviderClass''
                    (new_object U))))))"

subsection \<open>Reconcile\<close>

datatype 'e api_failure = ObjectNotFound | OtherFailure 'e

text \<open>The calls of the client; namespace first, then name.\<close>

record ('w, 'o) kube =
  get_import :: "string \<Rightarrow> string \<Rightarrow> 'w \<Rightarrow> (string api_failure + secrets_store_import) \<times> 'w"
  get_class :: "string \<Rightarrow> string \<Rightarrow> 'w \<Rightarrow> (string api_failure + 'o) \<times> 'w"
  create_class :: "string \<Rightarrow> string \<Rightarrow> 'o \<Rightarrow> 'w \<Rightarrow> string option \<times> 'w"
  update_class :: "string \<Rightarrow> string \<Rightarrow> 'o \<Rightarrow> 'w \<Rightarrow> string option \<times> 'w"

definition reconcile ::
  "'o unstructured \<Rightarrow> (vault_object list \<Rightarrow> string + string) \<Rightarrow> ('w, 'o) kube \<Rightarrow> string \<Rightarrow> string \<Rightarrow> 'w \<Rightarrow>
   reconcile_error option \<times> 'w" where
  "reconcile U yaml_marshal A ns name w =
     (case get_import A ns name w of
        (Inl ObjectNotFound, w1) \<Rightarrow> (None, w1)
      | (Inl (OtherFailure e), w1) \<Rightarrow> (Some (GetImportFailed e), w1)
      | (Inr ssi, w1) \<Rightarrow>
          (case create_secret_provider_class U yaml_marshal ssi of
             Inl e \<Rightarrow> (Some e, w1)
           | Inr spc \<Rightarrow>
               (case get_class A (ssi_namespace ssi) (ssi_name ssi) w1 of
                  (Inl ObjectNotFound, w2) \<Rightarrow>
                    (case create_class A (ssi_namespace ssi) (ssi_name ssi) spc w2 of
                       (None, w3) \<Rightarrow> (None, w3)
                     | (Some e, w3) \<Rightarrow> (Some (CreateFailed e), w3))
                | (Inl (OtherFailure e), w2) \<Rightarrow> (Some (GetClassFailed e), w2)
                | (Inr old, w2) \<Rightarrow>
                    (case update_class A (ssi_namespace ssi) (ssi_name ssi)
                            (set_resource_version U (resource_version U old) spc) w2 of
                       (None, w3) \<Rightarrow> (None, w3)
                     | (Some e, w3) \<Rightarrow> (Some (UpdateFailed e), w3)))))"

subsection \<open>The typed reading of an object\<close>

text \<open>Decoding by the JSON names of \<^verbatim>\<open>types.go\<close>; \<open>None\<close> for a value of the wrong type.\<close>

fun decode_string :: "json \<Rightarrow> string option" where
  "decode_string (JStr s) = Some s"
| "decode_string _ = None"

fun decode_bool :: "json \<Rightarrow> bool option" where
  "decode_bool (JBool b) = Some b"
| "decode_bool _ = None"

fun decode_list :: "(json \<Rightarrow> 'a option) \<Rightarrow> json list \<Rightarrow> 'a list option" where
  "decode_list f [] = Some []"
| "decode_list f (j # js) = (case (f j, decode_list f js) of (Some x, Some xs) \<Rightarrow> Some (x # xs) | _ \<Rightarrow> None)"

text \<open>A field that is missing has the zero value.\<close>

definition decode_field :: "(json \<Rightarrow> 'a option) \<Rightarrow> 'a \<Rightarrow> string \<Rightarrow> (string \<times> json) list \<Rightarrow> 'a option" where
  "decode_field f z k kvs = (case map_of kvs k of None \<Rightarrow> Some z | Some j \<Rightarrow> f j)"

fun decode_data :: "json \<Rightarrow> secret_object_data option" where
  "decode_data (JObj kvs) =
     (case (decode_field decode_string '''' ''objectName'' kvs, decode_field decode_string '''' ''key'' kvs,
            decode_field decode_bool False ''decodeBase64'' kvs) of
        (Some ob, Some k, Some d) \<Rightarrow> Some \<lparr>sod_object_name = ob, sod_key = k, sod_decode_base64 = d\<rparr>
      | _ \<Rightarrow> None)"
| "decode_data _ = None"

fun decode_array :: "(json \<Rightarrow> 'a option) \<Rightarrow> json \<Rightarrow> 'a list option" where
  "decode_array f (JArr js) = decode_list f js"
| "decode_array f _ = None"

fun decode_parameters :: "json \<Rightarrow> str_map option" where
  "decode_parameters (JObj kvs) =
     (case decode_list decode_string (map snd kvs) of None \<Rightarrow> None | Some vs \<Rightarrow> Some (zip (map fst kvs) vs))"
| "decode_parameters _ = None"

fun decode_secret_object :: "json \<Rightarrow> secret_object option" where
  "decode_secret_object (JObj kvs) =
     (case (decode_field decode_string '''' ''secretName'' kvs, decode_field decode_string '''' ''type'' kvs,
            decode_field decode_parameters [] ''labels'' kvs, decode_field decode_parameters [] ''annotations'' kvs,
            decode_field (decode_array decode_data) [] ''data'' kvs) of
        (Some n, Some t, Some l, Some an, Some d) \<Rightarrow>
          Some \<lparr>so_secret_name = n, so_type = t, so_labels = l, so_annotations = an, so_data = d\<rparr>
      | _ \<Rightarrow> None)"
| "decode_secret_object _ = None"

definition decode_class :: "'o unstructured \<Rightarrow> 'o \<Rightarrow> provider_class_spec option" where
  "decode_class U ob =
     (case (Option.bind (get_nested U [''spec'', ''provider''] ob) decode_string,
            Option.bind (get_nested U [''spec'', ''parameters''] ob) decode_parameters,
            Option.bind (get_nested U [''spec'', ''secretObjects''] ob) (decode_array decode_secret_object)) of
        (Some p, Some ps, Some os) \<Rightarrow> Some \<lparr>pc_provider = p, pc_parameters = ps, pc_secret_objects = os\<rparr>
      | _ \<Rightarrow> None)"

subsection \<open>What the controller relies on\<close>

text \<open>The setters of an object: a nested field that was set is read back, and other fields keep their values.\<close>

definition unstructured_lawful :: "'o unstructured \<Rightarrow> bool" where
  "unstructured_lawful U \<longleftrightarrow>
     (\<forall>v path ob ob'. set_nested U v path ob = Inr ob' \<longrightarrow>
        get_nested U path ob' = Some v \<and>
        (\<forall>q. \<not> prefix path q \<and> \<not> prefix q path \<longrightarrow> get_nested U q ob' = get_nested U q ob)) \<and>
     (\<forall>v q ob. take 1 q \<noteq> [''metadata''] \<longrightarrow> get_nested U q (set_resource_version U v ob) = get_nested U q ob)"

definition same_spec :: "'o unstructured \<Rightarrow> 'o \<Rightarrow> 'o \<Rightarrow> bool" where
  "same_spec U ob ob' \<longleftrightarrow> (\<forall>q. take 1 q = [''spec''] \<longrightarrow> get_nested U q ob' = get_nested U q ob)"

text \<open>
  The API server, with \<open>imports\<close> and \<open>classes\<close> as what it stores: reads report it, and a write that
  succeeds stores the object under its name (the server adds metadata).
\<close>

definition kube_lawful ::
  "'o unstructured \<Rightarrow> ('w, 'o) kube \<Rightarrow> ('w \<Rightarrow> string \<times> string \<Rightarrow> secrets_store_import option) \<Rightarrow>
   ('w \<Rightarrow> string \<times> string \<Rightarrow> 'o option) \<Rightarrow> bool" where
  "kube_lawful U A imports classes \<longleftrightarrow>
     (\<forall>ns n w r w'. get_import A ns n w = (r, w') \<longrightarrow> classes w' = classes w \<and>
        (case r of Inr ssi \<Rightarrow> imports w (ns, n) = Some ssi \<and> ssi_namespace ssi = ns \<and> ssi_name ssi = n
         | Inl f \<Rightarrow> f = ObjectNotFound \<longrightarrow> imports w (ns, n) = None)) \<and>
     (\<forall>ns n w r w'. get_class A ns n w = (r, w') \<longrightarrow> classes w' = classes w) \<and>
     (\<forall>ns n ob w w'. create_class A ns n ob w = (None, w') \<or> update_class A ns n ob w = (None, w') \<longrightarrow>
        (\<exists>ob'. same_spec U ob ob' \<and> classes w' = (classes w)((ns, n) \<mapsto> ob')))"

subsection \<open>The specification of a class\<close>

definition expected_parameters :: "import_spec \<Rightarrow> string \<Rightarrow> string \<Rightarrow> string option" where
  "expected_parameters s objects k =
     (if k = ''roleName'' then Some (is_role s)
      else if k = ''vaultSkipTLSVerify'' then Some (if is_skip_tls_verify s then ''true'' else ''false'')
      else if k = ''objects'' then Some objects
      else case map_of [(''vaultAuthMountPath'', is_auth_path s), (''vaultNamespace'', is_namespace s),
                        (''vaultAddress'', is_address s), (''vaultCACert'', is_ca_cert s), (''audience'', is_audience s)] k of
             None \<Rightarrow> None
           | Some v \<Rightarrow> if v = '''' then None else Some v)"

definition expected_secret_object :: "secrets_store_import \<Rightarrow> secret_object" where
  "expected_secret_object ssi =
     \<lparr>so_secret_name = ssi_name ssi, so_type = ''Opaque'', so_labels = [], so_annotations = [],
      so_data = map (\<lambda>f. \<lparr>sod_object_name = file_name f, sod_key = src_key (file_source f),
                          sod_decode_base64 = file_decode_base64 f\<rparr>) (is_files (ssi_spec ssi))\<rparr>"

subsection \<open>Lemmas\<close>

lemma set_fields_get:
  assumes "unstructured_lawful U"
  shows "set_fields U kvs ob = Inr ob' \<Longrightarrow> (path, v) \<in> set kvs \<Longrightarrow>
    (\<forall>(p, _) \<in> set kvs. \<forall>(q, _) \<in> set kvs. p = q \<or> \<not> prefix p q) \<Longrightarrow> distinct (map fst kvs) \<Longrightarrow>
    get_nested U path ob' = Some v"
proof (induction kvs arbitrary: ob)
  case (Cons kv kvs)
  obtain p x where kv: "kv = (p, x)" by (cases kv)
  with Cons.prems(1) obtain ob1 where 1: "set_nested U x p ob = Inr ob1" and rest: "set_fields U kvs ob1 = Inr ob'"
    by (auto split: sum.splits)
  have keep: "get_nested U q ob' = get_nested U q ob1"
    if "\<forall>(p, _) \<in> set kvs. \<not> prefix p q \<and> \<not> prefix q p" for q
    using rest that
  proof (induction kvs arbitrary: ob1)
    case (Cons kv kvs)
    then show ?case using assms by (cases kv) (auto simp: unstructured_lawful_def split: sum.splits)
  qed simp
  show ?case
  proof (cases "(path, v) \<in> set kvs")
    case True
    have "\<forall>(p, _) \<in> set kvs. \<forall>(q, _) \<in> set kvs. p = q \<or> \<not> prefix p q" "distinct (map fst kvs)"
      using Cons.prems(3,4) by auto
    from Cons.IH [OF rest True this] show ?thesis .
  next
    case False
    then have [simp]: "path = p" "v = x" using Cons.prems(2) kv by auto
    have "\<forall>(q, _) \<in> set kvs. \<not> prefix q p \<and> \<not> prefix p q"
      using Cons.prems(3,4) kv by force
    from keep [OF this] show ?thesis using 1 assms by (simp add: unstructured_lawful_def)
  qed
qed simp

lemma decode_list_map: "(\<And>x. x \<in> set xs \<Longrightarrow> f (g x) = Some (h x)) \<Longrightarrow> decode_list f (map g xs) = Some (map h xs)"
  by (induction xs) auto

lemma decode_entries:
  "decode_list decode_data (secret_object_entries fs) =
     Some (map (\<lambda>f. \<lparr>sod_object_name = file_name f, sod_key = src_key (file_source f),
                     sod_decode_base64 = file_decode_base64 f\<rparr>) fs)"
  unfolding secret_object_entries_def by (rule decode_list_map) (simp add: decode_field_def)

lemma decode_secret_objects:
  "decode_array decode_secret_object
     (JArr [JObj [(''secretName'', JStr (ssi_name ssi)), (''type'', JStr ''Opaque''),
                  (''data'', JArr (secret_object_entries (is_files (ssi_spec ssi))))]]) =
   Some [expected_secret_object ssi]"
  by (simp add: decode_field_def decode_entries expected_secret_object_def)

text \<open>The parameters as strings.\<close>

definition optional_string :: "string \<Rightarrow> string \<Rightarrow> str_map" where
  "optional_string k v = (if v \<noteq> '''' then [(k, v)] else [])"

definition base_strings :: "import_spec \<Rightarrow> str_map" where
  "base_strings s =
     [(''roleName'', is_role s)] @
     optional_string ''vaultAuthMountPath'' (is_auth_path s) @
     optional_string ''vaultNamespace'' (is_namespace s) @
     optional_string ''vaultAddress'' (is_address s) @
     optional_string ''vaultCACert'' (is_ca_cert s) @
     optional_string ''audience'' (is_audience s) @
     [(''vaultSkipTLSVerify'', if is_skip_tls_verify s then ''true'' else ''false'')]"

lemma map_of_optional_string:
  "map_of (optional_string k v @ r) x = (if x = k \<and> v \<noteq> '''' then Some v else map_of r x)"
  by (simp add: optional_string_def)

lemma optional_parameter_string: "optional_parameter k v = map (apsnd JStr) (optional_string k v)"
  by (simp add: optional_parameter_def optional_string_def)

lemma base_parameters_strings: "base_parameters s = map (apsnd JStr) (base_strings s)"
  by (simp only: base_parameters_def base_strings_def optional_parameter_string map_append) simp

lemma update_map_apsnd: "AList.update k (f v) (map (apsnd f) kvs) = map (apsnd f) (AList.update k v kvs)"
  by (induction kvs) auto

lemma decode_parameters_strings: "decode_parameters (JObj (map (apsnd JStr) kvs)) = Some kvs"
proof -
  have "decode_list decode_string (map JStr (map snd kvs)) = Some (map (\<lambda>x. x) (map snd kvs))"
    by (rule decode_list_map) simp
  then show ?thesis by (simp add: zip_map_fst_snd)
qed

lemma decode_parameters_update:
  "decode_parameters (JObj (AList.update ''objects'' (JStr objects) (base_parameters s))) =
     Some (AList.update ''objects'' objects (base_strings s))"
  unfolding base_parameters_strings update_map_apsnd by (rule decode_parameters_strings)

lemma base_strings_expected:
  "map_of (AList.update ''objects'' objects (base_strings s)) = expected_parameters s objects"
proof (rule ext)
  fix k
  have b: "map_of (base_strings s) k =
      (if k = ''roleName'' then Some (is_role s)
       else if k = ''vaultAuthMountPath'' \<and> is_auth_path s \<noteq> '''' then Some (is_auth_path s)
       else if k = ''vaultNamespace'' \<and> is_namespace s \<noteq> '''' then Some (is_namespace s)
       else if k = ''vaultAddress'' \<and> is_address s \<noteq> '''' then Some (is_address s)
       else if k = ''vaultCACert'' \<and> is_ca_cert s \<noteq> '''' then Some (is_ca_cert s)
       else if k = ''audience'' \<and> is_audience s \<noteq> '''' then Some (is_audience s)
       else if k = ''vaultSkipTLSVerify'' then Some (if is_skip_tls_verify s then ''true'' else ''false'') else None)"
    unfolding base_strings_def append.simps map_of.simps fun_upd_apply fst_conv snd_conv map_of_optional_string
    by (rule refl | simp only: if_cong fun_upd_apply map_of.simps fst_conv snd_conv)+
  show "map_of (AList.update ''objects'' objects (base_strings s)) k = expected_parameters s objects k"
    unfolding update_conv' fun_upd_apply b expected_parameters_def map_of.simps fst_conv snd_conv
    by (simp split: if_split)
qed

lemma create_class_decodes:
  assumes "unstructured_lawful U" "create_secret_provider_class U yaml_marshal ssi = Inr ob" "same_spec U ob ob'"
  shows "\<exists>objects cls. yaml_marshal (vault_objects (is_files (ssi_spec ssi))) = Inr objects \<and>
    decode_class U ob' = Some cls \<and> pc_provider cls = ''vault'' \<and>
    map_of (pc_parameters cls) = expected_parameters (ssi_spec ssi) objects \<and>
    pc_secret_objects cls = [expected_secret_object ssi]"
proof -
  obtain objects ob0 where m: "yaml_marshal (vault_objects (is_files (ssi_spec ssi))) = Inr objects"
    and s: "set_fields U (class_fields ssi objects) ob0 = Inr ob"
    using assms(2) by (auto simp: create_secret_provider_class_def split: sum.splits)
  have get: "get_nested U path ob = Some v" if "(path, v) \<in> set (class_fields ssi objects)" for path v
    using set_fields_get [OF assms(1) s that] by (auto simp: class_fields_def)
  have get': "get_nested U path ob' = Some v"
    if "(path, v) \<in> set (class_fields ssi objects)" "take 1 path = [''spec'']" for path v
    using get [OF that(1)] that(2) assms(3) by (simp add: same_spec_def)
  let ?ps = "AList.update ''objects'' objects (base_strings (ssi_spec ssi))"
  have "decode_class U ob' = Some \<lparr>pc_provider = ''vault'', pc_parameters = ?ps,
      pc_secret_objects = [expected_secret_object ssi]\<rparr>"
    using get' [of "[''spec'', ''provider'']"] get' [of "[''spec'', ''parameters'']"] get' [of "[''spec'', ''secretObjects'']"]
      decode_parameters_update [of objects "ssi_spec ssi"] decode_secret_objects [of ssi]
    by (simp add: decode_class_def class_fields_def del: decode_array.simps decode_parameters.simps)
  with m base_strings_expected show ?thesis by simp
qed

lemma kube_lawful_write:
  "kube_lawful U A imports classes \<Longrightarrow>
   create_class A ns n ob w = (None, w') \<or> update_class A ns n ob w = (None, w') \<Longrightarrow>
   \<exists>ob'. same_spec U ob ob' \<and> classes w' = (classes w)((ns, n) \<mapsto> ob')"
  unfolding kube_lawful_def by blast

text \<open>A run without an error on an import that exists writes the class of this import, once.\<close>

lemma reconcile_writes:
  assumes "reconcile U yaml_marshal A ns name w = (None, w')" "get_import A ns name w = (Inr ssi, w1)"
  shows "\<exists>spc r w2. create_secret_provider_class U yaml_marshal ssi = Inr spc \<and>
    get_class A (ssi_namespace ssi) (ssi_name ssi) w1 = (r, w2) \<and>
    (create_class A (ssi_namespace ssi) (ssi_name ssi) spc w2 = (None, w') \<or>
     (\<exists>v. update_class A (ssi_namespace ssi) (ssi_name ssi) (set_resource_version U v spc) w2 = (None, w')))"
  using assms by (auto simp: reconcile_def split: sum.splits prod.splits option.splits api_failure.splits)

subsection \<open>A cluster for the witnesses\<close>

text \<open>Objects as the fields that were set, the last one first; a world of imports and classes.\<close>

type_synonym plain_object = "(string list \<times> json) list"
type_synonym plain_world =
  "(string \<times> string \<Rightarrow> secrets_store_import option) \<times> (string \<times> string \<Rightarrow> plain_object option)"

definition plain_unstructured :: "plain_object unstructured" where
  "plain_unstructured =
     \<lparr>new_object = [], set_group_version_kind = (\<lambda>g v k ob. ob), set_name = (\<lambda>n ob. ob),
      set_namespace = (\<lambda>n ob. ob), set_labels = (\<lambda>l ob. ob),
      set_nested = (\<lambda>v path ob. Inr ((path, v) # ob)), get_nested = (\<lambda>path ob. map_of ob path),
      resource_version = (\<lambda>ob. case map_of ob [''metadata'', ''resourceVersion''] of Some (JStr v) \<Rightarrow> v | _ \<Rightarrow> ''''),
      set_resource_version = (\<lambda>v ob. ([''metadata'', ''resourceVersion''], JStr v) # ob)\<rparr>"

definition plain_imports :: "plain_world \<Rightarrow> string \<times> string \<Rightarrow> secrets_store_import option" where
  "plain_imports w k = map_option (\<lambda>s. s\<lparr>ssi_namespace := fst k, ssi_name := snd k\<rparr>) (fst w k)"

definition plain_kube :: "(plain_world, plain_object) kube" where
  "plain_kube =
     \<lparr>get_import = (\<lambda>ns n w. (case plain_imports w (ns, n) of None \<Rightarrow> Inl ObjectNotFound | Some s \<Rightarrow> Inr s, w)),
      get_class = (\<lambda>ns n w. (case snd w (ns, n) of None \<Rightarrow> Inl ObjectNotFound | Some ob \<Rightarrow> Inr ob, w)),
      create_class = (\<lambda>ns n ob w. (None, (fst w, (snd w)((ns, n) \<mapsto> ob)))),
      update_class = (\<lambda>ns n ob w. (None, (fst w, (snd w)((ns, n) \<mapsto> ob))))\<rparr>"

definition demo_import :: secrets_store_import where
  "demo_import = \<lparr>ssi_name = ''web'', ssi_namespace = ''ns'', ssi_uid = ''7'', ssi_spec =
     \<lparr>is_type = ''CSI'', is_role = ''reader'', is_auth_path = ''k8s'', is_namespace = '''', is_address = '''',
      is_ca_cert = '''', is_audience = '''', is_skip_tls_verify = True,
      is_files = [\<lparr>file_name = ''db'', file_decode_base64 = True,
                   file_source = \<lparr>src_key = ''pass'', src_path = ''kv/db''\<rparr>\<rparr>]\<rparr>\<rparr>"

definition demo_run :: "reconcile_error option \<times> plain_world" where
  "demo_run = reconcile plain_unstructured (\<lambda>_. Inr ''yaml'') plain_kube ''ns'' ''web''
     (\<lambda>k. if k = (''ns'', ''web'') then Some demo_import else None, \<lambda>_. Some [])"

lemma plain_unstructured_lawful: "unstructured_lawful plain_unstructured"
  by (auto simp: unstructured_lawful_def plain_unstructured_def)

lemma plain_kube_lawful: "kube_lawful plain_unstructured plain_kube plain_imports snd"
  by (auto simp: kube_lawful_def plain_kube_def same_spec_def plain_imports_def split: option.splits)

subsection \<open>Properties\<close>

text \<open>C36: the untyped object that the controller builds is a well-typed SecretProviderClass: decoding it by
  the types of the API succeeds and gives the provider, the parameters of the import (those that are empty
  left out) and one secret with an entry per file.\<close>

theorem provider_class_is_well_typed:
  assumes "unstructured_lawful U" "create_secret_provider_class U yaml_marshal ssi = Inr ob"
  shows "\<exists>objects cls. yaml_marshal (vault_objects (is_files (ssi_spec ssi))) = Inr objects \<and>
    decode_class U ob = Some cls \<and> pc_provider cls = ''vault'' \<and>
    map_of (pc_parameters cls) = expected_parameters (ssi_spec ssi) objects \<and>
    pc_secret_objects cls = [expected_secret_object ssi]"
  using create_class_decodes [OF assms, of ob] by (simp add: same_spec_def)

theorem provider_class_is_well_typed_witness:
  "\<exists>ob cls. create_secret_provider_class plain_unstructured (\<lambda>_. Inr ''yaml'') demo_import = Inr ob \<and>
     decode_class plain_unstructured ob = Some cls \<and> map_of (pc_parameters cls) ''vaultSkipTLSVerify'' = Some ''true''"
proof -
  obtain ob where ob: "create_secret_provider_class plain_unstructured (\<lambda>_. Inr ''yaml'') demo_import = Inr ob"
    by (simp add: create_secret_provider_class_def class_fields_def plain_unstructured_def)
  have "expected_parameters (ssi_spec demo_import) objects ''vaultSkipTLSVerify'' = Some ''true''" for objects
    by (simp add: expected_parameters_def demo_import_def)
  with provider_class_is_well_typed [OF plain_unstructured_lawful ob] ob show ?thesis by auto
qed

text \<open>C7: a reconciliation that returns no error leaves exactly one class changed, the one of the import,
  and it is the class that the import asks for, whether it was missing, stale or changed by hand; for an
  import that is gone nothing changes.\<close>

theorem reconcile_converges:
  assumes "unstructured_lawful U" "kube_lawful U A imports classes"
    and "reconcile U yaml_marshal A ns name w = (None, w')"
  shows "case imports w (ns, name) of
      None \<Rightarrow> classes w' = classes w
    | Some ssi \<Rightarrow> \<exists>ob objects cls. classes w' = (classes w)((ns, name) \<mapsto> ob) \<and>
        yaml_marshal (vault_objects (is_files (ssi_spec ssi))) = Inr objects \<and>
        decode_class U ob = Some cls \<and> pc_provider cls = ''vault'' \<and>
        map_of (pc_parameters cls) = expected_parameters (ssi_spec ssi) objects \<and>
        pc_secret_objects cls = [expected_secret_object ssi]"
proof -
  obtain r w1 where get: "get_import A ns name w = (r, w1)" by (cases "get_import A ns name w")
  have l: "classes w1 = classes w" "case r of Inr ssi \<Rightarrow> imports w (ns, name) = Some ssi \<and> ssi_namespace ssi = ns \<and> ssi_name ssi = name
      | Inl f \<Rightarrow> f = ObjectNotFound \<longrightarrow> imports w (ns, name) = None"
    using assms(2) get by (auto simp: kube_lawful_def)
  show ?thesis
  proof (cases r)
    case (Inl f)
    then show ?thesis using assms(3) get l by (cases f) (auto simp: reconcile_def)
  next
    case (Inr ssi)
    with l have ssi: "imports w (ns, name) = Some ssi" "ssi_namespace ssi = ns" "ssi_name ssi = name" by auto
    then obtain spc r2 w2 where spc: "create_secret_provider_class U yaml_marshal ssi = Inr spc"
      and "get_class A ns name w1 = (r2, w2)"
      and wr: "create_class A ns name spc w2 = (None, w') \<or>
        (\<exists>v. update_class A ns name (set_resource_version U v spc) w2 = (None, w'))"
      using reconcile_writes [OF assms(3), of ssi w1] get Inr by auto
    then have w2: "classes w2 = classes w" using assms(2) l(1) by (auto simp: kube_lawful_def)
    from wr obtain ob ob' where "same_spec U spc ob" and ob': "same_spec U ob ob'" "classes w' = (classes w)((ns, name) \<mapsto> ob')"
    proof
      assume "create_class A ns name spc w2 = (None, w')"
      with kube_lawful_write [OF assms(2)] w2 that [of spc] show thesis by (metis same_spec_def)
    next
      assume "\<exists>v. update_class A ns name (set_resource_version U v spc) w2 = (None, w')"
      then obtain v where "update_class A ns name (set_resource_version U v spc) w2 = (None, w')" ..
      moreover have "same_spec U spc (set_resource_version U v spc)"
        using assms(1) by (auto simp: same_spec_def unstructured_lawful_def)
      ultimately show thesis using that kube_lawful_write [OF assms(2)] w2 by metis
    qed
    then have "same_spec U spc ob'" by (simp add: same_spec_def)
    from create_class_decodes [OF assms(1) spc this] ob'(2) ssi show ?thesis by auto
  qed
qed

theorem reconcile_converges_witness:
  "\<exists>ob cls. snd (snd demo_run) = (\<lambda>_. Some [])((''ns'', ''web'') \<mapsto> ob) \<and>
     decode_class plain_unstructured ob = Some cls \<and> pc_secret_objects cls = [expected_secret_object demo_import]"
proof -
  let ?w = "(\<lambda>k. if k = (''ns'', ''web'') then Some demo_import else None, \<lambda>_. Some []) :: plain_world"
  have "fst demo_run = None" by code_simp
  then have run: "reconcile plain_unstructured (\<lambda>_. Inr ''yaml'') plain_kube ''ns'' ''web'' ?w = (None, snd demo_run)"
    by (simp add: demo_run_def prod_eq_iff)
  have "plain_imports ?w (''ns'', ''web'') = Some demo_import"
    by (simp add: plain_imports_def demo_import_def)
  with reconcile_converges [OF plain_unstructured_lawful plain_kube_lawful run] show ?thesis by auto
qed

end
