(* ===== verification/Ssi_Concurrent.thy ===== *)
theory Ssi_Concurrent
  imports Ssi_Controller Fair_Runs
begin

text \<open>
  The controller reconciles several asked at once: \<open>Reconcile\<close> as three actions, between which other
  reconciliations, users and the garbage collector change the cluster. The queue of controller-runtime hands a
  key to one worker at a time, takes it back after an error, and gets it whenever the import has changed;
  \<open>SetupWithManager\<close> bounds the number of workers.
\<close>

subsection \<open>One reconciliation in actions\<close>

type_synonym import_key = "string \<times> string"

datatype 'o reconcile_phase =
    Picked
  | Built secrets_store_import 'o
  | Looked secrets_store_import 'o "string option"

text \<open>The next action: a further phase, or the result of \<open>Reconcile\<close>.\<close>

fun reconcile_step ::
  "'o unstructured \<Rightarrow> (vault_object list \<Rightarrow> string + string) \<Rightarrow> ('w, 'o) kube \<Rightarrow> import_key \<Rightarrow> 'o reconcile_phase \<Rightarrow> 'w \<Rightarrow>
   ('o reconcile_phase + reconcile_error option) \<times> 'w" where
  "reconcile_step U yaml_marshal A (ns, name) Picked w =
     (case get_import A ns name w of
        (Inl ObjectNotFound, w1) \<Rightarrow> (Inr None, w1)
      | (Inl (OtherFailure e), w1) \<Rightarrow> (Inr (Some (GetImportFailed e)), w1)
      | (Inr ssi, w1) \<Rightarrow>
          (case create_secret_provider_class U yaml_marshal ssi of
             Inl e \<Rightarrow> (Inr (Some e), w1)
           | Inr spc \<Rightarrow> (Inl (Built ssi spc), w1)))"
| "reconcile_step U yaml_marshal A k (Built ssi spc) w =
     (case get_class A (ssi_namespace ssi) (ssi_name ssi) w of
        (Inl ObjectNotFound, w1) \<Rightarrow> (Inl (Looked ssi spc None), w1)
      | (Inl (OtherFailure e), w1) \<Rightarrow> (Inr (Some (GetClassFailed e)), w1)
      | (Inr old, w1) \<Rightarrow> (Inl (Looked ssi spc (Some (resource_version U old))), w1))"
| "reconcile_step U yaml_marshal A k (Looked ssi spc None) w =
     (case create_class A (ssi_namespace ssi) (ssi_name ssi) spc w of
        (None, w1) \<Rightarrow> (Inr None, w1)
      | (Some e, w1) \<Rightarrow> (Inr (Some (CreateFailed e)), w1))"
| "reconcile_step U yaml_marshal A k (Looked ssi spc (Some v)) w =
     (case update_class A (ssi_namespace ssi) (ssi_name ssi) (set_resource_version U v spc) w of
        (None, w1) \<Rightarrow> (Inr None, w1)
      | (Some e, w1) \<Rightarrow> (Inr (Some (UpdateFailed e)), w1))"

text \<open>A reconciliation that is not interrupted.\<close>

fun run_reconcile ::
  "'o unstructured \<Rightarrow> (vault_object list \<Rightarrow> string + string) \<Rightarrow> ('w, 'o) kube \<Rightarrow> import_key \<Rightarrow> nat \<Rightarrow> 'o reconcile_phase \<Rightarrow> 'w \<Rightarrow>
   ('o reconcile_phase + reconcile_error option) \<times> 'w" where
  "run_reconcile U yaml_marshal A k 0 ph w = (Inl ph, w)"
| "run_reconcile U yaml_marshal A k (Suc n) ph w =
     (case reconcile_step U yaml_marshal A k ph w of
        (Inl ph', w1) \<Rightarrow> run_reconcile U yaml_marshal A k n ph' w1
      | (Inr r, w1) \<Rightarrow> (Inr r, w1))"

lemma run_reconcile_alone:
  "run_reconcile U yaml_marshal A (ns, name) 3 Picked w =
     (case reconcile U yaml_marshal A ns name w of (r, w') \<Rightarrow> (Inr r, w'))"
  by (auto simp: numeral_3_eq_3 reconcile_def split: sum.split prod.split option.split api_failure.split)

subsection \<open>The controller\<close>

record ('w, 'o) controller =
  cl_world :: 'w
  cl_queue :: "import_key set"
  cl_active :: "(import_key \<times> 'o reconcile_phase) list"

text \<open>At the start every import there is is in the queue.\<close>

definition start_controller :: "('w \<Rightarrow> import_key \<Rightarrow> secrets_store_import option) \<Rightarrow> 'w \<Rightarrow> ('w, 'o) controller" where
  "start_controller asked w = \<lparr>cl_world = w, cl_queue = dom (asked w), cl_active = []\<rparr>"

text \<open>A free worker takes a key, or the worker of the key does its next action.\<close>

definition key_action ::
  "'o unstructured \<Rightarrow> (vault_object list \<Rightarrow> string + string) \<Rightarrow> ('w, 'o) kube \<Rightarrow> nat \<Rightarrow> import_key \<Rightarrow>
   ('w, 'o) controller \<Rightarrow> ('w, 'o) controller option" where
  "key_action U yaml_marshal A workers k s =
     (case map_of (cl_active s) k of
        None \<Rightarrow>
          if k \<in> cl_queue s \<and> length (cl_active s) < workers
          then Some (s\<lparr>cl_queue := cl_queue s - {k}, cl_active := (k, Picked) # cl_active s\<rparr>)
          else None
      | Some ph \<Rightarrow>
          (case reconcile_step U yaml_marshal A k ph (cl_world s) of
             (Inl ph', w) \<Rightarrow> Some (s\<lparr>cl_world := w, cl_active := AList.update k ph' (cl_active s)\<rparr>)
           | (Inr r, w) \<Rightarrow> Some (s\<lparr>cl_world := w, cl_active := AList.delete k (cl_active s),
               cl_queue := (if r = None then cl_queue s else insert k (cl_queue s))\<rparr>)))"

definition key_acts ::
  "'o unstructured \<Rightarrow> (vault_object list \<Rightarrow> string + string) \<Rightarrow> ('w, 'o) kube \<Rightarrow> nat \<Rightarrow> import_key \<Rightarrow>
   ('w, 'o) controller \<Rightarrow> ('w, 'o) controller \<Rightarrow> bool" where
  "key_acts U yaml_marshal A workers k s t \<longleftrightarrow> key_action U yaml_marshal A workers k s = Some t"

text \<open>Besides, the cluster changes in any way: an import that does so gets into the queue (any other key may, too). Classes
  are changed and deleted by anybody at any time, which puts no key into the queue, since the controller does
  not watch classes.\<close>

inductive controller_step ::
  "'o unstructured \<Rightarrow> (vault_object list \<Rightarrow> string + string) \<Rightarrow> ('w, 'o) kube \<Rightarrow>
   ('w \<Rightarrow> import_key \<Rightarrow> secrets_store_import option) \<Rightarrow> ('w \<Rightarrow> import_key \<Rightarrow> 'o option) \<Rightarrow> nat \<Rightarrow>
   ('w, 'o) controller \<Rightarrow> ('w, 'o) controller \<Rightarrow> bool"
  for U yaml_marshal A asked classes workers where
  act: "key_acts U yaml_marshal A workers k s t \<Longrightarrow> controller_step U yaml_marshal A asked classes workers s t"
| outside: "\<lbrakk>cl_queue s \<subseteq> q; \<forall>k. asked w k \<noteq> asked (cl_world s) k \<longrightarrow> k \<in> q\<rbrakk> \<Longrightarrow>
     controller_step U yaml_marshal A asked classes workers s (s\<lparr>cl_world := w, cl_queue := q\<rparr>)"

inductive controller_reach ::
  "'o unstructured \<Rightarrow> (vault_object list \<Rightarrow> string + string) \<Rightarrow> ('w, 'o) kube \<Rightarrow>
   ('w \<Rightarrow> import_key \<Rightarrow> secrets_store_import option) \<Rightarrow> ('w \<Rightarrow> import_key \<Rightarrow> 'o option) \<Rightarrow> nat \<Rightarrow> ('w, 'o) controller \<Rightarrow> bool"
  for U yaml_marshal A asked classes workers where
  start: "controller_reach U yaml_marshal A asked classes workers (start_controller asked w)"
| step: "\<lbrakk>controller_reach U yaml_marshal A asked classes workers s; controller_step U yaml_marshal A asked classes workers s t\<rbrakk> \<Longrightarrow>
     controller_reach U yaml_marshal A asked classes workers t"

text \<open>A controller never ends by itself.\<close>

interpretation reconciles: actor_system "controller_step U yaml_marshal A asked classes workers"
    "key_acts U yaml_marshal A workers" "\<lambda>_. False"
  for U :: "'o unstructured" and yaml_marshal and A :: "('w, 'o) kube" and asked classes workers
  by unfold_locales (rule controller_step.act)

subsection \<open>What it relies on\<close>

text \<open>The API server shared by all workers: a call changes no import and at most the class it names.\<close>

definition kube_shared ::
  "'o unstructured \<Rightarrow> ('w, 'o) kube \<Rightarrow> ('w \<Rightarrow> import_key \<Rightarrow> secrets_store_import option) \<Rightarrow> ('w \<Rightarrow> import_key \<Rightarrow> 'o option) \<Rightarrow> bool" where
  "kube_shared U A asked classes \<longleftrightarrow> kube_lawful U A asked classes \<and>
     (\<forall>ns n w. asked (snd (get_import A ns n w)) = asked w \<and> asked (snd (get_class A ns n w)) = asked w \<and>
        (\<forall>ob. asked (snd (create_class A ns n ob w)) = asked w \<and> asked (snd (update_class A ns n ob w)) = asked w \<and>
           (\<forall>k. k \<noteq> (ns, n) \<longrightarrow> classes (snd (create_class A ns n ob w)) k = classes w k \<and>
              classes (snd (update_class A ns n ob w)) k = classes w k)))"

text \<open>A server that is up: reads succeed, and so do the creation of what does not exist and the update with the
  version that is stored.\<close>

definition kube_serves ::
  "'o unstructured \<Rightarrow> ('w, 'o) kube \<Rightarrow> ('w \<Rightarrow> import_key \<Rightarrow> secrets_store_import option) \<Rightarrow> ('w \<Rightarrow> import_key \<Rightarrow> 'o option) \<Rightarrow>
   ('w \<Rightarrow> bool) \<Rightarrow> bool" where
  "kube_serves U A asked classes up \<longleftrightarrow>
     (\<forall>v ob. resource_version U (set_resource_version U v ob) = v) \<and>
     (\<forall>ns n w. up w \<longrightarrow>
        (\<forall>ssi. asked w (ns, n) = Some ssi \<longrightarrow> fst (get_import A ns n w) = Inr ssi) \<and>
        fst (get_class A ns n w) = (case classes w (ns, n) of None \<Rightarrow> Inl ObjectNotFound | Some ob \<Rightarrow> Inr ob) \<and>
        (\<forall>ob. (classes w (ns, n) = None \<longrightarrow> fst (create_class A ns n ob w) = None) \<and>
           (map_option (resource_version U) (classes w (ns, n)) = Some (resource_version U ob) \<longrightarrow>
              fst (update_class A ns n ob w) = None)))"

subsection \<open>A key that is left alone has its class\<close>

text \<open>The class is one that an import asks for, up to the metadata.\<close>

definition class_for ::
  "'o unstructured \<Rightarrow> (vault_object list \<Rightarrow> string + string) \<Rightarrow> ('w \<Rightarrow> import_key \<Rightarrow> 'o option) \<Rightarrow> 'w \<Rightarrow> import_key \<Rightarrow>
   secrets_store_import \<Rightarrow> bool" where
  "class_for U yaml_marshal classes w k ssi \<longleftrightarrow>
     (\<exists>spc ob. create_secret_provider_class U yaml_marshal ssi = Inr spc \<and> classes w k = Some ob \<and> same_spec U spc ob)"

fun phase_import :: "'o reconcile_phase \<Rightarrow> secrets_store_import option" where
  "phase_import Picked = None"
| "phase_import (Built ssi spc) = Some ssi"
| "phase_import (Looked ssi spc v) = Some ssi"

fun phase_ok ::
  "'o unstructured \<Rightarrow> (vault_object list \<Rightarrow> string + string) \<Rightarrow> import_key \<Rightarrow> 'o reconcile_phase \<Rightarrow> bool" where
  "phase_ok U yaml_marshal k Picked = True"
| "phase_ok U yaml_marshal k (Built ssi spc) =
     (k = (ssi_namespace ssi, ssi_name ssi) \<and> create_secret_provider_class U yaml_marshal ssi = Inr spc)"
| "phase_ok U yaml_marshal k (Looked ssi spc v) =
     (k = (ssi_namespace ssi, ssi_name ssi) \<and> create_secret_provider_class U yaml_marshal ssi = Inr spc)"

text \<open>The laws of the server, call by call.\<close>

lemma shared_get_import:
  assumes "kube_shared U A asked classes" "get_import A ns n w = (r, w')"
  shows "asked w' = asked w" "classes w' = classes w"
    "r = Inr ssi \<Longrightarrow> asked w (ns, n) = Some ssi \<and> (ssi_namespace ssi, ssi_name ssi) = (ns, n)"
    "r = Inl ObjectNotFound \<Longrightarrow> asked w (ns, n) = None"
proof -
  have "asked (snd (get_import A ns n w)) = asked w" using assms(1) unfolding kube_shared_def by blast
  then show "asked w' = asked w" using assms(2) by simp
  from assms have law: "classes w' = classes w \<and>
      (case r of Inr ssi \<Rightarrow> asked w (ns, n) = Some ssi \<and> ssi_namespace ssi = ns \<and> ssi_name ssi = n
       | Inl f \<Rightarrow> f = ObjectNotFound \<longrightarrow> asked w (ns, n) = None)"
    unfolding kube_shared_def kube_lawful_def by blast
  then show "classes w' = classes w"
    "r = Inr ssi \<Longrightarrow> asked w (ns, n) = Some ssi \<and> (ssi_namespace ssi, ssi_name ssi) = (ns, n)"
    "r = Inl ObjectNotFound \<Longrightarrow> asked w (ns, n) = None" by auto
qed

lemma shared_get_class:
  assumes "kube_shared U A asked classes" "get_class A ns n w = (r, w')"
  shows "asked w' = asked w" "classes w' = classes w"
proof -
  have "asked (snd (get_class A ns n w)) = asked w" using assms(1) unfolding kube_shared_def by blast
  then show "asked w' = asked w" using assms(2) by simp
  show "classes w' = classes w" using assms unfolding kube_shared_def kube_lawful_def by blast
qed

lemma shared_write:
  assumes "kube_shared U A asked classes" "create_class A ns n ob w = (r, w') \<or> update_class A ns n ob w = (r, w')"
  shows "asked w' = asked w" "k \<noteq> (ns, n) \<Longrightarrow> classes w' k = classes w k"
    "r = None \<Longrightarrow> \<exists>ob'. same_spec U ob ob' \<and> classes w' (ns, n) = Some ob'"
proof -
  have law: "asked (snd (create_class A ns n ob w)) = asked w" "asked (snd (update_class A ns n ob w)) = asked w"
    "k \<noteq> (ns, n) \<Longrightarrow> classes (snd (create_class A ns n ob w)) k = classes w k"
    "k \<noteq> (ns, n) \<Longrightarrow> classes (snd (update_class A ns n ob w)) k = classes w k"
    using assms(1) unfolding kube_shared_def by blast+
  then show "asked w' = asked w" "k \<noteq> (ns, n) \<Longrightarrow> classes w' k = classes w k" using assms(2) by auto
  show "\<exists>ob'. same_spec U ob ob' \<and> classes w' (ns, n) = Some ob'" if "r = None"
    using that assms kube_lawful_write [of U A asked classes ns n ob w w'] unfolding kube_shared_def by fastforce
qed

text \<open>What one action does to the cluster, and what it goes on with.\<close>

lemma reconcile_step_cases:
  assumes "reconcile_step U yaml_marshal A k ph w = (x, w')" "phase_ok U yaml_marshal k ph"
  obtains r where "ph = Picked" "get_import A (fst k) (snd k) w = (r, w')"
      "x = Inr None \<Longrightarrow> r = Inl ObjectNotFound"
      "\<And>ph'. x = Inl ph' \<Longrightarrow> \<exists>ssi spc. r = Inr ssi \<and> create_secret_provider_class U yaml_marshal ssi = Inr spc \<and> ph' = Built ssi spc"
    | ssi spc r where "ph = Built ssi spc" "get_class A (fst k) (snd k) w = (r, w')" "x \<noteq> Inr None"
      "\<And>ph'. x = Inl ph' \<Longrightarrow> \<exists>v. ph' = Looked ssi spc v"
    | ssi spc v r ob where "ph = Looked ssi spc v"
      "create_class A (fst k) (snd k) ob w = (r, w') \<or> update_class A (fst k) (snd k) ob w = (r, w')"
      "ob = spc \<or> (\<exists>rv. ob = set_resource_version U rv spc)" "r = None \<longleftrightarrow> x = Inr None" "\<And>ph'. x \<noteq> Inl ph'"
proof (cases ph)
  case Picked
  obtain r w1 where "get_import A (fst k) (snd k) w = (r, w1)" by (cases "get_import A (fst k) (snd k) w")
  with assms(1) Picked that(1) [of r] show thesis by (cases k) (auto split: sum.splits api_failure.splits)
next
  case (Built ssi spc)
  obtain r w1 where "get_class A (fst k) (snd k) w = (r, w1)" by (cases "get_class A (fst k) (snd k) w")
  with assms Built that(2) [of ssi spc r] show thesis by (auto split: sum.splits api_failure.splits)
next
  case (Looked ssi spc v)
  show thesis
  proof (cases v)
    case None
    obtain r w1 where "create_class A (fst k) (snd k) spc w = (r, w1)" by (cases "create_class A (fst k) (snd k) spc w")
    with assms Looked None that(3) [of ssi spc v spc r] show thesis by (auto split: option.splits)
  next
    case (Some rv)
    obtain r w1 where "update_class A (fst k) (snd k) (set_resource_version U rv spc) w = (r, w1)"
      by (cases "update_class A (fst k) (snd k) (set_resource_version U rv spc) w")
    with assms Looked Some that(3) [of ssi spc v "set_resource_version U rv spc" r] show thesis by (auto split: option.splits)
  qed
qed

lemma reconcile_step_keeps:
  assumes "kube_shared U A asked classes" "phase_ok U yaml_marshal k ph" "reconcile_step U yaml_marshal A k ph w = (x, w')"
  shows "asked w' = asked w" "k' \<noteq> k \<Longrightarrow> classes w' k' = classes w k'"
  by (rule reconcile_step_cases [OF assms(3,2)]; use shared_get_import [OF assms(1)] shared_get_class [OF assms(1)]
      shared_write [OF assms(1), of "fst k" "snd k"] in \<open>metis prod.collapse\<close>)+

lemma reconcile_step_next:
  assumes "kube_shared U A asked classes" "phase_ok U yaml_marshal k ph" "reconcile_step U yaml_marshal A k ph w = (Inl ph', w')"
  shows "phase_ok U yaml_marshal k ph' \<and> phase_import ph' \<noteq> None \<and> classes w' = classes w \<and>
    phase_import ph' = (if ph = Picked then asked w k else phase_import ph)"
proof (rule reconcile_step_cases [OF assms(3,2)])
  fix r
  assume "ph = Picked" "get_import A (fst k) (snd k) w = (r, w')"
    "\<And>ph1. Inl ph' = (Inl ph1 :: _ + reconcile_error option) \<Longrightarrow>
      \<exists>ssi spc. r = Inr ssi \<and> create_secret_provider_class U yaml_marshal ssi = Inr spc \<and> ph1 = Built ssi spc"
  with shared_get_import [OF assms(1) this(2)] show ?thesis by fastforce
next
  fix ssi spc r
  assume "ph = Built ssi spc" "get_class A (fst k) (snd k) w = (r, w')"
    "\<And>ph1. Inl ph' = (Inl ph1 :: _ + reconcile_error option) \<Longrightarrow> \<exists>v. ph1 = Looked ssi spc v"
  with assms(2) shared_get_class [OF assms(1) this(2)] show ?thesis by fastforce
qed blast

lemma reconcile_step_done:
  assumes "unstructured_lawful U" "kube_shared U A asked classes" "phase_ok U yaml_marshal k ph"
    and "reconcile_step U yaml_marshal A k ph w = (Inr None, w')"
  shows "case phase_import ph of None \<Rightarrow> asked w k = None | Some ssi \<Rightarrow> class_for U yaml_marshal classes w' k ssi"
proof (rule reconcile_step_cases [OF assms(4,3)])
  fix ssi spc v r ob
  assume ph: "ph = Looked ssi spc v" and wr: "create_class A (fst k) (snd k) ob w = (r, w') \<or> update_class A (fst k) (snd k) ob w = (r, w')"
    and ob: "ob = spc \<or> (\<exists>rv. ob = set_resource_version U rv spc)" and "r = None \<longleftrightarrow> Inr None = (Inr None :: 'o reconcile_phase + _)"
  then obtain ob' where "same_spec U ob ob'" "classes w' k = Some ob'"
    using shared_write(3) [OF assms(2) wr] by auto
  moreover have "same_spec U spc ob'"
    using ob \<open>same_spec U ob ob'\<close> assms(1) by (auto simp: same_spec_def unstructured_lawful_def)
  ultimately show ?thesis using ph assms(3) by (auto simp: class_for_def)
qed (use shared_get_import(4) [OF assms(2), of "fst k" "snd k"] in auto)

text \<open>The invariant: a worker whose key is not in the queue again works for the import as it is.\<close>

definition controller_inv ::
  "'o unstructured \<Rightarrow> (vault_object list \<Rightarrow> string + string) \<Rightarrow> ('w \<Rightarrow> import_key \<Rightarrow> secrets_store_import option) \<Rightarrow>
   nat \<Rightarrow> ('w, 'o) controller \<Rightarrow> bool" where
  "controller_inv U yaml_marshal asked workers s \<longleftrightarrow>
     distinct_keys (cl_active s) \<and> length (cl_active s) \<le> workers \<and>
     (\<forall>k ph. map_of (cl_active s) k = Some ph \<longrightarrow> phase_ok U yaml_marshal k ph \<and>
        (k \<notin> cl_queue s \<and> ph \<noteq> Picked \<longrightarrow> phase_import ph = asked (cl_world s) k))"

lemma key_acts_cases:
  assumes "key_acts U yaml_marshal A workers k s t"
  obtains "map_of (cl_active s) k = None" "k \<in> cl_queue s" "length (cl_active s) < workers"
      "t = s\<lparr>cl_queue := cl_queue s - {k}, cl_active := (k, Picked) # cl_active s\<rparr>"
    | ph ph' w where "map_of (cl_active s) k = Some ph" "reconcile_step U yaml_marshal A k ph (cl_world s) = (Inl ph', w)"
      "t = s\<lparr>cl_world := w, cl_active := AList.update k ph' (cl_active s)\<rparr>"
    | ph r w where "map_of (cl_active s) k = Some ph" "reconcile_step U yaml_marshal A k ph (cl_world s) = (Inr r, w)"
      "t = s\<lparr>cl_world := w, cl_active := AList.delete k (cl_active s),
         cl_queue := (if r = None then cl_queue s else insert k (cl_queue s))\<rparr>"
  using assms by (auto simp: key_acts_def key_action_def split: option.splits prod.splits sum.splits if_splits)

lemma worker_can_act: "map_of (cl_active s) k = Some ph \<Longrightarrow> \<exists>t. key_acts U yaml_marshal A workers k s t"
proof -
  assume ph: "map_of (cl_active s) k = Some ph"
  obtain x w where "reconcile_step U yaml_marshal A k ph (cl_world s) = (x, w)"
    by (cases "reconcile_step U yaml_marshal A k ph (cl_world s)")
  with ph show ?thesis by (cases x) (simp_all add: key_acts_def key_action_def)
qed

lemma class_for_kept: "classes w' k = classes w k \<Longrightarrow> class_for U yaml_marshal classes w' k = class_for U yaml_marshal classes w k"
  by (simp add: class_for_def fun_eq_iff)

lemma inv_phase_ok:
  "controller_inv U yaml_marshal asked workers s \<Longrightarrow> map_of (cl_active s) k = Some ph \<Longrightarrow> phase_ok U yaml_marshal k ph"
  unfolding controller_inv_def by blast

lemma controller_inv_act:
  assumes laws: "unstructured_lawful U" "kube_shared U A asked classes"
    and inv: "controller_inv U yaml_marshal asked workers s" and act: "key_acts U yaml_marshal A workers k s t"
  shows "controller_inv U yaml_marshal asked workers t"
proof (rule key_acts_cases [OF act])
  assume "map_of (cl_active s) k = None" "length (cl_active s) < workers"
    "t = s\<lparr>cl_queue := cl_queue s - {k}, cl_active := (k, Picked) # cl_active s\<rparr>"
  with inv show ?thesis by (auto simp: controller_inv_def map_of_eq_None_iff split: if_splits)
next
  fix ph ph' w
  assume ph: "map_of (cl_active s) k = Some ph" and st: "reconcile_step U yaml_marshal A k ph (cl_world s) = (Inl ph', w)"
    and t: "t = s\<lparr>cl_world := w, cl_active := AList.update k ph' (cl_active s)\<rparr>"
  have ok: "phase_ok U yaml_marshal k ph" by (rule inv_phase_ok [OF inv ph])
  from inv reconcile_step_keeps(1) [OF laws(2) ok st] reconcile_step_next [OF laws(2) ok st] ph show ?thesis
    by (auto simp: controller_inv_def t update_conv' distinct_update length_update_present split: if_splits)
next
  fix ph r w
  assume ph: "map_of (cl_active s) k = Some ph" and st: "reconcile_step U yaml_marshal A k ph (cl_world s) = (Inr r, w)"
    and t: "t = s\<lparr>cl_world := w, cl_active := AList.delete k (cl_active s),
         cl_queue := (if r = None then cl_queue s else insert k (cl_queue s))\<rparr>"
  have "distinct_keys (AList.delete k (cl_active s))" "length (AList.delete k (cl_active s)) \<le> workers"
    using inv length_delete_le [of k "cl_active s"] by (auto simp: controller_inv_def distinct_delete)
  with inv reconcile_step_keeps(1) [OF laws(2) inv_phase_ok [OF inv ph] st] show ?thesis
    unfolding controller_inv_def by (auto simp: t delete_conv' split: if_splits)
qed

lemma controller_reach_inv:
  assumes laws: "unstructured_lawful U" "kube_shared U A asked classes"
  shows "controller_reach U yaml_marshal A asked classes workers s \<Longrightarrow> controller_inv U yaml_marshal asked workers s"
proof (induction rule: controller_reach.induct)
  case (step s t)
  from step(2) show ?case
  proof (cases rule: controller_step.cases)
    case (act k)
    from controller_inv_act [OF laws step.IH act] show ?thesis .
  next
    case (outside q w)
    have "asked w k = asked (cl_world s) k \<and> k \<notin> cl_queue s" if "k \<notin> q" for k
      using outside(2,3) that by blast
    then show ?thesis
      using step.IH unfolding controller_inv_def by (auto simp: outside(1))
  qed
qed (auto simp: start_controller_def controller_inv_def)

text \<open>The key of an import is attended to: it is in the queue, with a worker, or needs nothing.\<close>

definition attended ::
  "'o unstructured \<Rightarrow> (vault_object list \<Rightarrow> string + string) \<Rightarrow> ('w \<Rightarrow> import_key \<Rightarrow> secrets_store_import option) \<Rightarrow>
   ('w \<Rightarrow> import_key \<Rightarrow> 'o option) \<Rightarrow> import_key \<Rightarrow> ('w, 'o) controller \<Rightarrow> bool" where
  "attended U yaml_marshal asked classes k s \<longleftrightarrow> k \<in> cl_queue s \<or> map_of (cl_active s) k \<noteq> None \<or>
     (\<forall>ssi. asked (cl_world s) k = Some ssi \<longrightarrow> class_for U yaml_marshal classes (cl_world s) k ssi)"

text \<open>It stays so as long as nobody but the controller changes its class.\<close>

lemma attended_step:
  assumes laws: "unstructured_lawful U" "kube_shared U A asked classes"
    and inv: "controller_inv U yaml_marshal asked workers s"
    and step: "controller_step U yaml_marshal A asked classes workers s t"
    and own: "key_acts U yaml_marshal A workers k s t \<or> classes (cl_world t) k = classes (cl_world s) k"
    and att: "attended U yaml_marshal asked classes k s"
  shows "attended U yaml_marshal asked classes k t"
proof (cases "key_acts U yaml_marshal A workers k s t")
  case True
  then show ?thesis
  proof (cases rule: key_acts_cases)
    case (3 ph r w)
    have ok: "phase_ok U yaml_marshal k ph" by (rule inv_phase_ok [OF inv 3(1)])
    have "class_for U yaml_marshal classes w k ssi" if "k \<notin> cl_queue t" "asked w k = Some ssi" for ssi
    proof -
      from that(1) 3(3) have "r = None" "k \<notin> cl_queue s" by (auto split: if_splits)
      with inv 3(1) have "ph \<noteq> Picked \<Longrightarrow> phase_import ph = asked w k"
        unfolding controller_inv_def reconcile_step_keeps(1) [OF laws(2) ok 3(2)] by blast
      with reconcile_step_done [OF laws ok] 3(2) \<open>r = None\<close> that(2) reconcile_step_keeps(1) [OF laws(2) ok 3(2)]
      show ?thesis by (cases ph) auto
    qed
    then show ?thesis by (auto simp: attended_def 3(3))
  qed (auto simp: attended_def update_conv')
next
  case False
  with own have cl: "classes (cl_world t) k = classes (cl_world s) k" by blast
  have "map_of (cl_active t) k = map_of (cl_active s) k \<and> (k \<in> cl_queue s \<longrightarrow> k \<in> cl_queue t) \<and>
      (k \<in> cl_queue t \<or> asked (cl_world t) k = asked (cl_world s) k)"
    using step
  proof (cases rule: controller_step.cases)
    case (act k')
    with False have "k' \<noteq> k" by blast
    with act show ?thesis
      using reconcile_step_keeps(1) [OF laws(2) inv_phase_ok [OF inv]]
      by (cases rule: key_acts_cases [OF act]) (auto simp: update_conv' delete_conv')
  qed (cases k, auto)
  with att class_for_kept [of classes, OF cl] show ?thesis by (auto simp: attended_def)
qed

subsection \<open>Every worker gets free again\<close>

lemma controller_step_key:
  assumes "controller_step U yaml_marshal A asked classes workers s t" "\<not> key_acts U yaml_marshal A workers k s t"
  shows "map_of (cl_active t) k = map_of (cl_active s) k" "k \<in> cl_queue s \<Longrightarrow> k \<in> cl_queue t"
proof -
  have "map_of (cl_active t) k = map_of (cl_active s) k \<and> (k \<in> cl_queue s \<longrightarrow> k \<in> cl_queue t)"
    using assms(1)
  proof (cases rule: controller_step.cases)
    case (act k')
    with assms(2) have "k' \<noteq> k" by blast
    with act show ?thesis by (auto elim!: key_acts_cases simp: update_conv' delete_conv')
  qed auto
  then show "map_of (cl_active t) k = map_of (cl_active s) k" "k \<in> cl_queue s \<Longrightarrow> k \<in> cl_queue t" by auto
qed

fun phase_rank :: "'o reconcile_phase \<Rightarrow> nat" where
  "phase_rank Picked = 2"
| "phase_rank (Built ssi spc) = 1"
| "phase_rank (Looked ssi spc v) = 0"

lemma reconcile_step_rank:
  assumes "reconcile_step U yaml_marshal A k ph w = (Inl ph', w')"
  shows "phase_rank ph' < phase_rank ph"
  using assms
  by (cases "(U, yaml_marshal, A, k, ph, w)" rule: reconcile_step.cases)
     (auto split: prod.splits sum.splits api_failure.splits option.splits)

text \<open>An action of a worker: a later phase with \<open>T\<close>, or the end with \<open>D\<close>, and the worker is free.\<close>

definition worker_goes_on :: "import_key \<Rightarrow> nat \<Rightarrow> ('w \<Rightarrow> 'o reconcile_phase \<Rightarrow> bool) \<Rightarrow> ('w, 'o) controller \<Rightarrow> bool" where
  "worker_goes_on k n T s \<longleftrightarrow> (\<exists>ph. map_of (cl_active s) k = Some ph \<and> T (cl_world s) ph \<and> phase_rank ph < n)"

definition worker_free :: "import_key \<Rightarrow> nat \<Rightarrow> ('w \<Rightarrow> bool) \<Rightarrow> ('w, 'o) controller \<Rightarrow> bool" where
  "worker_free k workers D s \<longleftrightarrow> map_of (cl_active s) k = None \<and> length (cl_active s) < workers \<and> D (cl_world s)"

lemma key_acts_result:
  assumes inv: "controller_inv U yaml_marshal asked workers s" and ph: "map_of (cl_active s) k = Some ph"
    and act: "key_acts U yaml_marshal A workers k s t"
    and adv: "\<And>ph' w. reconcile_step U yaml_marshal A k ph (cl_world s) = (Inl ph', w) \<Longrightarrow> T w ph'"
    and fin: "\<And>r w. reconcile_step U yaml_marshal A k ph (cl_world s) = (Inr r, w) \<Longrightarrow> D w"
  shows "worker_goes_on k (phase_rank ph) T t \<or> worker_free k workers D t"
proof (rule key_acts_cases [OF act])
  fix ph1 ph' w
  assume a: "map_of (cl_active s) k = Some ph1" "reconcile_step U yaml_marshal A k ph1 (cl_world s) = (Inl ph', w)"
    "t = s\<lparr>cl_world := w, cl_active := AList.update k ph' (cl_active s)\<rparr>"
  with ph have st: "reconcile_step U yaml_marshal A k ph (cl_world s) = (Inl ph', w)" by simp
  from adv [OF st] reconcile_step_rank [OF st] show ?thesis by (simp add: a(3) update_conv' worker_goes_on_def)
next
  fix ph1 r w
  assume a: "map_of (cl_active s) k = Some ph1" "reconcile_step U yaml_marshal A k ph1 (cl_world s) = (Inr r, w)"
    "t = s\<lparr>cl_world := w, cl_active := AList.delete k (cl_active s),
       cl_queue := (if r = None then cl_queue s else insert k (cl_queue s))\<rparr>"
  with ph have st: "reconcile_step U yaml_marshal A k ph (cl_world s) = (Inr r, w)" by simp
  have "k \<in> fst ` set (cl_active s)" using a(1) by (force dest: map_of_SomeD)
  moreover have "distinct_keys (cl_active s)" "length (cl_active s) \<le> workers" using inv unfolding controller_inv_def by blast+
  ultimately have "length (AList.delete k (cl_active s)) < workers" using length_delete_distinct [of "cl_active s" k] by simp
  with fin [OF st] show ?thesis by (simp add: a(3) delete_conv' worker_free_def)
qed (use ph in simp)

text \<open>A worker ends its reconciliation.\<close>

lemma reconcile_ends:
  assumes run: "run_of (controller_step U yaml_marshal A asked classes workers) (\<lambda>_. False) \<sigma>"
    and fair: "fair_run (key_acts U yaml_marshal A workers) (\<lambda>_. False) \<sigma>"
    and inv: "\<And>j. controller_inv U yaml_marshal asked workers (\<sigma> j)"
    and keep: "\<And>j ph. n \<le> j \<Longrightarrow> \<not> key_acts U yaml_marshal A workers k (\<sigma> j) (\<sigma> (Suc j)) \<Longrightarrow>
      T (cl_world (\<sigma> j)) ph \<Longrightarrow> T (cl_world (\<sigma> (Suc j))) ph"
    and adv: "\<And>j ph ph' w. n \<le> j \<Longrightarrow> phase_ok U yaml_marshal k ph \<Longrightarrow> T (cl_world (\<sigma> j)) ph \<Longrightarrow>
      reconcile_step U yaml_marshal A k ph (cl_world (\<sigma> j)) = (Inl ph', w) \<Longrightarrow> T w ph'"
    and fin: "\<And>j ph r w. n \<le> j \<Longrightarrow> phase_ok U yaml_marshal k ph \<Longrightarrow> T (cl_world (\<sigma> j)) ph \<Longrightarrow>
      reconcile_step U yaml_marshal A k ph (cl_world (\<sigma> j)) = (Inr r, w) \<Longrightarrow> D w"
  shows "n \<le> i \<Longrightarrow> map_of (cl_active (\<sigma> i)) k = Some ph \<Longrightarrow> T (cl_world (\<sigma> i)) ph \<Longrightarrow>
    \<exists>j\<ge>i. worker_free k workers D (\<sigma> j)"
proof (induction "phase_rank ph" arbitrary: ph i rule: less_induct)
  case less
  let ?P = "\<lambda>s. map_of (cl_active s) k = Some ph \<and> T (cl_world s) ph"
  let ?Q = "\<lambda>s. worker_goes_on k (phase_rank ph) T s \<or> worker_free k workers D s"
  have move: "?Q (\<sigma> (Suc j))" if "i \<le> j" "?P (\<sigma> j)" "key_acts U yaml_marshal A workers k (\<sigma> j) (\<sigma> (Suc j))" for j
  proof (rule key_acts_result [OF inv _ that(3)])
    have "n \<le> j" "phase_ok U yaml_marshal k ph" "T (cl_world (\<sigma> j)) ph"
      using that(1,2) less.prems(1) inv_phase_ok [OF inv [of j], of k ph] by auto
    with adv fin show "reconcile_step U yaml_marshal A k ph (cl_world (\<sigma> j)) = (Inl ph', w) \<Longrightarrow> T w ph'"
      "reconcile_step U yaml_marshal A k ph (cl_world (\<sigma> j)) = (Inr r, w) \<Longrightarrow> D w" for ph' r w by blast+
  qed (use that(2) in blast)
  have "\<exists>j\<ge>i. ?Q (\<sigma> j)"
  proof (rule reconciles.leads_to_ready [OF run fair, where P = ?P and g = k])
    show "?P (\<sigma> i)" using less.prems by blast
    show "ready (key_acts U yaml_marshal A workers) (\<lambda>_. False) k (\<sigma> j)" if "?P (\<sigma> j)" for j
      using that by (auto simp: ready_def intro: worker_can_act)
    show "?P (\<sigma> (Suc j)) \<or> ?Q (\<sigma> (Suc j))"
      if "i \<le> j" "?P (\<sigma> j)" "controller_step U yaml_marshal A asked classes workers (\<sigma> j) (\<sigma> (Suc j))" for j
    proof (cases "key_acts U yaml_marshal A workers k (\<sigma> j) (\<sigma> (Suc j))")
      case False
      from controller_step_key [OF that(3) False] keep [OF _ False] that(1,2) less.prems(1) show ?thesis by simp
    qed (use move [OF that(1,2)] in blast)
  qed (use move in blast)+
  then obtain j where j: "i \<le> j" "?Q (\<sigma> j)" by blast
  show ?case
  proof (cases "worker_free k workers D (\<sigma> j)")
    case False
    with j(2) obtain ph' where ph': "phase_rank ph' < phase_rank ph" "map_of (cl_active (\<sigma> j)) k = Some ph'" "T (cl_world (\<sigma> j)) ph'"
      by (auto simp: worker_goes_on_def)
    from less.hyps [OF ph'(1) _ ph'(2,3)] less.prems(1) j(1) show ?thesis by (meson order_trans)
  qed (use j(1) in blast)
qed

text \<open>So a key in the queue is taken by some worker.\<close>

lemma key_is_picked:
  assumes run: "run_of (controller_step U yaml_marshal A asked classes workers) (\<lambda>_. False) \<sigma>"
    and fair: "fair_run (key_acts U yaml_marshal A workers) (\<lambda>_. False) \<sigma>"
    and inv: "\<And>j. controller_inv U yaml_marshal asked workers (\<sigma> j)"
    and workers: "0 < workers" and k: "k \<in> cl_queue (\<sigma> i)" "map_of (cl_active (\<sigma> i)) k = None"
  shows "\<exists>j\<ge>i. map_of (cl_active (\<sigma> j)) k = Some Picked"
proof (rule reconciles.leads_to [OF run fair, where P = "\<lambda>s. k \<in> cl_queue s \<and> map_of (cl_active s) k = None" and g = k])
  show "k \<in> cl_queue (\<sigma> i) \<and> map_of (cl_active (\<sigma> i)) k = None" using k by blast
  fix j
  assume j: "k \<in> cl_queue (\<sigma> j) \<and> map_of (cl_active (\<sigma> j)) k = None"
  show moved: "map_of (cl_active (\<sigma> (Suc j))) k = Some Picked" if "key_acts U yaml_marshal A workers k (\<sigma> j) (\<sigma> (Suc j))"
    using that j by (auto elim: key_acts_cases)
  show "(k \<in> cl_queue (\<sigma> (Suc j)) \<and> map_of (cl_active (\<sigma> (Suc j))) k = None) \<or> map_of (cl_active (\<sigma> (Suc j))) k = Some Picked"
    if "controller_step U yaml_marshal A asked classes workers (\<sigma> j) (\<sigma> (Suc j))"
    using controller_step_key [OF that] moved j by metis
next
  assume stays: "\<And>j. i \<le> j \<Longrightarrow> k \<in> cl_queue (\<sigma> j) \<and> map_of (cl_active (\<sigma> j)) k = None"
  show "\<forall>m. \<exists>j\<ge>m. ready (key_acts U yaml_marshal A workers) (\<lambda>_. False) k (\<sigma> j)"
  proof
    fix m
    have "\<exists>j\<ge>max i m. length (cl_active (\<sigma> j)) < workers"
    proof (cases "cl_active (\<sigma> (max i m))")
      case (Cons a as)
      then have "map_of (cl_active (\<sigma> (max i m))) (fst a) = Some (snd a)" by (cases a) simp
      from reconcile_ends [OF run fair inv, where T = "\<lambda>_ _. True" and D = "\<lambda>_. True" and n = 0, OF _ _ _ _ this]
      show ?thesis by (auto simp: worker_free_def)
    qed (use workers in \<open>auto intro: exI [of _ "max i m"]\<close>)
    then obtain j where "i \<le> j" "m \<le> j" "length (cl_active (\<sigma> j)) < workers" by auto
    with stays [of j] show "\<exists>j\<ge>m. ready (key_acts U yaml_marshal A workers) (\<lambda>_. False) k (\<sigma> j)"
      by (auto simp: ready_def key_acts_def key_action_def)
  qed
qed

subsection \<open>What quiet times lead to\<close>

text \<open>From position \<open>h\<close> on nobody but the controller changes the class.\<close>

definition class_left_from ::
  "'o unstructured \<Rightarrow> (vault_object list \<Rightarrow> string + string) \<Rightarrow> ('w, 'o) kube \<Rightarrow> ('w \<Rightarrow> import_key \<Rightarrow> 'o option) \<Rightarrow> nat \<Rightarrow>
   import_key \<Rightarrow> (nat \<Rightarrow> ('w, 'o) controller) \<Rightarrow> nat \<Rightarrow> bool" where
  "class_left_from U yaml_marshal A classes workers k \<sigma> h \<longleftrightarrow>
     (\<forall>j\<ge>h. key_acts U yaml_marshal A workers k (\<sigma> j) (\<sigma> (Suc j)) \<or> classes (cl_world (\<sigma> (Suc j))) k = classes (cl_world (\<sigma> j)) k)"

text \<open>From position \<open>i\<close> on the server is up, nobody changes the import, and nobody but the controller its class.\<close>

definition quiet_from ::
  "'o unstructured \<Rightarrow> (vault_object list \<Rightarrow> string + string) \<Rightarrow> ('w, 'o) kube \<Rightarrow>
   ('w \<Rightarrow> import_key \<Rightarrow> secrets_store_import option) \<Rightarrow> ('w \<Rightarrow> import_key \<Rightarrow> 'o option) \<Rightarrow> ('w \<Rightarrow> bool) \<Rightarrow> nat \<Rightarrow>
   import_key \<Rightarrow> (nat \<Rightarrow> ('w, 'o) controller) \<Rightarrow> nat \<Rightarrow> bool" where
  "quiet_from U yaml_marshal A asked classes up workers k \<sigma> i \<longleftrightarrow>
     (\<forall>j\<ge>i. up (cl_world (\<sigma> j)) \<and> asked (cl_world (\<sigma> j)) k = asked (cl_world (\<sigma> i)) k \<and>
        (key_acts U yaml_marshal A workers k (\<sigma> j) (\<sigma> (Suc j)) \<or> classes (cl_world (\<sigma> (Suc j))) k = classes (cl_world (\<sigma> j)) k))"

text \<open>A worker that works for the import as it is, with the version of the class as it is.\<close>

fun on_track ::
  "'o unstructured \<Rightarrow> ('w \<Rightarrow> import_key \<Rightarrow> 'o option) \<Rightarrow> import_key \<Rightarrow> secrets_store_import \<Rightarrow> 'w \<Rightarrow> 'o reconcile_phase \<Rightarrow> bool" where
  "on_track U classes k ssi w Picked = True"
| "on_track U classes k ssi w (Built ssi' spc) = (ssi' = ssi)"
| "on_track U classes k ssi w (Looked ssi' spc v) = (ssi' = ssi \<and> v = map_option (resource_version U) (classes w k))"

lemma on_track_kept: "classes w' k = classes w k \<Longrightarrow> on_track U classes k ssi w' ph = on_track U classes k ssi w ph"
  by (cases ph) auto

lemma reconcile_step_on_track:
  assumes laws: "unstructured_lawful U" "kube_shared U A asked classes" "kube_serves U A asked classes up"
    and w: "up w" "asked w k = Some ssi" "create_secret_provider_class U yaml_marshal ssi = Inr spc"
    and ph: "phase_ok U yaml_marshal k ph" "on_track U classes k ssi w ph"
    and st: "reconcile_step U yaml_marshal A k ph w = (x, w')"
  shows "case x of Inl ph' \<Rightarrow> on_track U classes k ssi w' ph' \<and> classes w' = classes w
    | Inr r \<Rightarrow> r = None \<and> class_for U yaml_marshal classes w' k ssi"
proof (cases ph)
  case Picked
  have "fst (get_import A (fst k) (snd k) w) = Inr ssi"
    using laws(3) w(1,2) unfolding kube_serves_def by (metis prod.collapse)
  then obtain w1 where g: "get_import A (fst k) (snd k) w = (Inr ssi, w1)" by (metis prod.collapse)
  from shared_get_import(2) [OF laws(2) g] Picked g w(3) st show ?thesis by (cases k) auto
next
  case (Built ssi' spc')
  obtain r w1 where g: "get_class A (fst k) (snd k) w = (r, w1)" by (cases "get_class A (fst k) (snd k) w")
  have "fst (get_class A (fst k) (snd k) w) = (case classes w k of None \<Rightarrow> Inl ObjectNotFound | Some ob \<Rightarrow> Inr ob)"
    using laws(3) w(1) unfolding kube_serves_def by (metis prod.collapse)
  with g have "r = (case classes w k of None \<Rightarrow> Inl ObjectNotFound | Some ob \<Rightarrow> Inr ob)" by simp
  with shared_get_class(2) [OF laws(2) g] Built g ph st show ?thesis by (cases "classes w k") auto
next
  case (Looked ssi' spc' v)
  with ph w(3) have eq: "ssi' = ssi" "spc' = spc" "k = (ssi_namespace ssi, ssi_name ssi)"
    "v = map_option (resource_version U) (classes w k)" by auto
  have serve: "classes w k = None \<Longrightarrow> fst (create_class A (fst k) (snd k) spc w) = None"
    "map_option (resource_version U) (classes w k) = Some (resource_version U ob) \<Longrightarrow> fst (update_class A (fst k) (snd k) ob w) = None"
    "resource_version U (set_resource_version U rv spc) = rv" for ob rv
    using laws(3) w(1) unfolding kube_serves_def by (metis prod.collapse)+
  have "x = Inr None"
  proof (cases "classes w k")
    case None
    with Looked eq serve(1) st show ?thesis by (auto split: prod.splits option.splits)
  next
    case (Some ob)
    with Looked eq serve(2) [of "set_resource_version U (resource_version U ob) spc"] serve(3) st show ?thesis
      by (auto split: prod.splits option.splits)
  qed
  with reconcile_step_done [OF laws(1,2) ph(1)] st Looked eq(1) show ?thesis by simp
qed

definition converged ::
  "'o unstructured \<Rightarrow> (vault_object list \<Rightarrow> string + string) \<Rightarrow> ('w \<Rightarrow> import_key \<Rightarrow> 'o option) \<Rightarrow> import_key \<Rightarrow>
   secrets_store_import \<Rightarrow> ('w, 'o) controller \<Rightarrow> bool" where
  "converged U yaml_marshal classes k ssi s \<longleftrightarrow> class_for U yaml_marshal classes (cl_world s) k ssi \<and>
     (\<forall>ph. map_of (cl_active s) k = Some ph \<longrightarrow> on_track U classes k ssi (cl_world s) ph)"

lemma converged_step:
  assumes laws: "unstructured_lawful U" "kube_shared U A asked classes" "kube_serves U A asked classes up"
    and inv: "controller_inv U yaml_marshal asked workers s"
    and s: "up (cl_world s)" "asked (cl_world s) k = Some ssi" "create_secret_provider_class U yaml_marshal ssi = Inr spc"
    and step: "controller_step U yaml_marshal A asked classes workers s t"
    and own: "key_acts U yaml_marshal A workers k s t \<or> classes (cl_world t) k = classes (cl_world s) k"
    and conv: "converged U yaml_marshal classes k ssi s"
  shows "converged U yaml_marshal classes k ssi t"
proof (cases "key_acts U yaml_marshal A workers k s t")
  case False
  with own have "classes (cl_world t) k = classes (cl_world s) k" by blast
  from class_for_kept [of classes, OF this] on_track_kept [of classes, OF this] controller_step_key(1) [OF step False] conv
  show ?thesis by (simp add: converged_def)
next
  case True
  then show ?thesis
  proof (cases rule: key_acts_cases)
    case 1
    with conv show ?thesis by (simp add: converged_def)
  next
    case (2 ph ph' w)
    have "on_track U classes k ssi (cl_world s) ph" using conv 2(1) by (simp add: converged_def)
    from reconcile_step_on_track [OF laws s inv_phase_ok [OF inv 2(1)] this 2(2)] class_for_kept [of classes w k "cl_world s"] conv
    show ?thesis by (simp add: converged_def 2(3) update_conv')
  next
    case (3 ph r w)
    have "on_track U classes k ssi (cl_world s) ph" using conv 3(1) by (simp add: converged_def)
    from reconcile_step_on_track [OF laws s inv_phase_ok [OF inv 3(1)] this 3(2)]
    show ?thesis by (simp add: converged_def 3(3) delete_conv')
  qed
qed

lemma controller_reach_run:
  assumes "run_of (controller_step U yaml_marshal A asked classes workers) (\<lambda>_. False) \<sigma>" "\<sigma> 0 = start_controller asked w"
  shows "controller_reach U yaml_marshal A asked classes workers (\<sigma> i)"
proof (induction i)
  case (Suc i)
  with assms(1) show ?case by (auto simp: run_of_def intro: controller_reach.step)
qed (simp add: assms(2) controller_reach.start)

lemma quiet_fromD:
  assumes "quiet_from U yaml_marshal A asked classes up workers k \<sigma> i" "asked (cl_world (\<sigma> i)) k = Some ssi" "i \<le> j"
  shows "up (cl_world (\<sigma> j))" "asked (cl_world (\<sigma> j)) k = Some ssi"
    "key_acts U yaml_marshal A workers k (\<sigma> j) (\<sigma> (Suc j)) \<or> classes (cl_world (\<sigma> (Suc j))) k = classes (cl_world (\<sigma> j)) k"
  using assms by (auto simp: quiet_from_def)

lemma picked_converges:
  assumes laws: "unstructured_lawful U" "kube_shared U A asked classes" "kube_serves U A asked classes up"
    and run: "run_of (controller_step U yaml_marshal A asked classes workers) (\<lambda>_. False) \<sigma>"
    and fair: "fair_run (key_acts U yaml_marshal A workers) (\<lambda>_. False) \<sigma>"
    and inv: "\<And>j. controller_inv U yaml_marshal asked workers (\<sigma> j)"
    and quiet: "quiet_from U yaml_marshal A asked classes up workers k \<sigma> i"
    and ssi: "asked (cl_world (\<sigma> i)) k = Some ssi" "create_secret_provider_class U yaml_marshal ssi = Inr spc"
    and j: "i \<le> j" "map_of (cl_active (\<sigma> j)) k = Some Picked"
  shows "\<exists>l\<ge>j. converged U yaml_marshal classes k ssi (\<sigma> l)"
proof -
  note q = quiet_fromD [OF quiet ssi(1)]
  have "\<exists>l\<ge>j. worker_free k workers (\<lambda>w. class_for U yaml_marshal classes w k ssi) (\<sigma> l)"
  proof (rule reconcile_ends [OF run fair inv, where T = "on_track U classes k ssi" and n = i, OF _ _ _ j])
    show "on_track U classes k ssi (cl_world (\<sigma> (Suc m))) ph"
      if "i \<le> m" "\<not> key_acts U yaml_marshal A workers k (\<sigma> m) (\<sigma> (Suc m))" "on_track U classes k ssi (cl_world (\<sigma> m)) ph" for m ph
      using q(3) [OF that(1)] that(2,3) on_track_kept [of classes _ k] by metis
    show "on_track U classes k ssi w ph'"
      if "i \<le> m" "phase_ok U yaml_marshal k ph" "on_track U classes k ssi (cl_world (\<sigma> m)) ph"
        "reconcile_step U yaml_marshal A k ph (cl_world (\<sigma> m)) = (Inl ph', w)" for m ph ph' w
      using reconcile_step_on_track [OF laws q(1,2) [OF that(1)] ssi(2) that(2-4)] by simp
    show "class_for U yaml_marshal classes w k ssi"
      if "i \<le> m" "phase_ok U yaml_marshal k ph" "on_track U classes k ssi (cl_world (\<sigma> m)) ph"
        "reconcile_step U yaml_marshal A k ph (cl_world (\<sigma> m)) = (Inr r, w)" for m ph r w
      using reconcile_step_on_track [OF laws q(1,2) [OF that(1)] ssi(2) that(2-4)] by simp
  qed simp
  then show ?thesis by (auto simp: worker_free_def converged_def)
qed

lemma attended_later:
  assumes laws: "unstructured_lawful U" "kube_shared U A asked classes"
    and run: "run_of (controller_step U yaml_marshal A asked classes workers) (\<lambda>_. False) \<sigma>"
    and inv: "\<And>j. controller_inv U yaml_marshal asked workers (\<sigma> j)"
    and left: "class_left_from U yaml_marshal A classes workers k \<sigma> h" and att: "attended U yaml_marshal asked classes k (\<sigma> h)"
  shows "h \<le> j \<Longrightarrow> attended U yaml_marshal asked classes k (\<sigma> j)"
proof (induction rule: dec_induct)
  case (step j)
  from left step(1) attended_step [OF laws inv reconciles.run_step [OF run, of j] _ step.IH] show ?case
    by (simp add: class_left_from_def)
qed (rule att)

lemma converges:
  assumes laws: "unstructured_lawful U" "kube_shared U A asked classes" "kube_serves U A asked classes up"
    and run: "run_of (controller_step U yaml_marshal A asked classes workers) (\<lambda>_. False) \<sigma>"
    and fair: "fair_run (key_acts U yaml_marshal A workers) (\<lambda>_. False) \<sigma>"
    and inv: "\<And>j. controller_inv U yaml_marshal asked workers (\<sigma> j)" and workers: "0 < workers"
    and quiet: "quiet_from U yaml_marshal A asked classes up workers k \<sigma> i"
    and ssi: "asked (cl_world (\<sigma> i)) k = Some ssi" "create_secret_provider_class U yaml_marshal ssi = Inr spc"
    and att: "\<And>j. i \<le> j \<Longrightarrow> attended U yaml_marshal asked classes k (\<sigma> j)"
  shows "\<exists>j\<ge>i. converged U yaml_marshal classes k ssi (\<sigma> j)"
proof -
  note picked = picked_converges [OF laws run fair inv quiet ssi]
  have "\<exists>j\<ge>i. map_of (cl_active (\<sigma> j)) k = None"
  proof (cases "map_of (cl_active (\<sigma> i)) k")
    case (Some ph)
    from reconcile_ends [OF run fair inv, where T = "\<lambda>_ _. True" and D = "\<lambda>_. True" and n = 0, OF _ _ _ _ this]
    show ?thesis by (auto simp: worker_free_def)
  qed blast
  then obtain j where j: "i \<le> j" "map_of (cl_active (\<sigma> j)) k = None" by blast
  show ?thesis
  proof (cases "k \<in> cl_queue (\<sigma> j)")
    case True
    from key_is_picked [OF run fair inv workers True j(2)] picked j(1) show ?thesis by (meson order_trans)
  next
    case False
    with att [OF j(1)] j(2) quiet_fromD(2) [OF quiet ssi(1) j(1)]
    have "class_for U yaml_marshal classes (cl_world (\<sigma> j)) k ssi" by (simp add: attended_def)
    with j show ?thesis by (auto simp: converged_def)
  qed
qed

text \<open>C8: the controller converges although it reconciles concurrently. Alone, the actions of a worker are \<open>Reconcile\<close>.
  In every interleaving of any positive number of workers and of others, who may change imports and classes in any
  way, after any history of failures and conflicts: suppose that at some point \<open>h\<close> the key of an import is in the queue or with
  a worker (as after every change of the import, and after the start of the controller; or else that its class is
  then as asked), and that from then on nobody but the controller changes its class. Once (\<open>i\<close>) the API server is up and the
  import stays as it is, the class becomes the one the import asks for, and stays so for ever, if Go schedules
  the workers fairly. The controller does not watch classes: a class that others change while the key of its import is
  idle is put right only after the next event for the import (or a restart), which is then the point \<open>h\<close>.\<close>

theorem concurrent_reconciles_converge:
  assumes laws: "unstructured_lawful U" "kube_shared U A asked classes" "kube_serves U A asked classes up"
    and run: "run_of (controller_step U yaml_marshal A asked classes workers) (\<lambda>_. False) \<sigma>"
    and fair: "fair_run (key_acts U yaml_marshal A workers) (\<lambda>_. False) \<sigma>"
    and start: "\<sigma> 0 = start_controller asked w0" and workers: "0 < workers"
    and event: "attended U yaml_marshal asked classes (ns, name) (\<sigma> h)"
    and left: "class_left_from U yaml_marshal A classes workers (ns, name) \<sigma> h"
    and quiet: "h \<le> i" "\<And>j. i \<le> j \<Longrightarrow> up (cl_world (\<sigma> j)) \<and> asked (cl_world (\<sigma> j)) (ns, name) = Some ssi"
    and ssi: "create_secret_provider_class U yaml_marshal ssi = Inr spc"
  shows "(\<forall>w. run_reconcile U yaml_marshal A (ns, name) 3 Picked w =
      (case reconcile U yaml_marshal A ns name w of (r, w') \<Rightarrow> (Inr r, w'))) \<and>
    (\<exists>j\<ge>i. \<forall>m\<ge>j. \<exists>ob. classes (cl_world (\<sigma> m)) (ns, name) = Some ob \<and> same_spec U spc ob)"
proof
  have inv: "controller_inv U yaml_marshal asked workers (\<sigma> j)" for j
    by (rule controller_reach_inv [OF laws(1,2) controller_reach_run [OF run start]])
  have asked: "asked (cl_world (\<sigma> i)) (ns, name) = Some ssi" using quiet(2) [of i] by simp
  have q_from: "quiet_from U yaml_marshal A asked classes up workers (ns, name) \<sigma> i"
    using quiet left by (auto simp: quiet_from_def class_left_from_def)
  have att: "attended U yaml_marshal asked classes (ns, name) (\<sigma> j)" if "i \<le> j" for j
    using that quiet(1) by (intro attended_later [OF laws(1,2) run inv left event]) simp
  obtain j where j: "i \<le> j" "converged U yaml_marshal classes (ns, name) ssi (\<sigma> j)"
    using converges [OF laws run fair inv workers q_from asked ssi att] by blast
  have "converged U yaml_marshal classes (ns, name) ssi (\<sigma> m)" if "j \<le> m" for m
    using that
  proof (induction rule: dec_induct)
    case (step m)
    then have m: "i \<le> m" using j(1) by simp
    note q = quiet_fromD [OF q_from asked m]
    from converged_step [OF laws inv q(1,2) ssi reconciles.run_step [OF run] q(3) step.IH] show ?case by simp
  qed (rule j(2))
  then show "\<exists>j\<ge>i. \<forall>m\<ge>j. \<exists>ob. classes (cl_world (\<sigma> m)) (ns, name) = Some ob \<and> same_spec U spc ob"
    using j(1) ssi by (auto simp: converged_def class_for_def)
qed (simp add: run_reconcile_alone)

subsection \<open>One import, one worker\<close>

definition demo_key :: import_key where
  "demo_key = (''ns'', ''web'')"

abbreviation demo_action :: "import_key \<Rightarrow> (plain_world, plain_object) controller \<Rightarrow> (plain_world, plain_object) controller option" where
  "demo_action \<equiv> key_action plain_unstructured (\<lambda>_. Inr ''yaml'') plain_kube 1"

fun demo_controller :: "nat \<Rightarrow> (plain_world, plain_object) controller" where
  "demo_controller 0 = start_controller plain_imports (\<lambda>k. if k = demo_key then Some demo_import else None, \<lambda>_. None)"
| "demo_controller (Suc i) = (case demo_action demo_key (demo_controller i) of None \<Rightarrow> demo_controller i | Some t \<Rightarrow> t)"

lemma plain_kube_shared: "kube_shared plain_unstructured plain_kube plain_imports snd"
  unfolding kube_shared_def by (rule conjI [OF plain_kube_lawful]) (simp add: plain_kube_def plain_imports_def fun_eq_iff)

lemma plain_kube_serves: "kube_serves plain_unstructured plain_kube plain_imports snd (\<lambda>_. True)"
  by (simp add: kube_serves_def plain_kube_def plain_unstructured_def)

lemma demo_controller_runs: "run_of (controller_step plain_unstructured (\<lambda>_. Inr ''yaml'') plain_kube plain_imports snd 1) (\<lambda>_. False) demo_controller"
  unfolding run_of_def
proof (intro allI)
  fix i
  have "controller_step plain_unstructured (\<lambda>_. Inr ''yaml'') plain_kube plain_imports snd 1 (demo_controller i) (demo_controller (Suc i))"
  proof (cases "demo_action demo_key (demo_controller i)")
    case None
    then show ?thesis
      using controller_step.outside [of "demo_controller i" "cl_queue (demo_controller i)" plain_imports "cl_world (demo_controller i)"]
      by simp
  next
    case (Some t)
    then show ?thesis by (auto simp: key_acts_def intro: controller_step.act [of _ _ _ _ demo_key])
  qed
  then show "if False then demo_controller (Suc i) = demo_controller i
    else controller_step plain_unstructured (\<lambda>_. Inr ''yaml'') plain_kube plain_imports snd 1 (demo_controller i) (demo_controller (Suc i))" by simp
qed

lemma demo_controller_inv: "fst (cl_world (demo_controller i)) = (\<lambda>k. if k = demo_key then Some demo_import else None) \<and>
  cl_queue (demo_controller i) \<subseteq> {demo_key} \<and> fst ` set (cl_active (demo_controller i)) \<subseteq> {demo_key}"
proof (induction i)
  case 0
  show ?case by (auto simp: start_controller_def plain_imports_def split: if_splits)
next
  case (Suc i)
  have keep: "fst w' = fst w" if "reconcile_step plain_unstructured (\<lambda>_. Inr ''yaml'') plain_kube k ph w = (x, w')" for k ph w x w'
    using that by (cases "(plain_unstructured, \<lambda>_ :: vault_object list. Inr ''yaml'' :: string + string, plain_kube, k, ph, w)" rule: reconcile_step.cases)
      (auto simp: plain_kube_def split: sum.splits option.splits)
  show ?case
  proof (cases "demo_action demo_key (demo_controller i)")
    case (Some t)
    then have "key_acts plain_unstructured (\<lambda>_. Inr ''yaml'') plain_kube 1 demo_key (demo_controller i) t" by (simp add: key_acts_def)
    then have "fst (cl_world t) = fst (cl_world (demo_controller i)) \<and> cl_queue t \<subseteq> {demo_key} \<and> fst ` set (cl_active t) \<subseteq> {demo_key}"
      using Suc by (cases rule: key_acts_cases) (auto simp: keep dom_update AList.delete_eq split: if_splits)
    with Some Suc show ?thesis by simp
  qed (use Suc in simp)
qed

lemma demo_controller_fair: "fair_run (key_acts plain_unstructured (\<lambda>_. Inr ''yaml'') plain_kube 1) (\<lambda>_. False) demo_controller"
  unfolding fair_run_def
proof (intro allI impI)
  fix k i
  assume "\<forall>i. \<exists>j\<ge>i. ready (key_acts plain_unstructured (\<lambda>_. Inr ''yaml'') plain_kube 1) (\<lambda>_. False) k (demo_controller j)"
  then obtain j t where j: "i \<le> j" "demo_action k (demo_controller j) = Some t" unfolding ready_def key_acts_def by blast
  moreover from this demo_controller_inv [of j] have "k = demo_key"
    by (auto simp: key_action_def split: option.splits if_splits dest!: map_of_SomeD)
  ultimately show "\<exists>j\<ge>i. \<not> False \<and> key_acts plain_unstructured (\<lambda>_. Inr ''yaml'') plain_kube 1 k (demo_controller j) (demo_controller (Suc j))"
    by (auto simp: key_acts_def)
qed

lemma demo_controller_left: "class_left_from plain_unstructured (\<lambda>_. Inr ''yaml'') plain_kube snd 1 demo_key demo_controller 0"
  unfolding class_left_from_def
proof (intro allI impI)
  fix j
  show "key_acts plain_unstructured (\<lambda>_. Inr ''yaml'') plain_kube 1 demo_key (demo_controller j) (demo_controller (Suc j)) \<or>
      snd (cl_world (demo_controller (Suc j))) demo_key = snd (cl_world (demo_controller j)) demo_key"
    by (cases "demo_action demo_key (demo_controller j)") (auto simp: key_acts_def)
qed

lemma demo_controller_attended: "attended plain_unstructured (\<lambda>_. Inr ''yaml'') plain_imports snd demo_key (demo_controller 0)"
  by (simp add: attended_def start_controller_def plain_imports_def demo_key_def demo_import_def dom_def)

theorem concurrent_reconciles_converge_witness:
  "\<exists>j. \<forall>m\<ge>j. \<exists>ob. snd (cl_world (demo_controller m)) demo_key = Some ob \<and>
    get_nested plain_unstructured [''spec'', ''provider''] ob = Some (JStr ''vault'')"
proof -
  obtain spc where spc: "create_secret_provider_class plain_unstructured (\<lambda>_. Inr ''yaml'') demo_import = Inr spc"
    and provider: "get_nested plain_unstructured [''spec'', ''provider''] spc = Some (JStr ''vault'')"
    by (simp add: create_secret_provider_class_def class_fields_def plain_unstructured_def)
  have "True \<and> plain_imports (cl_world (demo_controller j)) (''ns'', ''web'') = Some demo_import" for j
    using demo_controller_inv [of j] by (simp add: plain_imports_def demo_key_def demo_import_def)
  from concurrent_reconciles_converge [OF plain_unstructured_lawful plain_kube_shared plain_kube_serves demo_controller_runs demo_controller_fair
      demo_controller.simps(1) _ demo_controller_attended [unfolded demo_key_def] demo_controller_left [unfolded demo_key_def] order_refl this spc] provider
  show ?thesis unfolding demo_key_def same_spec_def by fastforce
qed

end
