(* ===== verification/Go_Flag.thy ===== *)
theory Go_Flag
  imports Go_Conv Go_Time
begin

text \<open>
  What the programs use of Go's standard library for their command line: \<open>strconv.ParseInt\<close> with base 0,
  the parser of the package \<open>flag\<close>, and \<open>filepath.Join\<close> on a Unix system.
\<close>

subsection \<open>strconv.ParseInt\<close>

definition code_in :: "char \<Rightarrow> char \<Rightarrow> char \<Rightarrow> bool" where
  "code_in a z c \<longleftrightarrow> (of_char a :: nat) \<le> of_char c \<and> (of_char c :: nat) \<le> of_char z"

definition lower :: "char \<Rightarrow> char" where
  "lower c = (if code_in CHR ''A'' CHR ''Z'' c then char_of (of_char c + 32 :: nat) else c)"

text \<open>The value of a digit in bases up to 36.\<close>

definition digit_of :: "char \<Rightarrow> int option" where
  "digit_of c =
     (if is_digit c then Some (digit_value c)
      else if code_in CHR ''a'' CHR ''z'' (lower c) then Some (int (of_char (lower c)) - 87)
      else None)"

text \<open>The prefix of a literal: its base, the number of bytes of the prefix.\<close>

definition base_prefix :: "string \<Rightarrow> int \<times> nat" where
  "base_prefix s =
     (if s = '''' \<or> hd s \<noteq> CHR ''0'' then (10, 0)
      else if 3 \<le> length s \<and> lower (s ! 1) = CHR ''b'' then (2, 2)
      else if 3 \<le> length s \<and> lower (s ! 1) = CHR ''o'' then (8, 2)
      else if 3 \<le> length s \<and> lower (s ! 1) = CHR ''x'' then (16, 2)
      else (8, 1))"

fun parse_digits :: "int \<Rightarrow> int \<Rightarrow> string \<Rightarrow> int option" where
  "parse_digits base n [] = Some n"
| "parse_digits base n (c # cs) =
     (if c = CHR ''_'' then parse_digits base n cs
      else case digit_of c of
             None \<Rightarrow> None
           | Some d \<Rightarrow> if base \<le> d \<or> 2 ^ 64 \<le> n * base + d then None else parse_digits base (n * base + d) cs)"

text \<open>\<open>underscoreOK\<close>: underscores stand between digits or after the prefix.\<close>

datatype last_seen = SawStart | SawDigit | SawUnderscore | SawOther

fun underscores_ok :: "bool \<Rightarrow> last_seen \<Rightarrow> string \<Rightarrow> bool" where
  "underscores_ok hex saw [] \<longleftrightarrow> saw \<noteq> SawUnderscore"
| "underscores_ok hex saw (c # cs) \<longleftrightarrow>
     (if is_digit c \<or> hex \<and> code_in CHR ''a'' CHR ''f'' (lower c) then underscores_ok hex SawDigit cs
      else if c = CHR ''_'' then saw = SawDigit \<and> underscores_ok hex SawUnderscore cs
      else saw \<noteq> SawUnderscore \<and> underscores_ok hex SawOther cs)"

definition underscore_ok :: "string \<Rightarrow> bool" where
  "underscore_ok s =
     (if 2 \<le> length s \<and> hd s = CHR ''0'' \<and> lower (s ! 1) \<in> set ''box''
      then underscores_ok (lower (s ! 1) = CHR ''x'') SawDigit (drop 2 s)
      else underscores_ok False SawStart s)"

definition parse_uint :: "string \<Rightarrow> int option" where
  "parse_uint s =
     (if s = '''' then None
      else let (base, k) = base_prefix s
           in case parse_digits base 0 (drop k s) of
                None \<Rightarrow> None
              | Some n \<Rightarrow> if CHR ''_'' \<in> set (drop k s) \<and> \<not> underscore_ok s then None else Some n)"

text \<open>\<open>strconv.ParseInt(s, 0, 64)\<close>; a value out of range is an error like a text that is no number.\<close>

definition parse_int :: "string \<Rightarrow> int option" where
  "parse_int s =
     (let (neg, ds) = (case s of c # cs \<Rightarrow> if c = CHR ''+'' then (False, cs) else if c = CHR ''-'' then (True, cs) else (False, s)
                       | [] \<Rightarrow> (False, s))
      in case parse_uint ds of
           None \<Rightarrow> None
         | Some n \<Rightarrow> if neg then (if 2 ^ 63 < n then None else Some (- n)) else if 2 ^ 63 \<le> n then None else Some n)"

subsection \<open>The package flag\<close>

text \<open>A flag is boolean or takes a value; setting it changes the options \<open>'o\<close> or fails.\<close>

record 'o flag =
  is_bool_flag :: bool
  set_flag :: "string \<Rightarrow> 'o \<Rightarrow> 'o option"

type_synonym 'o flags = "(string \<times> 'o flag) list"

datatype flag_error = BadSyntax string | HelpWanted | NotDefined string | InvalidValue string string | NeedsArgument string

datatype 'o flag_step = NoMoreFlags "string list" | FlagFailed flag_error | FlagParsed "string list" 'o

text \<open>The name and the value of an argument \<open>name=value\<close>.\<close>

definition apply_flag :: "string \<Rightarrow> 'o flag \<Rightarrow> string \<Rightarrow> string list \<Rightarrow> 'o \<Rightarrow> 'o flag_step" where
  "apply_flag name f v args opts =
     (case set_flag f v opts of None \<Rightarrow> FlagFailed (InvalidValue name v) | Some opts' \<Rightarrow> FlagParsed args opts')"

definition parse_named :: "'o flags \<Rightarrow> string \<Rightarrow> string option \<Rightarrow> string list \<Rightarrow> 'o \<Rightarrow> 'o flag_step" where
  "parse_named F name v args opts =
     (case map_of F name of
        None \<Rightarrow> FlagFailed (if name = ''help'' \<or> name = ''h'' then HelpWanted else NotDefined name)
      | Some f \<Rightarrow>
          (case v of
             Some x \<Rightarrow> apply_flag name f x args opts
           | None \<Rightarrow>
               if is_bool_flag f then apply_flag name f ''true'' args opts
               else (case args of [] \<Rightarrow> FlagFailed (NeedsArgument name) | x # rest \<Rightarrow> apply_flag name f x rest opts)))"

text \<open>\<open>parseOne\<close>.\<close>

definition parse_one :: "'o flags \<Rightarrow> string list \<Rightarrow> 'o \<Rightarrow> 'o flag_step" where
  "parse_one F args opts =
     (case args of
        [] \<Rightarrow> NoMoreFlags []
      | s # rest \<Rightarrow>
          if length s < 2 \<or> hd s \<noteq> CHR ''-'' then NoMoreFlags args
          else if s = ''--'' then NoMoreFlags rest
          else let name = (if s ! 1 = CHR ''-'' then drop 2 s else drop 1 s)
               in if hd name = CHR ''-'' \<or> hd name = CHR ''='' then FlagFailed (BadSyntax s)
                  else let (n, v) = break_at CHR ''='' name in parse_named F n v rest opts)"

lemma parse_one_shorter: "parse_one F args opts = FlagParsed args' opts' \<Longrightarrow> length args' < length args"
  by (auto simp: parse_one_def parse_named_def apply_flag_def Let_def
      split: list.splits if_splits prod.splits option.splits)

text \<open>\<open>Parse\<close>: the flags up to the first argument that is none.\<close>

function flag_parse :: "'o flags \<Rightarrow> string list \<Rightarrow> 'o \<Rightarrow> flag_error + string list \<times> 'o" where
  "flag_parse F args opts =
     (case parse_one F args opts of
        NoMoreFlags rest \<Rightarrow> Inr (rest, opts)
      | FlagFailed e \<Rightarrow> Inl e
      | FlagParsed args' opts' \<Rightarrow> flag_parse F args' opts')"
  by pat_completeness auto
termination
  by (relation "measure (\<lambda>(F, args, opts). length args)") (auto dest: parse_one_shorter)

declare flag_parse.simps [simp del]

text \<open>With \<open>ExitOnError\<close>: the code the program exits with.\<close>

definition flag_exit :: "flag_error \<Rightarrow> int" where
  "flag_exit e = (if e = HelpWanted then 0 else 2)"

subsection \<open>filepath.Join\<close>

fun clean_parts :: "bool \<Rightarrow> string list \<Rightarrow> string list \<Rightarrow> string list" where
  "clean_parts rooted out [] = rev out"
| "clean_parts rooted out (p # ps) =
     (if p = '''' \<or> p = ''.'' then clean_parts rooted out ps
      else if p = ''..'' then
        (case out of
           [] \<Rightarrow> clean_parts rooted (if rooted then [] else [p]) ps
         | q # qs \<Rightarrow> clean_parts rooted (if q = ''..'' then p # out else qs) ps)
      else clean_parts rooted (p # out) ps)"

fun join_with :: "string \<Rightarrow> string list \<Rightarrow> string" where
  "join_with sep [] = ''''"
| "join_with sep [x] = x"
| "join_with sep (x # xs) = x @ sep @ join_with sep xs"

definition path_clean :: "string \<Rightarrow> string" where
  "path_clean p =
     (let rooted = has_prefix p ''/''; ps = clean_parts rooted [] (split_on CHR ''/'' p)
      in if rooted then ''/'' @ join_with ''/'' ps else if ps = [] then ''.'' else join_with ''/'' ps)"

definition path_join :: "string \<Rightarrow> string \<Rightarrow> string" where
  "path_join a b =
     (if a \<noteq> '''' then path_clean (a @ ''/'' @ b) else if b \<noteq> '''' then path_clean b else '''')"

subsection \<open>Lemmas\<close>

lemma digit_not_special: "is_digit c \<Longrightarrow> c \<noteq> CHR ''_'' \<and> c \<noteq> CHR ''-'' \<and> c \<noteq> CHR ''+'' \<and> digit_of c = Some (digit_value c)"
  by (auto simp: is_digit_def digit_of_def)

lemma parse_digits_decimal:
  "list_all is_digit ds \<Longrightarrow> 0 \<le> n \<Longrightarrow> dval n ds < 2 ^ 64 \<Longrightarrow> parse_digits 10 n ds = Some (dval n ds)"
proof (induction ds arbitrary: n)
  case (Cons c ds)
  then have c: "0 \<le> digit_value c" "digit_value c \<le> 9" using digit_value_bounds [of c] by simp_all
  have "n * 10 + digit_value c \<le> dval (n * 10 + digit_value c) ds"
    using Cons.prems c by (intro dval_nonneg) simp_all
  with Cons c show ?case by (simp add: digit_not_special)
qed simp

lemma fmt_int_loop_head:
  "0 < v \<Longrightarrow> fmt_int_loop v acc \<noteq> [] \<and> hd (fmt_int_loop v acc) \<noteq> CHR ''0''"
proof (induction v acc rule: fmt_int_loop.induct)
  case (1 v acc)
  show ?case
  proof (cases "v div 10 = 0")
    case True
    with "1.prems" have v: "0 < v" "v < 10" "v mod 10 = v" by simp_all
    have "digit_char v \<noteq> CHR ''0''"
    proof
      assume d: "digit_char v = CHR ''0''"
      have "digit_value (digit_char v) = v" using v digit_char_props [of v] by simp
      with v show False unfolding d by (simp add: digit_value_def)
    qed
    with v True show ?thesis by (simp add: fmt_int_loop.simps [of v] fmt_int_loop.simps [of 0])
  next
    case False
    then have "0 < v div 10" using "1.prems" by (simp add: pos_imp_zdiv_pos_iff)
    with 1 show ?thesis by (simp add: fmt_int_loop.simps [of v])
  qed
qed

text \<open>Printing a number and reading it again.\<close>

lemma parse_int_fmt_int:
  assumes "0 \<le> n" "n < 2 ^ 63"
  shows "parse_int (fmt_int n) = Some n"
proof (cases "n = 0")
  case True
  have "parse_int ''0'' = Some 0" by code_simp
  with True show ?thesis by (simp add: fmt_int_def)
next
  case False
  obtain c cs where ds: "fmt_int n = c # cs" "list_all is_digit (c # cs)" "dval 0 (c # cs) = n"
    using fmt_int_digits [OF assms(1)] by (cases "fmt_int n") simp_all
  have c: "c \<noteq> CHR ''0''"
    using fmt_int_loop_head [of n "[]"] False assms(1) ds(1) by (simp add: fmt_int_def)
  have u: "CHR ''_'' \<notin> set (c # cs)" using ds(2) digit_not_special by (auto simp: list_all_iff)
  have "parse_digits 10 0 (c # cs) = Some n"
    using parse_digits_decimal [OF ds(2), of 0] ds(3) assms(2) by simp
  with c u have "parse_uint (c # cs) = Some n" by (simp add: parse_uint_def base_prefix_def)
  moreover have "c \<noteq> CHR ''-'' \<and> c \<noteq> CHR ''+''" using ds(2) digit_not_special by simp
  ultimately show ?thesis using assms(2) by (simp add: parse_int_def ds(1))
qed

text \<open>An argument that gives a flag its value, and the flags of a list of such arguments.\<close>

definition flag_arg :: "string \<times> string \<Rightarrow> string" where
  "flag_arg nv = CHR ''-'' # fst nv @ CHR ''='' # snd nv"

definition flag_name :: "string \<Rightarrow> bool" where
  "flag_name n \<longleftrightarrow> n \<noteq> '''' \<and> CHR ''='' \<notin> set n \<and> hd n \<noteq> CHR ''-''"

lemma parse_one_arg:
  assumes "flag_name n"
  shows "parse_one F (flag_arg (n, v) # rest) opts = parse_named F n (Some v) rest opts"
  using assms by (cases n) (auto simp: parse_one_def flag_arg_def flag_name_def break_at_append Let_def)

lemma flag_parse_arg:
  assumes "flag_name n" "map_of F n = Some f" "set_flag f v opts = Some opts'"
  shows "flag_parse F (flag_arg (n, v) # rest) opts = flag_parse F rest opts'"
  using assms by (subst flag_parse.simps) (simp add: parse_one_arg parse_named_def apply_flag_def)

lemma flag_parse_Nil: "flag_parse F [] opts = Inr ([], opts)"
  by (subst flag_parse.simps) (simp add: parse_one_def)

end
