(* ===== verification/Go_Slice.thy ===== *)
theory Go_Slice
  imports Prelude
begin

text \<open>
  Slices of Go: an array, a length and a capacity. The arrays are a store, so that slices may share
  one: \<open>append\<close> writes into the array of its argument when there is room and copies it otherwise.
  The capacity of the copy is the choice of the run time system, the argument \<open>grow\<close>.
\<close>

record slice =
  slice_array :: nat
  slice_len :: nat
  slice_cap :: nat

type_synonym 'a arrays = "'a option list list"

definition nil_slice :: slice where
  "nil_slice = \<lparr>slice_array = 0, slice_len = 0, slice_cap = 0\<rparr>"

definition slice_elems :: "'a arrays \<Rightarrow> slice \<Rightarrow> 'a list" where
  "slice_elems h s = (if slice_len s = 0 then [] else map the (take (slice_len s) (h ! slice_array s)))"

definition slice_append :: "(nat \<Rightarrow> nat \<Rightarrow> nat) \<Rightarrow> slice \<Rightarrow> 'a \<Rightarrow> 'a arrays \<Rightarrow> slice \<times> 'a arrays" where
  "slice_append grow s x h =
     (let n = slice_len s in
      if n < slice_cap s
      then (s\<lparr>slice_len := Suc n\<rparr>, h[slice_array s := (h ! slice_array s)[n := Some x]])
      else let c = grow (slice_cap s) (Suc n)
           in (\<lparr>slice_array = length h, slice_len = Suc n, slice_cap = c\<rparr>,
               h @ [(if n = 0 then [] else take n (h ! slice_array s)) @ Some x # replicate (c - Suc n) None]))"

text \<open>A slice of a store: its array exists, is as long as the capacity, and is filled up to the length.\<close>

definition valid_slice :: "'a arrays \<Rightarrow> slice \<Rightarrow> bool" where
  "valid_slice h s \<longleftrightarrow> slice_len s \<le> slice_cap s \<and>
     (slice_cap s = 0 \<or> slice_array s < length h \<and> length (h ! slice_array s) = slice_cap s \<and>
        None \<notin> set (take (slice_len s) (h ! slice_array s)))"

text \<open>What \<open>append\<close> needs of the run time system, and what Go's own does for the first element of eight bytes.\<close>

definition grow_lawful :: "(nat \<Rightarrow> nat \<Rightarrow> nat) \<Rightarrow> bool" where
  "grow_lawful grow \<longleftrightarrow> (\<forall>c n. n \<le> grow c n)"

lemma nil_slice_simps [simp]: "valid_slice h nil_slice" "slice_elems h nil_slice = []"
  by (simp_all add: valid_slice_def slice_elems_def nil_slice_def)

text \<open>The appended slice has the elements and one more; it is a slice of the new store.\<close>

lemma slice_append_elems:
  assumes "valid_slice h s" "grow_lawful grow" "slice_append grow s x h = (s', h')"
  shows "slice_elems h' s' = slice_elems h s @ [x]" "valid_slice h' s'" "slice_len s' = Suc (slice_len s)"
proof -
  let ?n = "slice_len s"
  have g: "Suc ?n \<le> grow (slice_cap s) (Suc ?n)" using assms(2) by (simp add: grow_lawful_def)
  show "slice_elems h' s' = slice_elems h s @ [x]"
    using assms g by (auto simp: slice_append_def slice_elems_def valid_slice_def Let_def take_Suc_conv_app_nth
        min_def split: if_splits)
  show "valid_slice h' s'"
    using assms g by (auto simp: slice_append_def valid_slice_def Let_def take_Suc_conv_app_nth split: if_splits
        dest: in_set_takeD)
  show "slice_len s' = Suc ?n"
    using assms(3) by (auto simp: slice_append_def Let_def split: if_splits)
qed

text \<open>A slice that is not longer than \<open>s\<close> or lives in another array keeps its elements; so does every slice
  when \<open>s\<close> is full.\<close>

lemma slice_append_keeps:
  assumes "valid_slice h t" "slice_append grow s x h = (s', h')"
    and "slice_len t \<le> slice_len s \<or> slice_array t \<noteq> slice_array s \<or> slice_cap s \<le> slice_len s \<or> slice_cap t = 0"
  shows "slice_elems h' t = slice_elems h t \<and> valid_slice h' t"
proof (cases "slice_len s < slice_cap s")
  case True
  with assms(2) have h': "h' = h[slice_array s := (h ! slice_array s)[slice_len s := Some x]]"
    by (auto simp: slice_append_def Let_def)
  show ?thesis
  proof (cases "slice_array t = slice_array s")
    case True
    with assms \<open>slice_len s < slice_cap s\<close> show ?thesis
      by (auto simp: h' slice_elems_def valid_slice_def)
  next
    case False
    then show ?thesis using assms(1) by (simp add: h' slice_elems_def valid_slice_def)
  qed
next
  case False
  with assms(1,2) show ?thesis
    by (auto simp: slice_append_def slice_elems_def valid_slice_def Let_def nth_append)
qed

text \<open>With room for one more, appending overwrites what another slice of the array has there.\<close>

lemma slice_append_overwrites:
  assumes "valid_slice h t" "slice_append grow s x h = (s', h')" "slice_len s < slice_cap s"
    and "slice_array t = slice_array s" "slice_len s < slice_len t"
  shows "slice_elems h' t = (slice_elems h t)[slice_len s := x]"
  using assms by (auto simp: slice_append_def slice_elems_def valid_slice_def Let_def take_update_swap map_update)

end
