(* ===== verification/Ssi_Main.thy ===== *)
theory Ssi_Main
  imports Go_Flag Go_Slice
begin

text \<open>
  \<^verbatim>\<open>images/ssi-controller/cmd/main.go\<close>: the command line of the controller, the TLS options of its two
  servers and the start of the manager.

  The controller-runtime library is the argument \<open>call\<close>: what each call returns (an error or not) and
  does to the world. The libraries also register flags of their own on the command line; they are the
  argument \<open>lib_flags\<close> over a state of the libraries. The slices of TLS options are kept in a store, since
  two of them start from the same slice.
\<close>

subsection \<open>The command line\<close>

record options =
  metrics_addr :: string
  probe_addr :: string
  leader_elect :: bool
  secure_metrics :: bool
  webhook_cert_path :: string
  webhook_cert_name :: string
  webhook_cert_key :: string
  metrics_cert_path :: string
  metrics_cert_name :: string
  metrics_cert_key :: string
  enable_http2 :: bool
  max_concurrent :: int

definition default_options :: options where
  "default_options =
     \<lparr>metrics_addr = ''0'', probe_addr = '':8081'', leader_elect = False, secure_metrics = True,
      webhook_cert_path = '''', webhook_cert_name = ''tls.crt'', webhook_cert_key = ''tls.key'',
      metrics_cert_path = '''', metrics_cert_name = ''tls.crt'', metrics_cert_key = ''tls.key'',
      enable_http2 = False, max_concurrent = 10\<rparr>"

definition string_var :: "(string \<Rightarrow> options \<Rightarrow> options) \<Rightarrow> (options \<times> 'z) flag" where
  "string_var upd = \<lparr>is_bool_flag = False, set_flag = (\<lambda>v (o1, z). Some (upd v o1, z))\<rparr>"

definition bool_var :: "(bool \<Rightarrow> options \<Rightarrow> options) \<Rightarrow> (options \<times> 'z) flag" where
  "bool_var upd = \<lparr>is_bool_flag = True, set_flag = (\<lambda>v (o1, z). map_option (\<lambda>b. (upd b o1, z)) (parse_bool v))\<rparr>"

definition int_var :: "(int \<Rightarrow> options \<Rightarrow> options) \<Rightarrow> (options \<times> 'z) flag" where
  "int_var upd = \<lparr>is_bool_flag = False, set_flag = (\<lambda>v (o1, z). map_option (\<lambda>n. (upd n o1, z)) (parse_int v))\<rparr>"

definition lib_flag :: "'z flag \<Rightarrow> (options \<times> 'z) flag" where
  "lib_flag f =
     \<lparr>is_bool_flag = is_bool_flag f, set_flag = (\<lambda>v (o1, z). map_option (Pair o1) (set_flag f v z))\<rparr>"

definition own_flags :: "(options \<times> 'z) flags" where
  "own_flags =
     [(''metrics-bind-address'', string_var (\<lambda>v o1. o1\<lparr>metrics_addr := v\<rparr>)),
      (''health-probe-bind-address'', string_var (\<lambda>v o1. o1\<lparr>probe_addr := v\<rparr>)),
      (''leader-elect'', bool_var (\<lambda>b o1. o1\<lparr>leader_elect := b\<rparr>)),
      (''metrics-secure'', bool_var (\<lambda>b o1. o1\<lparr>secure_metrics := b\<rparr>)),
      (''webhook-cert-path'', string_var (\<lambda>v o1. o1\<lparr>webhook_cert_path := v\<rparr>)),
      (''webhook-cert-name'', string_var (\<lambda>v o1. o1\<lparr>webhook_cert_name := v\<rparr>)),
      (''webhook-cert-key'', string_var (\<lambda>v o1. o1\<lparr>webhook_cert_key := v\<rparr>)),
      (''metrics-cert-path'', string_var (\<lambda>v o1. o1\<lparr>metrics_cert_path := v\<rparr>)),
      (''metrics-cert-name'', string_var (\<lambda>v o1. o1\<lparr>metrics_cert_name := v\<rparr>)),
      (''metrics-cert-key'', string_var (\<lambda>v o1. o1\<lparr>metrics_cert_key := v\<rparr>)),
      (''enable-http2'', bool_var (\<lambda>b o1. o1\<lparr>enable_http2 := b\<rparr>)),
      (''max-concurrent-reconciles'', int_var (\<lambda>n o1. o1\<lparr>max_concurrent := n\<rparr>))]"

definition program_flags :: "'z flags \<Rightarrow> (options \<times> 'z) flags" where
  "program_flags lib_flags = own_flags @ map (\<lambda>(n, f). (n, lib_flag f)) lib_flags"

subsection \<open>The TLS options of the servers\<close>

datatype cert_kind = WebhookCert | MetricsCert

text \<open>The functions in the slices: \<open>disableHTTP2\<close>, and the ones that take the certificate of a watcher.\<close>

datatype tls_option = DisableHttp2 | UseCertOf cert_kind

record tls_config =
  next_protos :: "string list"
  get_certificate_of :: "cert_kind option"

definition apply_tls_option :: "tls_option \<Rightarrow> tls_config \<Rightarrow> tls_config" where
  "apply_tls_option t c =
     (case t of
        DisableHttp2 \<Rightarrow> c\<lparr>next_protos := [''http/1.1'']\<rparr>
      | UseCertOf k \<Rightarrow> c\<lparr>get_certificate_of := Some k\<rparr>)"

definition cert_dir :: "options \<Rightarrow> cert_kind \<Rightarrow> string" where
  "cert_dir o1 k = (case k of WebhookCert \<Rightarrow> webhook_cert_path o1 | MetricsCert \<Rightarrow> metrics_cert_path o1)"

definition cert_files :: "options \<Rightarrow> cert_kind \<Rightarrow> string \<times> string" where
  "cert_files o1 k =
     (case k of
        WebhookCert \<Rightarrow> (path_join (webhook_cert_path o1) (webhook_cert_name o1),
                        path_join (webhook_cert_path o1) (webhook_cert_key o1))
      | MetricsCert \<Rightarrow> (path_join (metrics_cert_path o1) (metrics_cert_name o1),
                        path_join (metrics_cert_path o1) (metrics_cert_key o1)))"

text \<open>The slice of the webhook server and that of the metrics server, and the store at the end.\<close>

definition base_tls_options :: "(nat \<Rightarrow> nat \<Rightarrow> nat) \<Rightarrow> options \<Rightarrow> slice \<times> tls_option arrays" where
  "base_tls_options grow o1 =
     (if enable_http2 o1 then (nil_slice, []) else slice_append grow nil_slice DisableHttp2 [])"

definition cert_tls_option ::
  "(nat \<Rightarrow> nat \<Rightarrow> nat) \<Rightarrow> options \<Rightarrow> cert_kind \<Rightarrow> slice \<Rightarrow> tls_option arrays \<Rightarrow> slice \<times> tls_option arrays" where
  "cert_tls_option grow o1 k s h =
     (if cert_dir o1 k \<noteq> '''' then slice_append grow s (UseCertOf k) h else (s, h))"

definition tls_options :: "(nat \<Rightarrow> nat \<Rightarrow> nat) \<Rightarrow> options \<Rightarrow> slice \<times> slice \<times> tls_option arrays" where
  "tls_options grow o1 =
     (let (base, h0) = base_tls_options grow o1;
          (webhook, h1) = cert_tls_option grow o1 WebhookCert base h0;
          (metrics, h2) = cert_tls_option grow o1 MetricsCert base h1
      in (webhook, metrics, h2))"

text \<open>The servers apply their options when the manager starts, on the configuration \<open>c\<close> of the library.\<close>

definition server_tls :: "(nat \<Rightarrow> nat \<Rightarrow> nat) \<Rightarrow> options \<Rightarrow> cert_kind \<Rightarrow> tls_config \<Rightarrow> tls_config" where
  "server_tls grow o1 k c =
     (case tls_options grow o1 of
        (webhook, metrics, h) \<Rightarrow>
          fold apply_tls_option (slice_elems h (case k of WebhookCert \<Rightarrow> webhook | MetricsCert \<Rightarrow> metrics)) c)"

subsection \<open>The manager\<close>

record manager_options =
  mo_metrics_addr :: string
  mo_secure_serving :: bool
  mo_authenticated :: bool
  mo_probe_addr :: string
  mo_leader_election :: bool
  mo_leader_id :: string

definition manager_options_of :: "options \<Rightarrow> manager_options" where
  "manager_options_of o1 =
     \<lparr>mo_metrics_addr = metrics_addr o1, mo_secure_serving = secure_metrics o1,
      mo_authenticated = secure_metrics o1, mo_probe_addr = probe_addr o1,
      mo_leader_election = leader_elect o1, mo_leader_id = ''d48f3aa7.deckhouse.io''\<rparr>"

datatype manager_call =
  NewCertWatcher cert_kind string string | GetRestConfig | NewManager manager_options | SetupReconciler int
| AddCertWatcher cert_kind | AddHealthzCheck string | AddReadyzCheck string | StartManager

definition new_cert_watcher :: "options \<Rightarrow> cert_kind \<Rightarrow> manager_call list" where
  "new_cert_watcher o1 k =
     (if cert_dir o1 k \<noteq> '''' then [NewCertWatcher k (fst (cert_files o1 k)) (snd (cert_files o1 k))] else [])"

definition add_cert_watcher :: "options \<Rightarrow> cert_kind \<Rightarrow> manager_call list" where
  "add_cert_watcher o1 k = (if cert_dir o1 k \<noteq> '''' then [AddCertWatcher k] else [])"

text \<open>The calls of \<open>main\<close> after the flags, in their order; the first one that fails ends it.\<close>

definition manager_calls :: "options \<Rightarrow> manager_call list" where
  "manager_calls o1 =
     new_cert_watcher o1 WebhookCert @ new_cert_watcher o1 MetricsCert @
     [GetRestConfig, NewManager (manager_options_of o1), SetupReconciler (max_concurrent o1)] @
     add_cert_watcher o1 MetricsCert @ add_cert_watcher o1 WebhookCert @
     [AddHealthzCheck ''healthz'', AddReadyzCheck ''readyz'', StartManager]"

fun run_calls :: "(manager_call \<Rightarrow> 'w \<Rightarrow> bool \<times> 'w) \<Rightarrow> manager_call list \<Rightarrow> 'w \<Rightarrow> int \<times> manager_call list \<times> 'w" where
  "run_calls call [] w = (0, [], w)"
| "run_calls call (c # cs) w =
     (case call c w of
        (False, w1) \<Rightarrow> (1, [c], w1)
      | (True, w1) \<Rightarrow> (case run_calls call cs w1 of (code, made, w2) \<Rightarrow> (code, c # made, w2)))"

text \<open>\<open>main\<close>: the exit code, the calls it made, and the world.\<close>

definition controller_main ::
  "'z flags \<Rightarrow> 'z \<Rightarrow> (manager_call \<Rightarrow> 'w \<Rightarrow> bool \<times> 'w) \<Rightarrow> string list \<Rightarrow> 'w \<Rightarrow> int \<times> manager_call list \<times> 'w" where
  "controller_main lib_flags z call args w =
     (case flag_parse (program_flags lib_flags) args (default_options, z) of
        Inl e \<Rightarrow> (flag_exit e, [], w)
      | Inr (_, o1, _) \<Rightarrow> run_calls call (manager_calls o1) w)"

subsection \<open>Lemmas\<close>

lemma program_flags_own: "map_of own_flags n = Some f \<Longrightarrow> map_of (program_flags L) n = Some f"
  by (simp add: program_flags_def map_add_Some_iff)

text \<open>The store after the options of both servers.\<close>

lemma base_tls_options_props:
  assumes "grow_lawful grow" "base_tls_options grow o1 = (base, h0)"
  shows "valid_slice h0 base"
    "slice_elems h0 base = (if enable_http2 o1 then [] else [DisableHttp2])"
    "slice_len base = (if enable_http2 o1 then 0 else 1)"
    "slice_cap base = (if enable_http2 o1 then 0 else grow 0 1)"
proof -
  have nil: "slice_len nil_slice = 0" "slice_cap nil_slice = 0" by (simp_all add: nil_slice_def)
  show "valid_slice h0 base"
    "slice_elems h0 base = (if enable_http2 o1 then [] else [DisableHttp2])"
    "slice_len base = (if enable_http2 o1 then 0 else 1)"
    using assms slice_append_elems [OF nil_slice_simps(1) assms(1), of DisableHttp2 "[]" base h0]
    by (auto simp: base_tls_options_def nil split: if_splits)
  show "slice_cap base = (if enable_http2 o1 then 0 else grow 0 1)"
    using assms(2) by (auto simp: base_tls_options_def slice_append_def Let_def nil)
qed

definition wanted_tls :: "options \<Rightarrow> cert_kind \<Rightarrow> tls_config \<Rightarrow> tls_config" where
  "wanted_tls o1 k c =
     \<lparr>next_protos = (if enable_http2 o1 then next_protos c else [''http/1.1'']),
      get_certificate_of = (if cert_dir o1 k \<noteq> '''' then Some k else get_certificate_of c)\<rparr>"

lemma fold_tls_options:
  "fold apply_tls_option ((if enable_http2 o1 then [] else [DisableHttp2]) @
     (if cert_dir o1 k \<noteq> '''' then [UseCertOf k] else [])) c = wanted_tls o1 k c"
  by (simp add: wanted_tls_def apply_tls_option_def)

lemma cert_tls_option_elems:
  assumes "grow_lawful grow" "valid_slice h s" "cert_tls_option grow o1 k s h = (s', h')"
  shows "slice_elems h' s' = slice_elems h s @ (if cert_dir o1 k \<noteq> '''' then [UseCertOf k] else [])"
    "valid_slice h' s'" "slice_elems h' s = slice_elems h s" "valid_slice h' s"
  using assms slice_append_elems [of h s grow "UseCertOf k" s' h'] slice_append_keeps [of h s grow s "UseCertOf k" s' h']
  by (auto simp: cert_tls_option_def split: if_splits)

lemma cert_tls_option_keeps:
  assumes m: "cert_tls_option grow o1 k base h = (ms, h2)" and ws: "valid_slice h ws"
    and full: "cert_dir o1 k = '''' \<or> slice_len ws \<le> slice_len base \<or> slice_cap base \<le> slice_len base"
  shows "slice_elems h2 ws = slice_elems h ws"
  using m full slice_append_keeps [OF ws] by (auto simp: cert_tls_option_def split: if_splits)

lemma cert_tls_option_overwrites:
  assumes w: "cert_tls_option grow o1 k base h = (ws, h1)" and m: "cert_tls_option grow o1 k' base h1 = (ms, h2)"
    and ws: "valid_slice h1 ws" and room: "slice_len base < slice_cap base"
    and dirs: "cert_dir o1 k \<noteq> ''''" "cert_dir o1 k' \<noteq> ''''"
  shows "slice_elems h2 ws = (slice_elems h1 ws)[slice_len base := UseCertOf k']"
proof -
  have "slice_append grow base (UseCertOf k') h1 = (ms, h2)" "slice_array ws = slice_array base" "slice_len ws = Suc (slice_len base)"
    using w m dirs room by (auto simp: cert_tls_option_def slice_append_def Let_def)
  then show ?thesis using slice_append_overwrites [OF ws _ room] by simp
qed

text \<open>C17: both servers of the controller speak HTTP/1.1 only, unless HTTP/2 is enabled, and each serves the
  certificate of its own watcher. For the webhook server this rests on the growth of slices: its options
  and those of the metrics server are appended to one slice, and the second append overwrites the first
  exactly when HTTP/2 is disabled, both certificates are configured, and the run time system gives the
  first element more room than it asked for (Go's does not: a slice of one pointer has capacity one).\<close>

theorem controller_servers_tls:
  assumes g: "grow_lawful grow"
  shows "server_tls grow o1 MetricsCert c = wanted_tls o1 MetricsCert c \<and>
    (server_tls grow o1 WebhookCert c = wanted_tls o1 WebhookCert c \<longleftrightarrow>
       enable_http2 o1 \<or> webhook_cert_path o1 = '''' \<or> metrics_cert_path o1 = '''' \<or> grow 0 1 = 1)"
proof -
  obtain base h0 where b: "base_tls_options grow o1 = (base, h0)" by (cases "base_tls_options grow o1")
  obtain ws h1 where w: "cert_tls_option grow o1 WebhookCert base h0 = (ws, h1)"
    by (cases "cert_tls_option grow o1 WebhookCert base h0")
  obtain ms h2 where m: "cert_tls_option grow o1 MetricsCert base h1 = (ms, h2)"
    by (cases "cert_tls_option grow o1 MetricsCert base h1")
  note base = base_tls_options_props [OF g b]
  note ws = cert_tls_option_elems [OF g base(1) w]
  note ms = cert_tls_option_elems [OF g ws(4) m]
  have tls: "tls_options grow o1 = (ws, ms, h2)" by (simp add: tls_options_def b w m)
  have metrics: "server_tls grow o1 MetricsCert c = wanted_tls o1 MetricsCert c"
    unfolding server_tls_def tls by (simp add: ms(1) ws(3) base(2) fold_tls_options [symmetric])
  have kept: "server_tls grow o1 WebhookCert c = wanted_tls o1 WebhookCert c" if "slice_elems h2 ws = slice_elems h1 ws"
    unfolding server_tls_def tls by (simp add: that ws(1) base(2) fold_tls_options [symmetric])
  show ?thesis
  proof (cases "enable_http2 o1 \<or> webhook_cert_path o1 = '''' \<or> metrics_cert_path o1 = '''' \<or> grow 0 1 = 1")
    case True
    then have "cert_dir o1 MetricsCert = '''' \<or> slice_len ws \<le> slice_len base \<or> slice_cap base \<le> slice_len base"
      using w base(3,4) by (auto simp: cert_tls_option_def cert_dir_def split: if_splits)
    from kept [OF cert_tls_option_keeps [OF m ws(2) this]] metrics True show ?thesis by simp
  next
    case False
    have room: "slice_len base < slice_cap base" and one: "slice_len base = 1"
      using False base(3,4) g [unfolded grow_lawful_def, rule_format, of 1 0] by auto
    have "slice_elems h2 ws = (slice_elems h1 ws)[slice_len base := UseCertOf MetricsCert]"
      using False by (intro cert_tls_option_overwrites [OF w m ws(2) room]) (simp_all add: cert_dir_def)
    then have "slice_elems h2 ws = [DisableHttp2, UseCertOf MetricsCert]"
      using False by (simp add: ws(1) base(2) one cert_dir_def)
    then have "get_certificate_of (server_tls grow o1 WebhookCert c) = Some MetricsCert"
      by (simp add: server_tls_def tls apply_tls_option_def)
    moreover have "get_certificate_of (wanted_tls o1 WebhookCert c) = Some WebhookCert"
      using False by (simp add: wanted_tls_def cert_dir_def)
    ultimately show ?thesis using metrics False by auto
  qed
qed


text \<open>Go's growth of a slice below 256 elements, for elements of eight bytes and up to four of them.\<close>

definition go_grow :: "nat \<Rightarrow> nat \<Rightarrow> nat" where
  "go_grow c n = (if 2 * c < n then n else 2 * c)"

definition two_certs :: options where
  "two_certs = default_options\<lparr>webhook_cert_path := ''/webhook'', metrics_cert_path := ''/metrics''\<rparr>"

definition plain_tls :: tls_config where
  "plain_tls = \<lparr>next_protos = [''h2''], get_certificate_of = None\<rparr>"

theorem controller_servers_tls_witness:
  "server_tls go_grow two_certs WebhookCert plain_tls = \<lparr>next_protos = [''http/1.1''], get_certificate_of = Some WebhookCert\<rparr> \<and>
   server_tls (\<lambda>c n. 2 * n) two_certs WebhookCert plain_tls \<noteq> wanted_tls two_certs WebhookCert plain_tls"
proof
  have "grow_lawful go_grow" "grow_lawful (\<lambda>c n. 2 * n)" by (auto simp: grow_lawful_def go_grow_def)
  note tls = controller_servers_tls [OF this(1), of two_certs plain_tls] controller_servers_tls [OF this(2), of two_certs plain_tls]
  show "server_tls go_grow two_certs WebhookCert plain_tls =
      \<lparr>next_protos = [''http/1.1''], get_certificate_of = Some WebhookCert\<rparr>"
    using tls(1) by (simp add: go_grow_def wanted_tls_def two_certs_def default_options_def cert_dir_def)
  show "server_tls (\<lambda>c n. 2 * n) two_certs WebhookCert plain_tls \<noteq> wanted_tls two_certs WebhookCert plain_tls"
    using tls(2) by (simp add: two_certs_def default_options_def)
qed

subsection \<open>The start of the manager\<close>

lemma run_calls_append:
  "run_calls call (cs @ ds) w =
     (case run_calls call cs w of
        (code, made, w1) \<Rightarrow> if code = 0 then (case run_calls call ds w1 of (code', made', w2) \<Rightarrow> (code', made @ made', w2))
                           else (code, made, w1))"
  by (induction cs arbitrary: w) (auto split: prod.splits bool.splits)

lemma run_calls_ok: "run_calls call cs w = (0, made, w') \<Longrightarrow> made = cs"
  by (induction cs arbitrary: w made) (auto split: prod.splits bool.splits)

lemma run_calls_failed:
  "run_calls call cs w = (code, made, w') \<Longrightarrow> code = 0 \<or>
     code = 1 \<and> (\<exists>pre c post w1. cs = pre @ c # post \<and> made = pre @ [c] \<and>
       run_calls call pre w = (0, pre, w1) \<and> call c w1 = (False, w'))"
proof (induction cs arbitrary: w made)
  case (Cons c cs)
  obtain ok w1 where c: "call c w = (ok, w1)" by (cases "call c w")
  show ?case
  proof (cases ok)
    case True
    with Cons.prems c obtain made' where rest: "run_calls call cs w1 = (code, made', w')" "made = c # made'"
      by (auto split: prod.splits)
    from Cons.IH [OF rest(1)] show ?thesis
    proof (elim disjE conjE exE)
      fix pre d post w2
      assume "code = 1" "cs = pre @ d # post" "made' = pre @ [d]" "run_calls call pre w1 = (0, pre, w2)" "call d w2 = (False, w')"
      then show ?thesis
        using c True rest(2) by (intro disjI2 conjI exI [of _ "c # pre"] exI [of _ d] exI [of _ post] exI [of _ w2]) simp_all
    qed simp
  next
    case False
    with Cons.prems c show ?thesis by (intro disjI2 conjI exI [of _ "[]"] exI [of _ c] exI [of _ cs] exI [of _ w]) simp_all
  qed
qed simp

definition before_start :: "options \<Rightarrow> manager_call list" where
  "before_start o1 = butlast (manager_calls o1)"

lemma manager_calls_start: "manager_calls o1 = before_start o1 @ [StartManager]" "StartManager \<notin> set (before_start o1)"
  by (simp_all add: manager_calls_def before_start_def butlast_append new_cert_watcher_def add_cert_watcher_def)

lemma before_start_watches:
  assumes that: "cert_dir o1 k \<noteq> ''''"
  shows "\<exists>a b c. before_start o1 =
    a @ NewCertWatcher k (fst (cert_files o1 k)) (snd (cert_files o1 k)) # b @ AddCertWatcher k # c"
proof (cases k)
  case WebhookCert
  let ?b = "new_cert_watcher o1 MetricsCert @
    [GetRestConfig, NewManager (manager_options_of o1), SetupReconciler (max_concurrent o1)] @ add_cert_watcher o1 MetricsCert"
  show ?thesis
    using that WebhookCert by (intro exI [of _ "[]"] exI [of _ ?b] exI [of _ "[AddHealthzCheck ''healthz'', AddReadyzCheck ''readyz'']"])
      (simp add: before_start_def manager_calls_def butlast_append new_cert_watcher_def add_cert_watcher_def)
next
  case MetricsCert
  let ?b = "[GetRestConfig, NewManager (manager_options_of o1), SetupReconciler (max_concurrent o1)]"
  let ?c = "add_cert_watcher o1 WebhookCert @ [AddHealthzCheck ''healthz'', AddReadyzCheck ''readyz'']"
  show ?thesis
    using that MetricsCert by (intro exI [of _ "new_cert_watcher o1 WebhookCert"] exI [of _ ?b] exI [of _ ?c])
      (simp add: before_start_def manager_calls_def butlast_append new_cert_watcher_def add_cert_watcher_def)
qed

lemma before_start_sets_up:
  "{SetupReconciler (max_concurrent o1), AddHealthzCheck ''healthz'', AddReadyzCheck ''readyz''} \<subseteq> set (before_start o1)"
  by (simp add: before_start_def manager_calls_def butlast_append)

text \<open>C27: the manager only starts when everything before it succeeded: each configured certificate has a
  watcher for its two files and the manager runs it, the reconciler is set up with the concurrency of the
  command line, and both checks are there; the exit code then tells how the manager ended. Otherwise the
  controller exits with 1 at the call that failed, or at the command line with 0 for help and else 2.\<close>

theorem controller_starts_when_ready:
  assumes run: "controller_main L z call args w = (code, made, w')"
  shows "case flag_parse (program_flags L) args (default_options, z) of
      Inl e \<Rightarrow> made = [] \<and> code = (if e = HelpWanted then 0 else 2)
    | Inr (_, o1, _) \<Rightarrow>
        if StartManager \<in> set made
        then (\<exists>pre w1. made = pre @ [StartManager] \<and> run_calls call pre w = (0, pre, w1) \<and>
                call StartManager w1 = (code = 0, w') \<and> code \<in> {0, 1} \<and>
                SetupReconciler (max_concurrent o1) \<in> set pre \<and>
                AddHealthzCheck ''healthz'' \<in> set pre \<and> AddReadyzCheck ''readyz'' \<in> set pre \<and>
                (\<forall>k. cert_dir o1 k \<noteq> '''' \<longrightarrow> (\<exists>a b c. pre =
                   a @ NewCertWatcher k (fst (cert_files o1 k)) (snd (cert_files o1 k)) # b @ AddCertWatcher k # c)))
        else code = 1 \<and> (\<exists>pre c w1. made = pre @ [c] \<and> run_calls call pre w = (0, pre, w1) \<and> call c w1 = (False, w'))"
proof (cases "flag_parse (program_flags L) args (default_options, z)")
  case (Inl e)
  with run show ?thesis by (simp add: controller_main_def flag_exit_def)
next
  case (Inr r)
  then obtain rest o1 z' where parsed: "flag_parse (program_flags L) args (default_options, z) = Inr (rest, o1, z')"
    by (cases r) auto
  with run have calls: "run_calls call (before_start o1 @ [StartManager]) w = (code, made, w')"
    by (simp add: controller_main_def manager_calls_start(1))
  obtain code1 made1 w1 where r1: "run_calls call (before_start o1) w = (code1, made1, w1)"
    by (cases "run_calls call (before_start o1) w")
  show ?thesis
  proof (cases "code1 = 0")
    case True
    have m1: "made1 = before_start o1" by (rule run_calls_ok [OF r1 [unfolded True]])
    obtain ok w2 where st: "call StartManager w1 = (ok, w2)" by (cases "call StartManager w1")
    with calls r1 True m1 have made: "made = before_start o1 @ [StartManager]" and "w' = w2" "code = (if ok then 0 else 1)"
      by (cases ok; simp add: run_calls_append)+
    with st have start: "call StartManager w1 = (code = 0, w')" "code \<in> {0, 1}" by simp_all
    have "StartManager \<in> set made" by (simp add: made)
    show ?thesis
      unfolding parsed sum.case prod.case if_P [OF \<open>StartManager \<in> set made\<close>]
    proof (rule exI [of _ "before_start o1"], rule exI [of _ w1], intro conjI allI impI)
      show "made = before_start o1 @ [StartManager]" by (rule made)
      show "run_calls call (before_start o1) w = (0, before_start o1, w1)" using r1 True m1 by simp
    qed (use start before_start_sets_up before_start_watches in blast)+
  next
    case False
    with calls r1 have m: "code = code1" "made = made1" "w' = w1" by (auto simp: run_calls_append)
    from run_calls_failed [OF r1] False obtain pre c post w2 where f: "code1 = 1" "before_start o1 = pre @ c # post"
      "made1 = pre @ [c]" "run_calls call pre w = (0, pre, w2)" "call c w2 = (False, w1)" by blast
    have "StartManager \<notin> set made" using manager_calls_start(2) [of o1] f(2,3) m by simp
    with f m show ?thesis by (auto simp: parsed)
  qed
qed

definition refuse_setup :: "manager_call \<Rightarrow> nat \<Rightarrow> bool \<times> nat" where
  "refuse_setup c n = (c \<noteq> SetupReconciler 3, Suc n)"

theorem controller_starts_when_ready_witness:
  "\<exists>pre c w1. map (\<lambda>c. c = SetupReconciler 3) (fst (snd (controller_main [] () refuse_setup [''--max-concurrent-reconciles'', ''3''] 0))) =
       [False, False, True] \<and>
     fst (snd (controller_main [] () refuse_setup [''--max-concurrent-reconciles'', ''3''] 0)) = pre @ [c] \<and>
     run_calls refuse_setup pre 0 = (0, pre, w1) \<and> \<not> fst (refuse_setup c w1)"
proof -
  let ?r = "controller_main [] () refuse_setup [''--max-concurrent-reconciles'', ''3''] 0"
  obtain code made w' where r: "?r = (code, made, w')" by (cases ?r)
  have parsed: "flag_parse (program_flags []) [''--max-concurrent-reconciles'', ''3''] (default_options, ()) =
      Inr ([], default_options\<lparr>max_concurrent := 3\<rparr>, ())" by code_simp
  have m: "map (\<lambda>c. c = SetupReconciler 3) (fst (snd ?r)) = [False, False, True]" "StartManager \<notin> set (fst (snd ?r))"
    by code_simp+
  from controller_starts_when_ready [OF r] m show ?thesis
    unfolding parsed r by fastforce
qed

subsection \<open>The flags\<close>

text \<open>A number on the command line is the concurrency the reconciler is set up with, for every number of
  Go's type \<open>int\<close> that is not negative, whatever flags come before and after it; a later one wins.\<close>

theorem max_concurrent_roundtrip:
  assumes "0 \<le> n" "n < 2 ^ 63"
  shows "flag_parse (program_flags L) (flag_arg (''max-concurrent-reconciles'', fmt_int n) # rest) (o1, z) =
    flag_parse (program_flags L) rest (o1\<lparr>max_concurrent := n\<rparr>, z)"
proof (rule flag_parse_arg)
  show "flag_name ''max-concurrent-reconciles''" by (simp add: flag_name_def)
  show "map_of (program_flags L) ''max-concurrent-reconciles'' = Some (int_var (\<lambda>n o1. o1\<lparr>max_concurrent := n\<rparr>))"
    by (rule program_flags_own) (simp add: own_flags_def)
  show "set_flag (int_var (\<lambda>n o1. o1\<lparr>max_concurrent := n\<rparr>)) (fmt_int n) (o1, z) = Some (o1\<lparr>max_concurrent := n\<rparr>, z)"
    by (simp add: int_var_def parse_int_fmt_int [OF assms])
qed

theorem max_concurrent_roundtrip_witness:
  "flag_parse (program_flags []) [''-max-concurrent-reconciles=9223372036854775807''] (default_options, ()) =
     Inr ([], default_options\<lparr>max_concurrent := 9223372036854775807\<rparr>, ())"
proof -
  have "flag_arg (''max-concurrent-reconciles'', fmt_int 9223372036854775807) = ''-max-concurrent-reconciles=9223372036854775807''"
    by code_simp
  then show ?thesis
    using max_concurrent_roundtrip [of 9223372036854775807 "[]" "[]" default_options "()"] by (simp add: flag_parse_Nil)
qed

text \<open>As the module deploys it, with \<open>-leader-elect\<close> alone, the controller elects a leader, answers probes
  on port 8081, has no endpoint for metrics, reconciles ten imports at a time, and offers no HTTP/2.\<close>

theorem controller_as_deployed:
  "controller_main L z (\<lambda>_ w. (True, w)) [''-leader-elect''] w =
     (0, [GetRestConfig,
          NewManager \<lparr>mo_metrics_addr = ''0'', mo_secure_serving = True, mo_authenticated = True,
            mo_probe_addr = '':8081'', mo_leader_election = True, mo_leader_id = ''d48f3aa7.deckhouse.io''\<rparr>,
          SetupReconciler 10, AddHealthzCheck ''healthz'', AddReadyzCheck ''readyz'', StartManager], w)"
proof -
  have "map_of (program_flags L) ''leader-elect'' = Some (bool_var (\<lambda>b o1. o1\<lparr>leader_elect := b\<rparr>))"
    by (rule program_flags_own) (simp add: own_flags_def)
  then have "parse_one (program_flags L) [''-leader-elect''] (default_options, z) =
      FlagParsed [] (default_options\<lparr>leader_elect := True\<rparr>, z)"
    by (simp add: parse_one_def parse_named_def apply_flag_def bool_var_def parse_bool_def)
  then have "flag_parse (program_flags L) [''-leader-elect''] (default_options, z) =
      Inr ([], default_options\<lparr>leader_elect := True\<rparr>, z)"
    by (subst flag_parse.simps) (simp add: flag_parse_Nil)
  then show ?thesis
    by (simp add: controller_main_def manager_calls_def new_cert_watcher_def add_cert_watcher_def cert_dir_def
        manager_options_of_def default_options_def)
qed

end
