(* ===== verification/Ssi_Scheme.thy ===== *)
theory Ssi_Scheme
  imports Ssi_Main
begin

text \<open>
  What happens in the controller around \<open>main\<close>: the initialisation of its packages (\<^verbatim>\<open>groupversion_info.go\<close>,
  \<^verbatim>\<open>secretsstoreimport_types.go\<close>, \<open>init\<close> of \<^verbatim>\<open>cmd/main.go\<close>), which registers the types, and \<open>SetupWithManager\<close>,
  which registers the reconciler. The libraries' scheme and its builder are a record of functions; the
  state \<open>'s\<close> is the scheme.
\<close>

type_synonym group_version = "string \<times> string"

record ('b, 's) scheme_lib =
  new_builder :: "group_version \<Rightarrow> 'b"
  register :: "string list \<Rightarrow> 'b \<Rightarrow> 'b"
  add_to_scheme :: "'b \<Rightarrow> 's \<Rightarrow> string option \<times> 's"
  clientgo_add_to_scheme :: "'s \<Rightarrow> string option \<times> 's"

definition group_version :: group_version where
  "group_version = (''deckhouse.io'', ''v1alpha1'')"

definition scheme_builder :: "('b, 's) scheme_lib \<Rightarrow> 'b" where
  "scheme_builder L = new_builder L group_version"

definition register_types :: "('b, 's) scheme_lib \<Rightarrow> 'b \<Rightarrow> 'b" where
  "register_types L b = register L [''SecretsStoreImport'', ''SecretsStoreImportList''] b"

text \<open>\<open>AddToScheme\<close> is a method of the builder behind a pointer: it sees the types that the \<open>init\<close> of its package
  registers afterwards, since packages are initialised before those that import them. \<open>Must\<close> panics.\<close>

definition init_scheme :: "('b, 's) scheme_lib \<Rightarrow> 's \<Rightarrow> string + 's" where
  "init_scheme L s =
     (case clientgo_add_to_scheme L s of
        (Some e, s1) \<Rightarrow> Inl e
      | (None, s1) \<Rightarrow>
          (case add_to_scheme L (register_types L (scheme_builder L)) s1 of
             (Some e, s2) \<Rightarrow> Inl e
           | (None, s2) \<Rightarrow> Inr s2))"

text \<open>The controller as it is built; \<open>complete\<close> is the library's part.\<close>

record 'k registration =
  for_kind :: 'k
  controller_name :: string
  max_reconciles :: int

definition setup_with_manager :: "(string registration \<Rightarrow> 'w \<Rightarrow> bool \<times> 'w) \<Rightarrow> int \<Rightarrow> 'w \<Rightarrow> bool \<times> 'w" where
  "setup_with_manager complete n w =
     complete \<lparr>for_kind = ''SecretsStoreImport'', controller_name = ''secretsstoreimport'', max_reconciles = n\<rparr> w"

text \<open>The program: a panic of an \<open>init\<close> ends it with status 2; the calls of \<open>main\<close> know the scheme.\<close>

definition controller_program ::
  "('b, 's) scheme_lib \<Rightarrow> 's \<Rightarrow> 'z flags \<Rightarrow> 'z \<Rightarrow> ('s \<Rightarrow> manager_call \<Rightarrow> 'w \<Rightarrow> bool \<times> 'w) \<Rightarrow>
   ('s \<Rightarrow> string registration \<Rightarrow> 'w \<Rightarrow> bool \<times> 'w) \<Rightarrow> string list \<Rightarrow> 'w \<Rightarrow> int \<times> manager_call list \<times> 'w" where
  "controller_program L s0 lib_flags z call complete args w =
     (case init_scheme L s0 of
        Inl e \<Rightarrow> (2, [], w)
      | Inr s \<Rightarrow> controller_main lib_flags z
          (\<lambda>c. case c of SetupReconciler n \<Rightarrow> setup_with_manager (complete s) n | _ \<Rightarrow> call s c) args w)"

text \<open>The documented behaviour of schemes: what was added is known, and nothing known gets lost.\<close>

definition scheme_lawful :: "('b, 's) scheme_lib \<Rightarrow> ('b \<Rightarrow> group_version \<times> string list) \<Rightarrow> ('s \<Rightarrow> (group_version \<times> string) set) \<Rightarrow> bool" where
  "scheme_lawful L built knows \<longleftrightarrow>
     (\<forall>gv. built (new_builder L gv) = (gv, [])) \<and>
     (\<forall>ts b. built (register L ts b) = (fst (built b), snd (built b) @ ts)) \<and>
     (\<forall>b s s'. add_to_scheme L b s = (None, s') \<longrightarrow> knows s' = knows s \<union> (\<lambda>t. (fst (built b), t)) ` set (snd (built b))) \<and>
     (\<forall>s s'. clientgo_add_to_scheme L s = (None, s') \<longrightarrow> knows s \<subseteq> knows s')"

lemma init_scheme_knows:
  assumes "scheme_lawful L built knows" "init_scheme L s0 = Inr s"
  shows "knows s0 \<union> {(group_version, ''SecretsStoreImport''), (group_version, ''SecretsStoreImportList'')} \<subseteq> knows s"
proof -
  from assms(2) obtain s1 where g: "clientgo_add_to_scheme L s0 = (None, s1)"
    and a: "add_to_scheme L (register_types L (scheme_builder L)) s1 = (None, s)"
    by (auto simp: init_scheme_def split: prod.splits option.splits)
  have "built (register_types L (scheme_builder L)) = (group_version, [''SecretsStoreImport'', ''SecretsStoreImportList''])"
    using assms(1) by (simp add: scheme_lawful_def register_types_def scheme_builder_def del: split_paired_All)
  moreover have "knows s = knows s1 \<union> (\<lambda>t. (fst (built b), t)) ` set (snd (built b))"
    if "b = register_types L (scheme_builder L)" for b
    using assms(1) a that unfolding scheme_lawful_def by blast
  moreover have "knows s0 \<subseteq> knows s1" using assms(1) g unfolding scheme_lawful_def by blast
  ultimately show ?thesis by auto
qed

lemma run_calls_made:
  "run_calls call cs w = (code, made, w') \<Longrightarrow> c \<in> set made \<Longrightarrow> c \<in> set cs"
proof (induction cs arbitrary: w made)
  case (Cons a cs)
  obtain ok w1 where a: "call a w = (ok, w1)" by (cases "call a w")
  show ?case
  proof (cases ok)
    case True
    with Cons.prems(1) a obtain made' where "run_calls call cs w1 = (code, made', w')" "made = a # made'"
      by (auto split: prod.splits)
    with Cons.IH [of w1 made'] Cons.prems(2) show ?thesis by auto
  qed (use Cons.prems a in auto)
qed simp

text \<open>The manager never starts before the types are known and the reconciler of imports is registered with the
  concurrency of the command line; if the types cannot be registered, nothing is called.\<close>

theorem controller_program_registers:
  assumes L: "scheme_lawful L built knows"
    and run: "controller_program L s0 lib_flags z call complete args w = (code, made, w')"
  shows "made = [] \<or> (\<exists>s rest o1 z'. init_scheme L s0 = Inr s \<and>
      knows s0 \<union> {(group_version, ''SecretsStoreImport''), (group_version, ''SecretsStoreImportList'')} \<subseteq> knows s \<and>
      flag_parse (program_flags lib_flags) args (default_options, z) = Inr (rest, o1, z') \<and>
      (StartManager \<in> set made \<longrightarrow> SetupReconciler (max_concurrent o1) \<in> set made))"
proof (cases "init_scheme L s0")
  case (Inr s)
  let ?call = "\<lambda>c. case c of SetupReconciler n \<Rightarrow> setup_with_manager (complete s) n | _ \<Rightarrow> call s c"
  from run Inr have main: "controller_main lib_flags z ?call args w = (code, made, w')" by (simp add: controller_program_def)
  show ?thesis
  proof (cases "flag_parse (program_flags lib_flags) args (default_options, z)")
    case (Inr r)
    then obtain rest o1 z' where parsed: "flag_parse (program_flags lib_flags) args (default_options, z) = Inr (rest, o1, z')"
      by (cases r) auto
    with main have calls: "run_calls ?call (before_start o1 @ [StartManager]) w = (code, made, w')"
      by (simp add: controller_main_def manager_calls_start(1))
    obtain code1 made1 w1 where r1: "run_calls ?call (before_start o1) w = (code1, made1, w1)"
      by (cases "run_calls ?call (before_start o1) w")
    have "SetupReconciler (max_concurrent o1) \<in> set made" if "StartManager \<in> set made"
    proof (cases "code1 = 0")
      case True
      from run_calls_ok [OF r1 [unfolded True]] calls r1 True before_start_sets_up [of o1]
      show ?thesis by (auto simp: run_calls_append split: prod.splits)
    next
      case False
      with calls r1 have "made = made1" by (auto simp: run_calls_append)
      with run_calls_made [OF r1] that manager_calls_start(2) [of o1] show ?thesis by blast
    qed
    with parsed init_scheme_knows [OF L \<open>init_scheme L s0 = Inr s\<close>] \<open>init_scheme L s0 = Inr s\<close> show ?thesis by blast
  qed (use main in \<open>simp add: controller_main_def\<close>)
qed (use run in \<open>simp add: controller_program_def\<close>)

end
