(* ===== verification/Ssi_Deepcopy.thy ===== *)
theory Ssi_Deepcopy
  imports Ssi_Controller
begin

text \<open>
  \<^verbatim>\<open>api/v1alpha1/zz_generated.deepcopy.go\<close>: the copies of the resources. The client of the controller hands
  out copies of cached objects, so a copy must have the contents of its original and share no memory with
  it. Slices are kept as Go has them: a reference to an array in a store, with an offset and a length;
  \<open>None\<close> is nil.

  The metadata of an object (\<open>ObjectMeta\<close>, \<open>ListMeta\<close>) is a type of the library, which refers to memory of its
  own: maps (labels, annotations), slices (owner references, finalizers) and pointers. It is kept as its
  plain fields, of an abstract type \<open>'m\<close>, and the list of the cells it refers to, those reached through other
  cells included; a cell of the store holds a content of an abstract type \<open>'c\<close>. Its copies are the library's,
  the parameters \<open>copy_meta\<close> and \<open>copy_list_meta\<close>, with what their documentation says as a law (\<open>copies_meta\<close>).
\<close>

subsection \<open>Objects in a store\<close>

record slice_ref =
  sl_array :: nat
  sl_off :: nat
  sl_len :: nat

record spec_obj =
  so_fields :: import_spec
  so_files :: "slice_ref option"

record 'm meta =
  meta_fields :: 'm
  meta_refs :: "nat list"

record 'm import_obj =
  io_meta :: "'m meta"
  io_spec :: spec_obj

record 'm import_list_obj =
  il_meta :: "'m meta"
  il_items :: "slice_ref option"

text \<open>The arrays of files and of imports, and the cells of the metadata; \<open>so_fields\<close> has the other fields of
  a specification, with no files.\<close>

record ('m, 'c) store =
  files_arrays :: "import_file list list"
  items_arrays :: "'m import_obj list list"
  meta_cells :: "'c list"

text \<open>A copying function of the library: it takes the cells to those with the copy's.\<close>

type_synonym ('m, 'c) meta_copier = "'m meta \<Rightarrow> 'c list \<Rightarrow> 'm meta \<times> 'c list"

definition slice_values :: "'a list list \<Rightarrow> slice_ref \<Rightarrow> 'a list" where
  "slice_values h s = take (sl_len s) (drop (sl_off s) (h ! sl_array s))"

text \<open>The value of an object.\<close>

definition read_meta :: "('m, 'c) store \<Rightarrow> 'm meta \<Rightarrow> 'm \<times> 'c list" where
  "read_meta st m = (meta_fields m, map (\<lambda>a. meta_cells st ! a) (meta_refs m))"

definition read_spec :: "('m, 'c) store \<Rightarrow> spec_obj \<Rightarrow> import_spec" where
  "read_spec st s =
     (so_fields s)\<lparr>is_files := (case so_files s of None \<Rightarrow> [] | Some sl \<Rightarrow> slice_values (files_arrays st) sl)\<rparr>"

definition read_import :: "('m, 'c) store \<Rightarrow> 'm import_obj \<Rightarrow> ('m \<times> 'c list) \<times> import_spec" where
  "read_import st x = (read_meta st (io_meta x), read_spec st (io_spec x))"

definition read_list ::
  "('m, 'c) store \<Rightarrow> 'm import_list_obj \<Rightarrow> ('m \<times> 'c list) \<times> (('m \<times> 'c list) \<times> import_spec) list option" where
  "read_list st l =
     (read_meta st (il_meta l), map_option (\<lambda>sl. map (read_import st) (slice_values (items_arrays st) sl)) (il_items l))"

subsection \<open>The copies\<close>

definition copy_vault_source :: "vault_source option \<Rightarrow> vault_source option" where
  "copy_vault_source x = map_option (\<lambda>v. v) x"

definition copy_files :: "import_file option \<Rightarrow> import_file option" where
  "copy_files x = map_option (\<lambda>f. f\<lparr>file_source := file_source f\<rparr>) x"

text \<open>\<open>make\<close> and \<open>copy\<close> of the files.\<close>

definition copy_spec :: "spec_obj \<Rightarrow> ('m, 'c) store \<Rightarrow> spec_obj \<times> ('m, 'c) store" where
  "copy_spec s st =
     (case so_files s of
        None \<Rightarrow> (s, st)
      | Some sl \<Rightarrow>
          (let values = slice_values (files_arrays st) sl
           in (s\<lparr>so_files := Some \<lparr>sl_array = length (files_arrays st), sl_off = 0, sl_len = sl_len sl\<rparr>\<rparr>,
               st\<lparr>files_arrays := files_arrays st @ [values]\<rparr>)))"

definition copy_import :: "('m, 'c) meta_copier \<Rightarrow> 'm import_obj \<Rightarrow> ('m, 'c) store \<Rightarrow> 'm import_obj \<times> ('m, 'c) store" where
  "copy_import copy_meta x st =
     (case copy_meta (io_meta x) (meta_cells st) of
        (m, cells) \<Rightarrow>
          (case copy_spec (io_spec x) (st\<lparr>meta_cells := cells\<rparr>) of
             (s, st1) \<Rightarrow> (x\<lparr>io_meta := m, io_spec := s\<rparr>, st1)))"

text \<open>One round of the loop over the items: element \<open>i\<close> of the slice into the array \<open>b\<close>.\<close>

definition copy_item :: "('m, 'c) meta_copier \<Rightarrow> slice_ref \<Rightarrow> nat \<Rightarrow> nat \<Rightarrow> ('m, 'c) store \<Rightarrow> ('m, 'c) store" where
  "copy_item copy_meta sl b i st =
     (case copy_import copy_meta (items_arrays st ! sl_array sl ! (sl_off sl + i)) st of
        (x, st1) \<Rightarrow> st1\<lparr>items_arrays := (items_arrays st1)[b := (items_arrays st1 ! b)[i := x]]\<rparr>)"

definition copy_list ::
  "('m, 'c) meta_copier \<Rightarrow> ('m, 'c) meta_copier \<Rightarrow> 'm import_obj \<Rightarrow> 'm import_list_obj \<Rightarrow> ('m, 'c) store \<Rightarrow>
   'm import_list_obj \<times> ('m, 'c) store" where
  "copy_list copy_list_meta copy_meta zero l st =
     (case copy_list_meta (il_meta l) (meta_cells st) of
        (m, cells) \<Rightarrow>
          (let out = l\<lparr>il_meta := m\<rparr>; st1 = st\<lparr>meta_cells := cells\<rparr>
           in case il_items l of
                None \<Rightarrow> (out, st1)
              | Some sl \<Rightarrow>
                  (let b = length (items_arrays st1);
                       st2 = st1\<lparr>items_arrays := items_arrays st1 @ [replicate (sl_len sl) zero]\<rparr>
                   in (out\<lparr>il_items := Some \<lparr>sl_array = b, sl_off = 0, sl_len = sl_len sl\<rparr>\<rparr>,
                       fold (copy_item copy_meta sl b) [0 ..< sl_len sl] st2))))"

text \<open>\<open>DeepCopy\<close> and \<open>DeepCopyObject\<close>: a nil pointer stays nil.\<close>

definition deep_copy :: "('x \<Rightarrow> 's \<Rightarrow> 'x \<times> 's) \<Rightarrow> 'x option \<Rightarrow> 's \<Rightarrow> 'x option \<times> 's" where
  "deep_copy copy x st = (case x of None \<Rightarrow> (None, st) | Some v \<Rightarrow> (case copy v st of (c, st1) \<Rightarrow> (Some c, st1)))"

subsection \<open>Lemmas\<close>

definition slice_ok :: "'a list list \<Rightarrow> slice_ref \<Rightarrow> bool" where
  "slice_ok h s \<longleftrightarrow> sl_array s < length h \<and> sl_off s + sl_len s \<le> length (h ! sl_array s)"

definition meta_ok :: "'c list \<Rightarrow> 'm meta \<Rightarrow> bool" where
  "meta_ok cells m \<longleftrightarrow> list_all (\<lambda>a. a < length cells) (meta_refs m)"

definition import_ok :: "('m, 'c) store \<Rightarrow> 'm import_obj \<Rightarrow> bool" where
  "import_ok st x \<longleftrightarrow> meta_ok (meta_cells st) (io_meta x) \<and>
     (case so_files (io_spec x) of None \<Rightarrow> True | Some sl \<Rightarrow> slice_ok (files_arrays st) sl)"

definition list_ok :: "('m, 'c) store \<Rightarrow> 'm import_list_obj \<Rightarrow> bool" where
  "list_ok st l \<longleftrightarrow> meta_ok (meta_cells st) (il_meta l) \<and>
     (case il_items l of None \<Rightarrow> True | Some sl \<Rightarrow>
        slice_ok (items_arrays st) sl \<and> list_all (import_ok st) (slice_values (items_arrays st) sl))"

text \<open>Metadata \<open>y\<close> whose cells are among \<open>new\<close>, behind \<open>cells\<close>, with the contents that \<open>x\<close> has in \<open>cells\<close>.\<close>

definition copied_meta :: "'c list \<Rightarrow> 'c list \<Rightarrow> 'm meta \<Rightarrow> 'm meta \<Rightarrow> bool" where
  "copied_meta cells new x y \<longleftrightarrow> meta_fields y = meta_fields x \<and>
     list_all2 (\<lambda>a b. length cells \<le> b \<and> b < length cells + length new \<and> (cells @ new) ! b = cells ! a) (meta_refs x) (meta_refs y)"

text \<open>What the library documents of \<open>DeepCopyInto\<close>: it writes to no memory that there was, and the copy has the contents
  of the original in memory of its own.\<close>

definition copies_meta :: "('m, 'c) meta_copier \<Rightarrow> bool" where
  "copies_meta copy \<longleftrightarrow> (\<forall>x cells. meta_ok cells x \<longrightarrow>
     (\<exists>new. snd (copy x cells) = cells @ new \<and> copied_meta cells new x (fst (copy x cells))))"

lemma copies_metaE:
  assumes "copies_meta copy" "meta_ok cells x" "copy x cells = (y, cells')"
  obtains new where "cells' = cells @ new" "copied_meta cells new x y"
proof -
  from assms(1,2) obtain new where "snd (copy x cells) = cells @ new" "copied_meta cells new x (fst (copy x cells))"
    unfolding copies_meta_def by blast
  with assms(3) that show thesis by simp
qed

lemma copied_meta_mono: "copied_meta cells new x y \<Longrightarrow> copied_meta cells (new @ news) x y"
  by (auto simp: copied_meta_def nth_append elim!: list_all2_mono)

lemma meta_ok_append: "meta_ok cells x \<Longrightarrow> meta_ok (cells @ new) x"
  by (auto simp: meta_ok_def list_all_iff)

text \<open>A copy that is made after others is one relative to the cells at the beginning.\<close>

lemma copied_meta_later:
  assumes "meta_ok cells x" "copied_meta (cells @ new) news x y"
  shows "copied_meta cells (new @ news) x y"
  using assms unfolding copied_meta_def meta_ok_def
  by (auto simp: list_all2_conv_all_nth list_all_length nth_append)

lemma copied_meta_read:
  assumes "copied_meta (meta_cells st) new x y"
    and "\<And>m. m < length new \<Longrightarrow> meta_cells st'' ! (length (meta_cells st) + m) = new ! m"
  shows "read_meta st'' y = read_meta st x"
proof -
  have "meta_cells st'' ! b = meta_cells st ! a"
    if "length (meta_cells st) \<le> b \<and> b < length (meta_cells st) + length new \<and> (meta_cells st @ new) ! b = meta_cells st ! a" for a b
    using assms(2) [of "b - length (meta_cells st)"] that by (auto simp: nth_append not_less [symmetric])
  with assms(1) have "list_all2 (\<lambda>a b. meta_cells st'' ! b = meta_cells st ! a) (meta_refs x) (meta_refs y)"
    by (auto simp: copied_meta_def elim!: list_all2_mono)
  then have "map (\<lambda>a. meta_cells st'' ! a) (meta_refs y) = map (\<lambda>a. meta_cells st ! a) (meta_refs x)"
    by (auto simp: list_all2_conv_all_nth intro!: nth_equalityI)
  with assms(1) show ?thesis by (simp add: read_meta_def copied_meta_def)
qed

text \<open>An import \<open>y\<close> whose files and metadata are in \<open>new\<close> and \<open>newc\<close>, with the contents that \<open>x\<close> has in the store \<open>st\<close>.\<close>

definition copied :: "('m, 'c) store \<Rightarrow> import_file list list \<Rightarrow> 'c list \<Rightarrow> 'm import_obj \<Rightarrow> 'm import_obj \<Rightarrow> bool" where
  "copied st new newc x y \<longleftrightarrow> copied_meta (meta_cells st) newc (io_meta x) (io_meta y) \<and>
     so_fields (io_spec y) = so_fields (io_spec x) \<and>
     (case so_files (io_spec x) of
        None \<Rightarrow> so_files (io_spec y) = None
      | Some sl \<Rightarrow> (\<exists>m < length new. so_files (io_spec y) =
            Some \<lparr>sl_array = length (files_arrays st) + m, sl_off = 0, sl_len = length (new ! m)\<rparr> \<and>
            new ! m = slice_values (files_arrays st) sl))"

lemma copied_mono:
  assumes "copied st new newc x y"
  shows "copied st (new @ news) (newc @ newcs) x y"
proof (cases "so_files (io_spec x)")
  case (Some sl)
  with assms obtain m where "m < length new" "so_files (io_spec y) =
      Some \<lparr>sl_array = length (files_arrays st) + m, sl_off = 0, sl_len = length (new ! m)\<rparr>"
    "new ! m = slice_values (files_arrays st) sl"
    by (auto simp: copied_def)
  with assms Some show ?thesis by (auto simp: copied_def nth_append copied_meta_mono intro!: exI [of _ m])
qed (use assms in \<open>simp add: copied_def copied_meta_mono\<close>)

lemma slice_values_append: "slice_ok h s \<Longrightarrow> slice_values (h @ news) s = slice_values h s"
  by (simp add: slice_ok_def slice_values_def nth_append)

lemma slice_values_length: "slice_ok h s \<Longrightarrow> length (slice_values h s) = sl_len s"
  by (auto simp: slice_ok_def slice_values_def min_def)

lemma slice_values_nth: "slice_ok h s \<Longrightarrow> i < sl_len s \<Longrightarrow> slice_values h s ! i = h ! sl_array s ! (sl_off s + i)"
  by (simp add: slice_ok_def slice_values_def)

lemma copy_import_copied:
  assumes meta: "copies_meta copy_meta" and ok: "import_ok st0 x"
    and st: "files_arrays st = files_arrays st0 @ new" "meta_cells st = meta_cells st0 @ newc"
    and c: "copy_import copy_meta x st = (y, st')"
  shows "\<exists>news newcs. files_arrays st' = files_arrays st0 @ new @ news \<and> meta_cells st' = meta_cells st0 @ newc @ newcs \<and>
    items_arrays st' = items_arrays st \<and> copied st0 (new @ news) (newc @ newcs) x y"
proof -
  obtain m cells where m: "copy_meta (io_meta x) (meta_cells st) = (m, cells)" by (cases "copy_meta (io_meta x) (meta_cells st)")
  have okm: "meta_ok (meta_cells st0) (io_meta x)" using ok by (simp add: import_ok_def)
  then obtain newcs where cells: "cells = meta_cells st0 @ newc @ newcs" "copied_meta (meta_cells st) newcs (io_meta x) m"
    using copies_metaE [OF meta _ m] by (auto simp: st meta_ok_append)
  have cm: "copied_meta (meta_cells st0) (newc @ newcs) (io_meta x) m"
    using okm cells(2) unfolding st by (rule copied_meta_later)
  show ?thesis
  proof (cases "so_files (io_spec x)")
    case None
    with c cm st cells m show ?thesis
      by (auto simp: copy_import_def copy_spec_def copied_def intro!: exI [of _ "[]"] exI [of _ newcs])
  next
    case (Some sl)
    let ?v = "slice_values (files_arrays st0) sl"
    have sl: "slice_ok (files_arrays st0) sl" using ok Some by (simp add: import_ok_def)
    then have "slice_values (files_arrays st) sl = ?v" "length ?v = sl_len sl"
      unfolding st by (rule slice_values_append, rule slice_values_length)
    with c cm Some st cells m show ?thesis
      by (auto simp: copy_import_def copy_spec_def copied_def Let_def nth_append
          intro!: exI [of _ "[?v]"] exI [of _ newcs] exI [of _ "length new"])
  qed
qed

lemma copy_items_copied:
  assumes meta: "copies_meta copy_meta" and sl: "slice_ok (items_arrays st0) sl"
    and ok: "list_all (import_ok st0) (slice_values (items_arrays st0) sl)"
    and st: "files_arrays st = files_arrays st0" "items_arrays st = items_arrays st0 @ [replicate (sl_len sl) zero]"
      "meta_cells st = meta_cells st0 @ newl"
    and k: "k \<le> sl_len sl"
  shows "\<exists>new newc ys. let st' = fold (copy_item copy_meta sl (length (items_arrays st0))) [0 ..< k] st in
    files_arrays st' = files_arrays st0 @ new \<and> meta_cells st' = meta_cells st0 @ newl @ newc \<and>
    items_arrays st' = items_arrays st0 @ [ys @ replicate (sl_len sl - k) zero] \<and>
    list_all2 (copied st0 new (newl @ newc)) (take k (slice_values (items_arrays st0) sl)) ys"
  using k
proof (induction k)
  case 0
  show ?case using st by (intro exI [of _ "[]"]) simp
next
  case (Suc k)
  let ?b = "length (items_arrays st0)" and ?vals = "slice_values (items_arrays st0) sl"
  define st1 where "st1 = fold (copy_item copy_meta sl ?b) [0 ..< k] st"
  from Suc obtain new newc ys where h: "files_arrays st1 = files_arrays st0 @ new"
    "meta_cells st1 = meta_cells st0 @ newl @ newc"
    "items_arrays st1 = items_arrays st0 @ [ys @ replicate (sl_len sl - k) zero]"
    "list_all2 (copied st0 new (newl @ newc)) (take k ?vals) ys"
    by (auto simp: st1_def Let_def)
  have len: "length ?vals = sl_len sl" using sl by (rule slice_values_length)
  then have ys: "length ys = k" using h(4) Suc.prems by (simp add: list_all2_lengthD [symmetric])
  have x: "items_arrays st1 ! sl_array sl ! (sl_off sl + k) = ?vals ! k"
    using sl Suc.prems by (simp add: h(3) nth_append slice_values_nth) (simp add: slice_ok_def)
  have okx: "import_ok st0 (?vals ! k)" using ok Suc.prems len by (simp add: list_all_length)
  obtain y st2 where c: "copy_import copy_meta (?vals ! k) st1 = (y, st2)" by (cases "copy_import copy_meta (?vals ! k) st1")
  from copy_import_copied [OF meta okx h(1,2) c] obtain news newcs where m: "files_arrays st2 = files_arrays st0 @ new @ news"
    "meta_cells st2 = meta_cells st0 @ newl @ newc @ newcs"
    "items_arrays st2 = items_arrays st1" "copied st0 (new @ news) (newl @ newc @ newcs) (?vals ! k) y" by auto
  let ?st' = "copy_item copy_meta sl ?b k st1"
  have "replicate (sl_len sl - k) zero = zero # replicate (sl_len sl - Suc k) zero"
    using Suc.prems by (simp add: Suc_diff_Suc [symmetric] del: Suc_diff_Suc)
  moreover have "?st' = st2\<lparr>items_arrays := (items_arrays st1)[?b := (items_arrays st1 ! ?b)[k := y]]\<rparr>"
    by (simp add: copy_item_def x c m(3))
  ultimately have "items_arrays ?st' = items_arrays st0 @ [(ys @ [y]) @ replicate (sl_len sl - Suc k) zero]"
    "files_arrays ?st' = files_arrays st0 @ (new @ news)" "meta_cells ?st' = meta_cells st0 @ newl @ (newc @ newcs)"
    using ys by (simp_all add: m h(3) list_update_append)
  moreover have "list_all2 (copied st0 (new @ news) (newl @ newc @ newcs)) (take (Suc k) ?vals) (ys @ [y])"
  proof -
    have "list_all2 (copied st0 (new @ news) ((newl @ newc) @ newcs)) (take k ?vals) ys"
      using h(4) by (rule list_all2_mono) (rule copied_mono)
    then have "list_all2 (copied st0 (new @ news) (newl @ newc @ newcs)) (take k ?vals @ [?vals ! k]) (ys @ [y])"
      by (intro list_all2_appendI) (simp_all add: m(4))
    then show ?thesis using Suc.prems len by (simp add: take_Suc_conv_app_nth)
  qed
  moreover have "fold (copy_item copy_meta sl ?b) [0 ..< Suc k] st = ?st'" by (simp add: st1_def)
  ultimately show ?case by (auto simp: Let_def)
qed

lemma copied_read:
  assumes "copied st new newc x y"
    and "\<And>m. m < length new \<Longrightarrow> files_arrays st'' ! (length (files_arrays st) + m) = new ! m"
    and "\<And>m. m < length newc \<Longrightarrow> meta_cells st'' ! (length (meta_cells st) + m) = newc ! m"
  shows "read_import st'' y = read_import st x"
proof -
  have meta: "read_meta st'' (io_meta y) = read_meta st (io_meta x)"
    using assms(1,3) by (intro copied_meta_read [of _ newc]) (auto simp: copied_def)
  show ?thesis
  proof (cases "so_files (io_spec x)")
    case None
    with assms(1) meta show ?thesis by (simp add: copied_def read_import_def read_spec_def)
  next
    case (Some sl)
    with assms(1) obtain m where m: "m < length new" "new ! m = slice_values (files_arrays st) sl"
      "so_fields (io_spec y) = so_fields (io_spec x)"
      "so_files (io_spec y) = Some \<lparr>sl_array = length (files_arrays st) + m, sl_off = 0, sl_len = length (new ! m)\<rparr>"
      by (auto simp: copied_def)
    have "slice_values (files_arrays st'') \<lparr>sl_array = length (files_arrays st) + m, sl_off = 0, sl_len = length (new ! m)\<rparr> = new ! m"
      using assms(2) [OF m(1)] by (simp add: slice_values_def)
    then show ?thesis using m Some meta by (simp add: read_import_def read_spec_def)
  qed
qed

subsection \<open>Property\<close>

text \<open>C23: the copy of a list of imports has the value of the original, leaves all memory that there was as it is,
  and shares none of it, be it an array of imports, an array of files, or a map, slice or pointer of the metadata of
  the list or of one of its imports: whatever is written into the old arrays and cells afterwards, the copy keeps
  that value. Of the library, the theorem uses that the two copies of the metadata do this for the metadata (\<open>copies_meta\<close>).\<close>

theorem deep_copy_shares_nothing:
  assumes meta: "copies_meta copy_list_meta" "copies_meta copy_meta" and ok: "list_ok st l"
    and copy: "deep_copy (copy_list copy_list_meta copy_meta zero) (Some l) st = (c, st')"
    and later: "\<And>a. length (files_arrays st) \<le> a \<Longrightarrow> a < length (files_arrays st') \<Longrightarrow> files_arrays st'' ! a = files_arrays st' ! a"
      "\<And>a. length (items_arrays st) \<le> a \<Longrightarrow> a < length (items_arrays st') \<Longrightarrow> items_arrays st'' ! a = items_arrays st' ! a"
      "\<And>a. length (meta_cells st) \<le> a \<Longrightarrow> a < length (meta_cells st') \<Longrightarrow> meta_cells st'' ! a = meta_cells st' ! a"
  shows "map_option (read_list st'') c = Some (read_list st l) \<and>
    prefix (files_arrays st) (files_arrays st') \<and> prefix (items_arrays st) (items_arrays st') \<and>
    prefix (meta_cells st) (meta_cells st')"
proof -
  obtain m cells where m: "copy_list_meta (il_meta l) (meta_cells st) = (m, cells)"
    by (cases "copy_list_meta (il_meta l) (meta_cells st)")
  from ok copies_metaE [OF meta(1) _ m] obtain newl where
    cells: "cells = meta_cells st @ newl" "copied_meta (meta_cells st) newl (il_meta l) m" by (auto simp: list_ok_def)
  have read_m: "read_meta st'' m = read_meta st (il_meta l)" if "\<exists>news. meta_cells st' = meta_cells st @ newl @ news"
    using cells(2) that later(3) by (intro copied_meta_read [of _ newl]) (auto simp: nth_append)
  show ?thesis
  proof (cases "il_items l")
    case None
    with copy m cells read_m show ?thesis by (auto simp: deep_copy_def copy_list_def Let_def read_list_def)
  next
    case (Some sl)
    let ?b = "length (items_arrays st)" and ?vals = "slice_values (items_arrays st) sl"
    let ?st2 = "st\<lparr>meta_cells := cells, items_arrays := items_arrays st @ [replicate (sl_len sl) zero]\<rparr>"
    have sl: "slice_ok (items_arrays st) sl" "list_all (import_ok st) ?vals" using ok Some by (simp_all add: list_ok_def)
    have st': "st' = fold (copy_item copy_meta sl ?b) [0 ..< sl_len sl] ?st2"
      and c: "c = Some (l\<lparr>il_meta := m, il_items := Some \<lparr>sl_array = ?b, sl_off = 0, sl_len = sl_len sl\<rparr>\<rparr>)"
      using copy Some m by (auto simp: deep_copy_def copy_list_def Let_def)
    obtain new newc ys where h: "files_arrays st' = files_arrays st @ new" "meta_cells st' = meta_cells st @ newl @ newc"
        "items_arrays st' = items_arrays st @ [ys]" "list_all2 (copied st new (newl @ newc)) ?vals ys"
      using copy_items_copied [OF meta(2) sl, of ?st2 zero newl "sl_len sl"] slice_values_length [OF sl(1)] cells(1)
      by (auto simp: st' Let_def)
    have len: "length ys = sl_len sl" using list_all2_lengthD [OF h(4)] slice_values_length [OF sl(1)] by simp
    have items: "items_arrays st'' ! ?b = ys" using later(2) [of ?b] by (simp add: h(3))
    have files: "files_arrays st'' ! (length (files_arrays st) + i) = new ! i" if "i < length new" for i
      using later(1) [of "length (files_arrays st) + i"] that by (simp add: h(1))
    have metas: "meta_cells st'' ! (length (meta_cells st) + i) = (newl @ newc) ! i" if "i < length (newl @ newc)" for i
      using later(3) [of "length (meta_cells st) + i"] that by (simp add: h(2))
    have "map (read_import st'') ys = map (read_import st) ?vals"
      using h(4) copied_read [OF _ files metas] by (auto simp: list_all2_conv_all_nth intro!: nth_equalityI)
    then show ?thesis
      using read_m by (simp add: h c read_list_def Some slice_values_def items len)
  qed
qed

text \<open>A copy of metadata: every cell it refers to once more behind the others.\<close>

definition append_cells :: "('m, 'c) meta_copier" where
  "append_cells x cells =
     (x\<lparr>meta_refs := [length cells ..< length cells + length (meta_refs x)]\<rparr>, cells @ map (\<lambda>a. cells ! a) (meta_refs x))"

lemma append_cells_copies: "copies_meta append_cells"
  by (auto simp: copies_meta_def append_cells_def copied_meta_def list_all2_conv_all_nth nth_append)

definition one_file :: import_file where
  "one_file = \<lparr>file_name = ''f'', file_decode_base64 = False, file_source = \<lparr>src_key = ''k'', src_path = ''p''\<rparr>\<rparr>"

definition one_import :: "string import_obj" where
  "one_import =
     \<lparr>io_meta = \<lparr>meta_fields = ''web'', meta_refs = [1]\<rparr>, io_spec =
        \<lparr>so_fields = \<lparr>is_type = ''CSI'', is_role = ''r'', is_auth_path = '''', is_namespace = '''', is_address = '''',
           is_ca_cert = '''', is_audience = '''', is_skip_tls_verify = False, is_files = []\<rparr>,
         so_files = Some \<lparr>sl_array = 0, sl_off = 0, sl_len = 1\<rparr>\<rparr>\<rparr>"

text \<open>Cell 0 is the list's count of remaining items, cell 1 the labels of the import.\<close>

definition one_store :: "(string, str_map) store" where
  "one_store = \<lparr>files_arrays = [[one_file]], items_arrays = [[one_import]],
     meta_cells = [[(''remaining'', ''0'')], [(''app'', ''web'')]]\<rparr>"

definition one_list :: "string import_list_obj" where
  "one_list = \<lparr>il_meta = \<lparr>meta_fields = '''', meta_refs = [0]\<rparr>, il_items = Some \<lparr>sl_array = 0, sl_off = 0, sl_len = 1\<rparr>\<rparr>"

theorem deep_copy_shares_nothing_witness:
  "case deep_copy (copy_list append_cells append_cells one_import) (Some one_list) one_store of
     (c, st') \<Rightarrow> map_option (read_list \<lparr>files_arrays = (files_arrays st')[0 := []], items_arrays = (items_arrays st')[0 := []],
         meta_cells = (meta_cells st')[0 := [], 1 := []]\<rparr>) c =
       Some (('''', [[(''remaining'', ''0'')]]),
         Some [((''web'', [[(''app'', ''web'')]]), (so_fields (io_spec one_import))\<lparr>is_files := [one_file]\<rparr>)])"
proof -
  obtain c st' where copy: "deep_copy (copy_list append_cells append_cells one_import) (Some one_list) one_store = (c, st')"
    by (cases "deep_copy (copy_list append_cells append_cells one_import) (Some one_list) one_store")
  have ok: "list_ok one_store one_list" by code_simp
  have one: "length (files_arrays one_store) = 1" "length (items_arrays one_store) = 1" "length (meta_cells one_store) = 2"
    by (simp_all add: one_store_def)
  have "read_list one_store one_list = (('''', [[(''remaining'', ''0'')]]),
      Some [((''web'', [[(''app'', ''web'')]]), (so_fields (io_spec one_import))\<lparr>is_files := [one_file]\<rparr>)])"
    by (simp add: read_list_def read_import_def read_meta_def read_spec_def slice_values_def one_store_def one_list_def one_import_def)
  with deep_copy_shares_nothing [OF append_cells_copies append_cells_copies ok copy,
      of "\<lparr>files_arrays = (files_arrays st')[0 := []], items_arrays = (items_arrays st')[0 := []],
         meta_cells = (meta_cells st')[0 := [], 1 := []]\<rparr>"]
  show ?thesis by (simp add: copy one)
qed

end
