(* ===== verification/Hooks.thy ===== *)
theory Hooks
  imports Prelude
begin

text \<open>
  The hooks of the module (\<^verbatim>\<open>hooks/batch\<close>): copying the CA certificate of the local Stronghold into the
  values, and removing the label \<open>heritage\<close> from SecretProviderClass objects.

  The unmarshalled snapshots of a hook are an argument: the error of \<open>UnmarshalToStruct\<close> or the list.
\<close>

subsection \<open>base64.StdEncoding\<close>

definition base64_alphabet :: string where
  "base64_alphabet = ''ABCDEFGHIJKLMNOPQRSTUVWXYZabcdefghijklmnopqrstuvwxyz0123456789+/''"

definition base64_char :: "nat \<Rightarrow> char" where
  "base64_char v = base64_alphabet ! v"

fun index_from :: "nat \<Rightarrow> char \<Rightarrow> string \<Rightarrow> nat option" where
  "index_from n c [] = None"
| "index_from n c (x # xs) = (if x = c then Some n else index_from (Suc n) c xs)"

definition base64_value :: "char \<Rightarrow> nat option" where
  "base64_value c = index_from 0 c base64_alphabet"

definition is_newline :: "char \<Rightarrow> bool" where
  "is_newline c \<longleftrightarrow> c = CHR 0x0A \<or> c = CHR 0x0D"

text \<open>The bytes of two, three or four 6-bit values.\<close>

fun quantum_bytes :: "nat list \<Rightarrow> string" where
  "quantum_bytes [a, b] = [char_of (a * 4 + b div 16)]"
| "quantum_bytes [a, b, c] = [char_of (a * 4 + b div 16), char_of (b mod 16 * 16 + c div 4)]"
| "quantum_bytes [a, b, c, d] =
     [char_of (a * 4 + b div 16), char_of (b mod 16 * 16 + c div 4), char_of (c mod 4 * 64 + d)]"
| "quantum_bytes _ = []"

text \<open>
  Decoding with the values of the current quantum: line breaks are skipped, padding must be complete
  and at the end.
\<close>

fun decode_quanta :: "nat list \<Rightarrow> string \<Rightarrow> string option" where
  "decode_quanta q [] = (if q = [] then Some [] else None)"
| "decode_quanta q (c # cs) =
     (if is_newline c then decode_quanta q cs
      else if c = CHR ''='' then
        (if length q = 2 then
           (case dropWhile is_newline cs of
              [] \<Rightarrow> None
            | d # ds \<Rightarrow> if d = CHR ''='' \<and> dropWhile is_newline ds = [] then Some (quantum_bytes q) else None)
         else if length q = 3 \<and> dropWhile is_newline cs = [] then Some (quantum_bytes q)
         else None)
      else (case base64_value c of
              None \<Rightarrow> None
            | Some v \<Rightarrow>
                if length q = 3 then map_option ((@) (quantum_bytes (q @ [v]))) (decode_quanta [] cs)
                else decode_quanta (q @ [v]) cs))"

definition base64_decode :: "string \<Rightarrow> string option" where
  "base64_decode s = decode_quanta [] s"

text \<open>The encoding, as the API server writes the data of a secret.\<close>

definition byte :: "char \<Rightarrow> nat" where
  "byte c = of_char c"

fun base64_encode :: "string \<Rightarrow> string" where
  "base64_encode [] = []"
| "base64_encode [a] = [base64_char (byte a div 4), base64_char (byte a mod 4 * 16), CHR ''='', CHR ''='']"
| "base64_encode [a, b] =
     [base64_char (byte a div 4), base64_char (byte a mod 4 * 16 + byte b div 16),
      base64_char (byte b mod 16 * 4), CHR ''='']"
| "base64_encode (a # b # c # r) =
     [base64_char (byte a div 4), base64_char (byte a mod 4 * 16 + byte b div 16),
      base64_char (byte b mod 16 * 4 + byte c div 64), base64_char (byte c mod 64)] @ base64_encode r"

subsection \<open>saveLocalStrongholdCACertHandler\<close>

datatype hook_error = UnmarshalFailed string | DecodeFailed

definition local_ca_path :: string where
  "local_ca_path = ''secretsStoreIntegration.internal.localStrongholdCaCert''"

definition save_local_ca_cert :: "string + string list \<Rightarrow> str_map \<Rightarrow> hook_error option \<times> str_map" where
  "save_local_ca_cert snapshots values =
     (case snapshots of
        Inl e \<Rightarrow> (Some (UnmarshalFailed e), values)
      | Inr [] \<Rightarrow> (None, values)
      | Inr (ca # _) \<Rightarrow>
          (case base64_decode ca of
             None \<Rightarrow> (Some DecodeFailed, values)
           | Some pem \<Rightarrow> (None, AList.update local_ca_path pem values)))"

subsection \<open>HookHandler\<close>

record hook_class =
  hc_namespace :: string
  hc_name :: string
  hc_labels :: "str_map option"

text \<open>A merge patch of labels; \<open>None\<close> is \<open>null\<close>.\<close>

record label_patch =
  lp_labels :: "(string \<times> string option) list"
  lp_api_version :: string
  lp_kind :: string
  lp_target_namespace :: string
  lp_target_name :: string

definition heritage_patch :: "hook_class \<Rightarrow> label_patch" where
  "heritage_patch c =
     \<lparr>lp_labels = [(''heritage'', None)], lp_api_version = ''secrets-store.csi.x-k8s.io/v1'',
      lp_kind = ''SecretProviderClass'', lp_target_namespace = hc_namespace c, lp_target_name = hc_name c\<rparr>"

definition has_heritage :: "hook_class \<Rightarrow> bool" where
  "has_heritage c = (case hc_labels c of None \<Rightarrow> False | Some ls \<Rightarrow> map_of ls ''heritage'' \<noteq> None)"

definition hook_handler :: "string + hook_class list \<Rightarrow> hook_error option \<times> label_patch list" where
  "hook_handler snapshots =
     (case snapshots of
        Inl e \<Rightarrow> (Some (UnmarshalFailed e), [])
      | Inr cs \<Rightarrow> (None, map heritage_patch (filter has_heritage cs)))"

text \<open>A merge patch on an object, as the API server applies it.\<close>

fun merge_labels :: "(string \<times> string option) list \<Rightarrow> str_map \<Rightarrow> str_map" where
  "merge_labels [] ls = ls"
| "merge_labels ((k, v) # ps) ls =
     merge_labels ps (case v of None \<Rightarrow> AList.delete k ls | Some x \<Rightarrow> AList.update k x ls)"

definition apply_patch :: "label_patch \<Rightarrow> hook_class \<Rightarrow> hook_class" where
  "apply_patch p c =
     (if lp_target_namespace p = hc_namespace c \<and> lp_target_name p = hc_name c
      then c\<lparr>hc_labels := Some (merge_labels (lp_labels p) (case hc_labels c of None \<Rightarrow> [] | Some ls \<Rightarrow> ls))\<rparr>
      else c)"

definition apply_patches :: "label_patch list \<Rightarrow> hook_class \<Rightarrow> hook_class" where
  "apply_patches ps c = fold apply_patch ps c"

definition label_of :: "hook_class \<Rightarrow> string \<Rightarrow> string option" where
  "label_of c k = (case hc_labels c of None \<Rightarrow> None | Some ls \<Rightarrow> map_of ls k)"

subsection \<open>Lemmas\<close>

lemma base64_char_props:
  assumes "v < 64"
  shows "base64_value (base64_char v) = Some v" "\<not> is_newline (base64_char v)" "base64_char v \<noteq> CHR ''=''"
proof -
  have "list_all (\<lambda>v. base64_value (base64_char v) = Some v \<and> \<not> is_newline (base64_char v) \<and> base64_char v \<noteq> CHR ''='') [0 ..< 64]"
    by code_simp
  then show "base64_value (base64_char v) = Some v" "\<not> is_newline (base64_char v)" "base64_char v \<noteq> CHR ''=''"
    using assms by (auto simp: list_all_iff)
qed

lemma decode_char:
  "v < 64 \<Longrightarrow> decode_quanta q (base64_char v # cs) =
     (if length q = 3 then map_option ((@) (quantum_bytes (q @ [v]))) (decode_quanta [] cs)
      else decode_quanta (q @ [v]) cs)"
  by (simp add: base64_char_props)

lemma byte_less: "byte c < 256"
  by (simp add: byte_def)

lemma char_of_byte: "char_of (byte c) = c"
  by (simp add: byte_def)

text \<open>The bit fields of three bytes, put together again.\<close>

lemma join_bytes:
  fixes a b c :: nat
  assumes "a < 256" "b < 256" "c < 256"
  shows "a div 4 * 4 + (a mod 4 * 16 + b div 16) div 16 = a"
    "(a mod 4 * 16 + b div 16) mod 16 * 16 + (b mod 16 * 4 + c div 64) div 4 = b"
    "(b mod 16 * 4 + c div 64) mod 4 * 64 + c mod 64 = c"
    "a div 4 < 64" "a mod 4 * 16 + b div 16 < 64" "b mod 16 * 4 + c div 64 < 64" "c mod 64 < 64"
proof -
  have d: "a div 4 < 64" "b div 16 < 16" "c div 64 < 4" using assms by (simp_all add: less_mult_imp_div_less)
  have m: "a mod 4 < 4" "b mod 16 < 16" "c mod 64 < 64" by simp_all
  show "a div 4 * 4 + (a mod 4 * 16 + b div 16) div 16 = a" using d by simp
  show "(a mod 4 * 16 + b div 16) mod 16 * 16 + (b mod 16 * 4 + c div 64) div 4 = b" using d by simp
  show "(b mod 16 * 4 + c div 64) mod 4 * 64 + c mod 64 = c" using d by simp
  show "a div 4 < 64" "a mod 4 * 16 + b div 16 < 64" "b mod 16 * 4 + c div 64 < 64" "c mod 64 < 64"
    using d m by linarith+
qed

lemma decode_pad:
  "decode_quanta [a, b] ''=='' = Some (quantum_bytes [a, b])"
  "decode_quanta [a, b, c] ''='' = Some (quantum_bytes [a, b, c])"
  by (simp_all add: is_newline_def)

declare decode_quanta.simps(2) [simp del]

lemma byte_zero [simp]: "byte (CHR 0x00) = 0"
  by (simp add: byte_def)

lemma base64_decode_encode: "decode_quanta [] (base64_encode s) = Some s"
proof (induction s rule: base64_encode.induct)
  case (2 a)
  then show ?case
    using join_bytes [of "byte a" 0 0] byte_less [of a]
    by (simp add: decode_char decode_pad char_of_byte)
next
  case (3 a b)
  then show ?case
    using join_bytes [of "byte a" "byte b" 0] byte_less [of a] byte_less [of b]
    by (simp add: decode_char decode_pad char_of_byte)
next
  case (4 a b c r)
  then show ?case
    using join_bytes [OF byte_less [of a] byte_less [of b] byte_less [of c]]
    by (simp add: decode_char char_of_byte)
qed simp

lemma apply_patch_labels:
  "label_of (apply_patch (heritage_patch d) c) k =
     (if hc_namespace d = hc_namespace c \<and> hc_name d = hc_name c \<and> k = ''heritage'' then None else label_of c k)"
  by (auto simp: apply_patch_def heritage_patch_def label_of_def delete_conv' split: option.splits)

lemma apply_patch_key [simp]:
  "hc_namespace (apply_patch p c) = hc_namespace c" "hc_name (apply_patch p c) = hc_name c"
  by (simp_all add: apply_patch_def)

lemma apply_patches_labels:
  "label_of (fold apply_patch (map heritage_patch ds) c) k =
     (if k = ''heritage'' \<and> (\<exists>d\<in>set ds. hc_namespace d = hc_namespace c \<and> hc_name d = hc_name c)
      then None else label_of c k)"
proof (induction ds arbitrary: c)
  case (Cons d ds)
  have "label_of (fold apply_patch (map heritage_patch (d # ds)) c) k =
      label_of (fold apply_patch (map heritage_patch ds) (apply_patch (heritage_patch d) c)) k"
    by simp
  also have "\<dots> = (if k = ''heritage'' \<and> (\<exists>x\<in>set (d # ds). hc_namespace x = hc_namespace c \<and> hc_name x = hc_name c)
      then None else label_of c k)"
    unfolding Cons.IH apply_patch_key apply_patch_labels by auto
  finally show ?case .
qed simp

lemma has_heritage_label: "has_heritage c \<longleftrightarrow> label_of c ''heritage'' \<noteq> None"
  by (simp add: has_heritage_def label_of_def split: option.splits)

lemma patched_labels:
  assumes "c \<in> set cs"
  shows "label_of (apply_patches (snd (hook_handler (Inr cs))) c) k = (if k = ''heritage'' then None else label_of c k)"
proof -
  have "label_of c ''heritage'' = None"
    if "\<not> (\<exists>d\<in>set (filter has_heritage cs). hc_namespace d = hc_namespace c \<and> hc_name d = hc_name c)"
    using that assms by (auto simp: has_heritage_label)
  then show ?thesis
    unfolding apply_patches_def hook_handler_def sum.case snd_conv apply_patches_labels by auto
qed

subsection \<open>Properties\<close>

text \<open>Whatever the bytes of the CA certificate are, the value of the module is exactly these bytes: the
  secret's base64 text is decoded back to them. Without the secret the values stay as they are, and an
  error never changes them.\<close>

theorem local_ca_cert_roundtrip:
  "save_local_ca_cert (Inr (base64_encode pem # rest)) values = (None, AList.update local_ca_path pem values) \<and>
   save_local_ca_cert (Inr []) values = (None, values) \<and>
   (fst (save_local_ca_cert s values) = None \<or> snd (save_local_ca_cert s values) = values)"
  by (auto simp: save_local_ca_cert_def base64_decode_def base64_decode_encode split: sum.splits list.splits option.splits)

text \<open>Once the patches of the label hook are applied no object has the label \<open>heritage\<close>, every other
  label is as before, and running the hook again has nothing to patch.\<close>

theorem heritage_label_is_removed:
  "map (\<lambda>c. label_of (apply_patches (snd (hook_handler (Inr cs))) c)) cs =
     map (\<lambda>c. (label_of c)(''heritage'' := None)) cs \<and>
   hook_handler (Inr (map (apply_patches (snd (hook_handler (Inr cs)))) cs)) = (None, [])"
proof -
  have "\<not> has_heritage (apply_patches (snd (hook_handler (Inr cs))) c)" if "c \<in> set cs" for c
    using patched_labels [OF that] by (simp add: has_heritage_label)
  then have "filter has_heritage (map (apply_patches (snd (hook_handler (Inr cs)))) cs) = []"
    by (auto simp: filter_empty_conv)
  then have "hook_handler (Inr (map (apply_patches (snd (hook_handler (Inr cs)))) cs)) = (None, [])"
    unfolding hook_handler_def [of "Inr (map _ _)"] by simp
  then show ?thesis using patched_labels by (auto simp: fun_eq_iff)
qed

end
