(* ===== verification/Hooks_Config.thy ===== *)
theory Hooks_Config
  imports Hooks
begin

text \<open>
  The registrations of the hooks (\<^verbatim>\<open>hooks/batch\<close>): the names of the module, the objects each hook asks for,
  and the runs of the two handlers on the objects of a cluster. Which objects a selector selects is the
  decision of the SDK, a parameter; \<open>selection_lawful\<close> is what its documentation says.
\<close>

subsection \<open>Constants\<close>

definition module_namespace :: string where "module_namespace = ''d8-secrets-store-integration''"

definition dot_values_module_name :: string where "dot_values_module_name = ''secretsStoreIntegration''"

definition webhook_name :: string where "webhook_name = ''vault-secrets-webhook''"

record tls_hook_conf =
  th_cn :: string
  th_secret :: string
  th_namespace :: string
  th_ca_name :: string
  th_sans :: "string list"
  th_values_prefix :: string

definition webhook_certificate_conf :: tls_hook_conf where
  "webhook_certificate_conf =
     \<lparr>th_cn = webhook_name, th_secret = webhook_name @ ''-tls'', th_namespace = module_namespace,
      th_ca_name = ''Deckhouse'', th_sans = [webhook_name @ ''.'' @ module_namespace @ ''.svc''],
      th_values_prefix = dot_values_module_name @ ''.internal.webhookCert''\<rparr>"

subsection \<open>Objects and selectors\<close>

record kube_obj =
  ko_api_version :: string
  ko_kind :: string
  ko_namespace :: string
  ko_name :: string
  ko_labels :: "str_map option"
  ko_data :: str_map

record hook_selector =
  hs_api_version :: string
  hs_kind :: string
  hs_names :: "string list"
  hs_namespaces :: "string list"
  hs_labels :: str_map

definition spc_kind :: string where "spc_kind = ''SecretProviderClass''"

definition spc_api_version :: string where "spc_api_version = ''secrets-store.csi.x-k8s.io/v1''"

definition label_hook :: hook_selector where
  "label_hook =
     \<lparr>hs_api_version = spc_api_version, hs_kind = spc_kind, hs_names = [], hs_namespaces = [],
      hs_labels = [(''heritage'', ''deckhouse''), (''module'', ''secrets-store-integration'')]\<rparr>"

definition ca_hook :: hook_selector where
  "ca_hook =
     \<lparr>hs_api_version = ''v1'', hs_kind = ''Secret'', hs_names = [''stronghold-tls''], hs_namespaces = [''d8-stronghold''],
      hs_labels = []\<rparr>"

definition selection_lawful :: "(hook_selector \<Rightarrow> kube_obj \<Rightarrow> bool) \<Rightarrow> bool" where
  "selection_lawful sel \<longleftrightarrow> (\<forall>h b. sel h b \<longleftrightarrow>
     ko_api_version b = hs_api_version h \<and> ko_kind b = hs_kind h \<and>
     (hs_names h = [] \<or> ko_name b \<in> set (hs_names h)) \<and> (hs_namespaces h = [] \<or> ko_namespace b \<in> set (hs_namespaces h)) \<and>
     (\<forall>(k, v) \<in> set (hs_labels h). (case ko_labels b of None \<Rightarrow> None | Some ls \<Rightarrow> map_of ls k) = Some v))"

subsection \<open>Runs of the hooks\<close>

text \<open>The filter \<open>{metadata: .metadata}\<close>, and \<open>{ca: .data."ca.crt"}\<close>, where a missing field becomes the empty text.\<close>

definition class_snapshot :: "kube_obj \<Rightarrow> hook_class" where
  "class_snapshot b = \<lparr>hc_namespace = ko_namespace b, hc_name = ko_name b, hc_labels = ko_labels b\<rparr>"

definition ca_snapshot :: "kube_obj \<Rightarrow> string" where
  "ca_snapshot b = str_get (ko_data b) ''ca.crt''"

definition patch_object :: "label_patch \<Rightarrow> kube_obj \<Rightarrow> kube_obj" where
  "patch_object p b =
     (if lp_api_version p = ko_api_version b \<and> lp_kind p = ko_kind b \<and>
         lp_target_namespace p = ko_namespace b \<and> lp_target_name p = ko_name b
      then b\<lparr>ko_labels := Some (merge_labels (lp_labels p) (case ko_labels b of None \<Rightarrow> [] | Some ls \<Rightarrow> ls))\<rparr>
      else b)"

text \<open>One run of the label hook: the snapshots it gets, and its patches applied to the cluster.\<close>

definition run_label_hook :: "(hook_selector \<Rightarrow> kube_obj \<Rightarrow> bool) \<Rightarrow> kube_obj list \<Rightarrow> kube_obj list" where
  "run_label_hook sel objs =
     map (fold patch_object (snd (hook_handler (Inr (map class_snapshot (filter (sel label_hook) objs)))))) objs"

definition run_ca_hook ::
  "(hook_selector \<Rightarrow> kube_obj \<Rightarrow> bool) \<Rightarrow> kube_obj list \<Rightarrow> str_map \<Rightarrow> hook_error option \<times> str_map" where
  "run_ca_hook sel objs values = save_local_ca_cert (Inr (map ca_snapshot (filter (sel ca_hook) objs))) values"

definition obj_key :: "kube_obj \<Rightarrow> string \<times> string \<times> string \<times> string" where
  "obj_key b = (ko_api_version b, ko_kind b, ko_namespace b, ko_name b)"

subsection \<open>Properties\<close>

text \<open>The names of the certificate, written out.\<close>

lemma webhook_certificate_names:
  "th_sans webhook_certificate_conf = [''vault-secrets-webhook.d8-secrets-store-integration.svc'']"
  "th_secret webhook_certificate_conf = ''vault-secrets-webhook-tls''"
  by (simp_all add: webhook_certificate_conf_def webhook_name_def module_namespace_def)

definition without_heritage :: "kube_obj \<Rightarrow> kube_obj" where
  "without_heritage b = b\<lparr>ko_labels := map_option (AList.delete ''heritage'') (ko_labels b)\<rparr>"

definition drop_heritage :: "kube_obj \<Rightarrow> kube_obj" where
  "drop_heritage b = b\<lparr>ko_labels := Some (AList.delete ''heritage'' (case ko_labels b of None \<Rightarrow> [] | Some ls \<Rightarrow> ls))\<rparr>"

lemma drop_heritage_simps [simp]:
  "obj_key (drop_heritage b) = obj_key b" "drop_heritage (drop_heritage b) = drop_heritage b"
  by (simp_all add: drop_heritage_def obj_key_def delete_idem)

lemma drop_heritage_labelled: "ko_labels b \<noteq> None \<Longrightarrow> drop_heritage b = without_heritage b"
  by (auto simp: drop_heritage_def without_heritage_def)

lemma selected_label_hook:
  assumes "selection_lawful sel" "sel label_hook b"
  shows "has_heritage (class_snapshot b)" "ko_labels b \<noteq> None" "ko_api_version b = spc_api_version" "ko_kind b = spc_kind"
  using assms
  by (auto simp: selection_lawful_def label_hook_def has_heritage_def class_snapshot_def split: option.splits)

lemma without_heritage_not_selected: "selection_lawful sel \<Longrightarrow> \<not> sel label_hook (without_heritage b)"
  by (auto simp: selection_lawful_def label_hook_def without_heritage_def delete_conv' split: option.splits)

lemma patch_object_heritage:
  assumes "ko_api_version a = spc_api_version" "ko_kind a = spc_kind"
  shows "patch_object (heritage_patch (class_snapshot a)) b = (if obj_key b = obj_key a then drop_heritage b else b)"
  using assms
  by (auto simp: patch_object_def heritage_patch_def class_snapshot_def obj_key_def drop_heritage_def
      spc_api_version_def spc_kind_def)

lemma fold_heritage_patches:
  assumes "\<forall>a \<in> set as. ko_api_version a = spc_api_version \<and> ko_kind a = spc_kind"
  shows "fold patch_object (map (\<lambda>a. heritage_patch (class_snapshot a)) as) b =
    (if obj_key b \<in> obj_key ` set as then drop_heritage b else b)"
  using assms
proof (induction as arbitrary: b)
  case (Cons a as)
  let ?c = "patch_object (heritage_patch (class_snapshot a)) b"
  have c: "?c = (if obj_key b = obj_key a then drop_heritage b else b)"
    using Cons.prems by (intro patch_object_heritage) simp_all
  have "fold patch_object (map (\<lambda>a. heritage_patch (class_snapshot a)) (a # as)) b =
      fold patch_object (map (\<lambda>a. heritage_patch (class_snapshot a)) as) ?c"
    by (simp only: list.map fold_simps)
  also have "\<dots> = (if obj_key ?c \<in> obj_key ` set as then drop_heritage ?c else ?c)"
    using Cons.prems by (intro Cons.IH) simp
  also have "\<dots> = (if obj_key b \<in> obj_key ` set (a # as) then drop_heritage b else b)"
    unfolding c by simp
  finally show ?case .
qed simp

lemma run_label_hook_map:
  assumes sel: "selection_lawful sel" and keys: "distinct (map obj_key objs)"
  shows "run_label_hook sel objs = map (\<lambda>b. if sel label_hook b then without_heritage b else b) objs"
proof -
  let ?as = "filter (sel label_hook) objs"
  have "filter has_heritage (map class_snapshot ?as) = map class_snapshot ?as"
    using selected_label_hook(1) [OF sel] by (auto intro!: filter_True)
  then have "snd (hook_handler (Inr (map class_snapshot ?as))) = map (\<lambda>a. heritage_patch (class_snapshot a)) ?as"
    by (simp add: hook_handler_def)
  then have "run_label_hook sel objs = map (\<lambda>b. if obj_key b \<in> obj_key ` set ?as then drop_heritage b else b) objs"
    using selected_label_hook(3,4) [OF sel] by (simp add: run_label_hook_def fold_heritage_patches)
  also have "\<dots> = map (\<lambda>b. if sel label_hook b then without_heritage b else b) objs"
  proof (rule map_cong [OF refl])
    fix b
    assume b: "b \<in> set objs"
    have "a = b" if "a \<in> set objs" "obj_key a = obj_key b" for a
      using keys b that by (auto simp: distinct_map dest: inj_onD)
    then have "obj_key b \<in> obj_key ` set ?as \<longleftrightarrow> sel label_hook b" using b by force
    then show "(if obj_key b \<in> obj_key ` set ?as then drop_heritage b else b) =
        (if sel label_hook b then without_heritage b else b)"
      using selected_label_hook(2) [OF sel] drop_heritage_labelled by simp
  qed
  finally show ?thesis .
qed

text \<open>C28: one run of the label hook takes the label \<open>heritage\<close> from exactly the SecretProviderClass objects
  that have both labels of the module; every other object, and every other label, is as before. Nothing is
  selected afterwards, so a second run changes nothing.\<close>

theorem label_migration_converges:
  assumes sel: "selection_lawful sel" and keys: "distinct (map obj_key objs)"
  shows "run_label_hook sel objs = map (\<lambda>b. if sel label_hook b then without_heritage b else b) objs \<and>
    filter (sel label_hook) (run_label_hook sel objs) = [] \<and>
    run_label_hook sel (run_label_hook sel objs) = run_label_hook sel objs"
proof -
  note run = run_label_hook_map [OF sel keys]
  have none: "filter (sel label_hook) (run_label_hook sel objs) = []"
    using without_heritage_not_selected [OF sel] by (auto simp: run filter_empty_conv)
  moreover have "run_label_hook sel os = os" if "filter (sel label_hook) os = []" for os
    using that by (simp add: run_label_hook_def hook_handler_def)
  ultimately show ?thesis using run by simp
qed

definition plain_selection :: "hook_selector \<Rightarrow> kube_obj \<Rightarrow> bool" where
  "plain_selection h b \<longleftrightarrow>
     ko_api_version b = hs_api_version h \<and> ko_kind b = hs_kind h \<and>
     (hs_names h = [] \<or> ko_name b \<in> set (hs_names h)) \<and> (hs_namespaces h = [] \<or> ko_namespace b \<in> set (hs_namespaces h)) \<and>
     list_all (\<lambda>(k, v). (case ko_labels b of None \<Rightarrow> None | Some ls \<Rightarrow> map_of ls k) = Some v) (hs_labels h)"

lemma plain_selection_lawful: "selection_lawful plain_selection"
  by (simp add: selection_lawful_def plain_selection_def list_all_iff)

definition spc_object :: "string \<Rightarrow> str_map \<Rightarrow> kube_obj" where
  "spc_object n ls =
     \<lparr>ko_api_version = spc_api_version, ko_kind = spc_kind, ko_namespace = ''web'', ko_name = n, ko_labels = Some ls, ko_data = []\<rparr>"

definition two_classes :: "kube_obj list" where
  "two_classes =
     [spc_object ''a'' [(''heritage'', ''deckhouse''), (''module'', ''secrets-store-integration''), (''x'', ''y'')],
      spc_object ''b'' [(''heritage'', ''helm'')]]"

theorem label_migration_converges_witness:
  "run_label_hook plain_selection two_classes =
     [spc_object ''a'' [(''module'', ''secrets-store-integration''), (''x'', ''y'')], spc_object ''b'' [(''heritage'', ''helm'')]]"
proof -
  have "distinct (map obj_key two_classes)" by code_simp
  from label_migration_converges [OF plain_selection_lawful this] show ?thesis
    by (simp add: two_classes_def plain_selection_def label_hook_def spc_object_def without_heritage_def)
qed

text \<open>C31: the hook of the CA certificate puts exactly the bytes of the local Stronghold's certificate into the
  values of the module, whatever else the cluster holds and whatever bytes these are; without the secret it
  changes nothing.\<close>

theorem local_ca_is_copied:
  assumes sel: "selection_lawful sel" and keys: "distinct (map obj_key objs)"
    and b: "b \<in> set objs" "obj_key b = (''v1'', ''Secret'', ''d8-stronghold'', ''stronghold-tls'')"
    and ca: "map_of (ko_data b) ''ca.crt'' = Some (base64_encode pem)"
  shows "run_ca_hook sel objs values = (None, AList.update local_ca_path pem values)"
proof -
  have "sel ca_hook a \<longleftrightarrow> obj_key a = obj_key b" for a
    using sel b(2) by (auto simp: selection_lawful_def ca_hook_def obj_key_def)
  then have "sel ca_hook = (\<lambda>a. obj_key a = obj_key b)" by blast
  moreover have "filter (\<lambda>a. obj_key a = obj_key b) objs = [b]"
    using keys b(1) by (induction objs) (auto simp: filter_empty_conv image_iff)
  ultimately have "filter (sel ca_hook) objs = [b]" by simp
  then show ?thesis
    using ca local_ca_cert_roundtrip [of pem "[]" "values"] by (simp add: run_ca_hook_def ca_snapshot_def str_get_def)
qed

theorem local_ca_is_copied_witness:
  "run_ca_hook plain_selection
     (\<lparr>ko_api_version = ''v1'', ko_kind = ''Secret'', ko_namespace = ''d8-stronghold'', ko_name = ''stronghold-tls'',
       ko_labels = None, ko_data = [(''ca.crt'', ''UEVN'')]\<rparr> # two_classes) [] = (None, [(local_ca_path, ''PEM'')])"
proof -
  let ?b = "\<lparr>ko_api_version = ''v1'', ko_kind = ''Secret'', ko_namespace = ''d8-stronghold'', ko_name = ''stronghold-tls'',
       ko_labels = None, ko_data = [(''ca.crt'', ''UEVN'')]\<rparr>"
  have "base64_encode ''PEM'' = ''UEVN''" "distinct (map obj_key (?b # two_classes))" by code_simp+
  with local_ca_is_copied [OF plain_selection_lawful this(2), of ?b "''PEM''" "[]"] show ?thesis
    by (simp add: obj_key_def)
qed

end
