(* ===== verification/Spec2Isabelle.thy ===== *)
theory Spec2Isabelle
  imports Injector_Props Watcher_Term Watcher_Live End_To_End Env_Logger Registry_Concurrent
    Webhook_Injector_Props Webhook_Server Ssi_Concurrent Ssi_Scheme Ssi_Deepcopy Hooks_Config
begin

text \<open>
  A verification library for the Deckhouse module \<^emph>\<open>secrets-store-integration\<close>, the Go code under
  \<^verbatim>\<open>src/images\<close> and \<^verbatim>\<open>src/hooks/batch\<close>.

  \<^bold>\<open>The program.\<close> The module brings secrets of a Vault-compatible store into pods, in two ways.

  \<^item> The \<^emph>\<open>webhook\<close> (\<^verbatim>\<open>images/vault-secrets-webhook\<close>) mutates an admitted pod whose annotations name a role:
    every container that uses references such as \<^verbatim>\<open>secrets-store:path#key\<close> gets a volume with a copy of the
    \<^emph>\<open>env-injector\<close>, which becomes its command, and variables that configure it. In the container the
    injector (\<^verbatim>\<open>images/env-injector\<close>) logs in, resolves the references of its environment, removes its own
    variables, starts the application, forwards signals to it, and, when asked to, restarts it after a lease
    has ended or a secret has changed.
  \<^item> The \<^emph>\<open>ssi-controller\<close> (\<^verbatim>\<open>images/ssi-controller\<close>) keeps a SecretProviderClass for every SecretsStoreImport,
    which a CSI driver turns into files. The \<^emph>\<open>hooks\<close> (\<^verbatim>\<open>hooks/batch\<close>) copy the CA certificate of a local
    store into the values of the module and remove an old label.

  \<^bold>\<open>Conventions.\<close> A Go string is a list of bytes; a Go map is an association list whose order is the order of
  one \<open>range\<close> loop, so a statement about every list is a statement about every order. Errors are sums or
  options, panics are error values of their own. What lies outside of the repository (the Vault API, the
  Kubernetes API, the container registry, text/template, YAML, viper, file system and clock) is a parameter:
  a record of functions over an abstract world \<open>'w\<close>, with what is needed of it as a named predicate
  (\<open>stable_vault\<close> in \<open>Injector_Spec\<close>, \<open>stable_images\<close>, \<open>unstructured_lawful\<close>, \<open>kube_lawful\<close>, \<open>viper_lawful\<close>,
  \<open>route_lawful\<close>, \<open>grow_lawful\<close>, \<open>selection_lawful\<close>, \<open>kube_shared\<close>, \<open>kube_serves\<close>, \<open>scheme_lawful\<close>, \<open>copies_meta\<close>),
  which the witnesses instantiate with concrete functions. Package functions of Go itself (strings, regexp for
  the one pattern, strconv, flag, filepath, log/slog levels, base64, crypto/sha256, float64 rounding, os environment) are modelled, and so
  are its slices where two of them share an array.

  \<^bold>\<open>Theories.\<close>

  \<^item> \<open>Prelude\<close>: Go maps and package strings, shared lemmas. \<open>Go_Env\<close>: the process environment. \<open>Go_Conv\<close>:
    booleans and words. \<open>Go_Time\<close>: \<open>time.ParseDuration\<close> and \<open>Duration.String\<close>, with their round trip.
    \<open>Go_Flag\<close>: \<open>strconv.ParseInt\<close>, the parser of flags, \<open>filepath.Join\<close>. \<open>Go_Slice\<close>: \<open>append\<close> on a store of
    arrays. \<open>Go_Slog\<close>: log levels and routes. \<open>Fair_Runs\<close>: infinite runs of actors that are scheduled fairly,
    with the rules for what they lead to as the locale \<open>actor_system\<close>.
  \<^item> \<open>Inline_Ref\<close> (\<^verbatim>\<open>injector.go\<close> of both programs): the pattern of inline references, with a matcher of the
    leftmost-first semantics, equal to a linear scanner. \<open>Templater\<close> (\<^verbatim>\<open>templater.go\<close>): the recognition of
    templates and what the templater adds to them.
  \<^item> \<open>Vault_Iface\<close>, \<open>Injector\<close> (\<^verbatim>\<open>env-injector/injector.go\<close>): the injector, with its cache and log.
    \<open>Injector_Spec\<close> gives the pure meaning of a reference and the contract of an injector as the locale
    \<open>env_injector\<close>, which the code's injector interprets; \<open>Injector_Props\<close> has the properties.
  \<^item> \<open>Client\<close> (\<^verbatim>\<open>client.go\<close>): login, re-login, token renewal and closing, over all sequences of operations.
  \<^item> \<open>Sha256\<close>, \<open>Secrets_Hash\<close> (\<^verbatim>\<open>hash.go\<close>): the digest of the secrets; the locale \<open>map_digest\<close> is what the
    watcher needs of it. \<open>Jitter\<close>: the randomised poll interval, with the roundings of float64.
  \<^item> \<open>Startup\<close>, \<open>Startup_Props\<close> (\<^verbatim>\<open>main.go\<close> up to the start of the application): modes, login, environment,
    watch plan, revoking the token, and what references and paths together deliver (\<open>path_values\<close>). \<open>Launch\<close>: the whole of \<open>main\<close> up to the running application. \<open>Child_Env\<close>:
    when it gets there, and the environment of the application in terms of \<open>Injector_Spec\<close>. \<open>Env_Logger\<close>
    (\<^verbatim>\<open>logger.go\<close>): its logger, as the annotations of a pod configure it.
  \<^item> \<open>Watcher\<close>, \<open>Watcher_Props\<close> (\<^verbatim>\<open>main.go\<close> afterwards): the goroutines of the running process as one step
    relation \<open>process_step\<close> over a signal channel of capacity one, with reachability and invariants.
    \<open>Watcher_Term\<close>: its own steps end. \<open>Watcher_Live\<close>: its goroutines as an \<open>actor_system\<close>, and the restart.
  \<^item> \<open>Pod_Types\<close>, \<open>Webhook_Config\<close> (\<^verbatim>\<open>config.go\<close>, \<^verbatim>\<open>common.go\<close>), \<open>Webhook_Registry\<close> (\<^verbatim>\<open>registry.go\<close>, with the
    Go interface ImageRegistry as the locale \<open>image_registry\<close>), \<open>Webhook_Pod\<close> (\<^verbatim>\<open>pod.go\<close> and the lookups of
    \<^verbatim>\<open>webhook.go\<close>), \<open>Webhook_Mutator\<close> (\<^verbatim>\<open>webhook.go\<close>): the admission of a pod. \<open>Webhook_Props\<close> has its pure
    specification and properties; \<open>Webhook_Startup\<close> composes it with \<open>Startup\<close> and \<open>Client\<close>: restart mode,
    login and client timeout reach the injector as annotated. \<open>End_To_End\<close> goes on to the application that
    runs in the container. \<open>Registry_Concurrent\<close>: the image registry under concurrent admissions, as an
    \<open>actor_system\<close>.
  \<^item> \<open>Webhook_Injector\<close>, \<open>Webhook_Injector_Props\<close> (\<^verbatim>\<open>pkg/webhook/injector.go\<close>): the second copy of the injector,
    with the Transit engine.
  \<^item> \<open>Tls_Reloader\<close> (\<^verbatim>\<open>tlscertificate.go\<close>), \<open>Ssi_Controller\<close> (\<^verbatim>\<open>secretsstoreimport_controller.go\<close> and the API
    types), \<open>Hooks\<close> (\<^verbatim>\<open>local_stronghold_ca.go\<close>, \<^verbatim>\<open>ssi-spc-label-migrate/hook.go\<close>), \<open>Hooks_Config\<close> (their
    registrations, and their runs on a cluster).
  \<^item> \<open>Webhook_Log\<close> (the settings, the loggers of \<^verbatim>\<open>main.go\<close> and \<^verbatim>\<open>registry.go\<close>, \<^verbatim>\<open>webhook_logger.go\<close>,
    \<^verbatim>\<open>client_logger.go\<close>, \<open>ErrorLoggerMutator\<close>), \<open>Webhook_Server\<close> (\<^verbatim>\<open>vault-secrets-webhook/main.go\<close>): the servers.
  \<^item> \<open>Ssi_Main\<close> (\<^verbatim>\<open>ssi-controller/cmd/main.go\<close>): flags, TLS options and the start of the manager.
    \<open>Ssi_Scheme\<close> (\<^verbatim>\<open>groupversion_info.go\<close>, the \<open>init\<close> functions, \<open>SetupWithManager\<close>): what is registered before.
    \<open>Ssi_Concurrent\<close>: the workers of the controller, as an \<open>actor_system\<close>.
    \<open>Ssi_Deepcopy\<close> (\<^verbatim>\<open>zz_generated.deepcopy.go\<close>): the copies of the resources over a store of arrays and of
    the cells that metadata refers to.

  \<^bold>\<open>What the properties show.\<close> From the admission of a pod to its running application, the application gets the
  command line of its container and the values its variables refer to, unless a path of \<open>VAULT_ENV_FROM_PATH\<close>
  delivers another value under the name. Injecting refines the resolution of each value by itself, in any order of the
  map and with any state of the cache; plain reads never write to Vault; missing secrets stop the start exactly if they
  are not to be ignored. The digest reflects the secrets up to a collision of SHA-256, so unchanged secrets never
  restart the application in any interleaving, in a daemon neither, and a restart follows the protocol of SIGTERM, grace
  and SIGKILL; the exit code tells a restart. The application sees no variable of the table of the injector that is not passed
  on. The admitted pod is that of a pure specification, is
  well-formed, runs the command line it would have run, is not changed by a second mutation, and carries the
  annotated restart mode to the injector. The controller converges to the class an import asks for; the hooks
  keep bytes and other labels; the webhook serves the latest valid certificate, and pods in the clear only when no
  certificate is configured. The servers of the controller do not mix up their certificates, which rests on how
  Go grows slices; its manager starts only when everything it needs is there. Logs follow the annotations.

  \<^bold>\<open>Scope of the statements.\<close> An update reference (\<open>>>secrets-store:\<close>) writes to Vault when it is resolved. Its resolution is
  modelled, but what is proved in terms of the pure meaning of a reference is about environments without one
  (\<open>performs_update\<close>), and about a Vault whose answers are fixed for the time in question (\<open>stable_vault\<close>). Every property
  states such conditions in the text before it.

  \<^bold>\<open>Concurrency and liveness.\<close> Goroutines, admissions and workers are actors of a step relation that interleaves them
  with the outside. Safety holds in every interleaving. Liveness is over infinite runs in which an actor that is
  ready again and again acts again and again: a changed secret ends in a restart, every lookup of an
  image is answered, and the workers of the controller reach the class an import asks for and keep it. Others may change
  imports and classes at any time; since the controller does not watch classes, the last is proved from the latest event
  for the import on, provided that nobody else changes its class after it.

  \<^bold>\<open>Bounds and termination.\<close> No model uses fuel. The recursion of the injectors into inline references ends
  because a reference is three bytes shorter than its place in the value (\<open>find_inline_measure\<close>); the other
  loops run over lists. The poll loop and the goroutines, which need not end, are step relations; their
  own steps are well-founded, and they end with the exit of \<open>main\<close> once the application has exited
  (\<open>own_steps_terminate\<close>). The loop over flags is a function that drops an argument in every round. Lengths enter the hash as 64-bit words and
  durations are nanoseconds.

  \<^bold>\<open>Not modelled.\<close> The start of the hooks' SDK, which is a call without arguments; what
  libraries do between two calls (HTTP serving, metrics, the writing of log lines); the API type of
  \<^verbatim>\<open>hooks/batch/api\<close>, which nothing uses; the locks of the injectors' caches, since only one goroutine at a time
  calls an injector (the polls make one of their own); the parsing and execution of templates, and the contents of
  X.509 certificates.
\<close>

end
